(* ===== verification/Gyh_Prelude.thy ===== *)
theory Gyh_Prelude
  imports Main "HOL-Library.Word" "HOL-Library.Monad_Syntax"
begin

text \<open>
  Shared material of the development: the machine integer types, the result type of
  operations that may abort (with the monadic composition the proofs use), and lemmas on
  rounding an address down to a power of two.
\<close>

unbundle bit_operations_syntax

type_synonym u8 = "8 word"
type_synonym u32 = "32 word"
type_synonym u64 = "64 word"

text \<open>The facts that unfold the result monad and the table operations.\<close>

named_theorems result_simps

section \<open>Results\<close>

text \<open>\<open>Inl e\<close> is an abort, an assertion failure or an error return; \<open>Inr x\<close> a result.\<close>

type_synonym ('e, 'a) result = "'e + 'a"

definition bind_result :: "('e, 'a) result \<Rightarrow> ('a \<Rightarrow> ('e, 'b) result) \<Rightarrow> ('e, 'b) result" where
  "bind_result r f = (case r of Inl e \<Rightarrow> Inl e | Inr x \<Rightarrow> f x)"

definition check :: "bool \<Rightarrow> 'e \<Rightarrow> ('e, unit) result" where
  "check b e = (if b then Inr () else Inl e)"

lemma bind_result_Inl [simp]: "bind_result (Inl e) f = Inl e"
  by (simp add: bind_result_def)

lemma bind_result_Inr [simp]: "bind_result (Inr x) f = f x"
  by (simp add: bind_result_def)

lemma bind_result_assoc: "bind_result (bind_result r f) g = bind_result r (\<lambda>x. bind_result (f x) g)"
  by (cases r) auto

lemma bind_result_eq_Inr [result_simps]:
  "bind_result r f = Inr y \<longleftrightarrow> (\<exists>x. r = Inr x \<and> f x = Inr y)"
  by (cases r) auto

lemma bind_result_eq_Inl [result_simps]:
  "bind_result r f = Inl e \<longleftrightarrow> r = Inl e \<or> (\<exists>x. r = Inr x \<and> f x = Inl e)"
  by (cases r) auto

lemma check_eq_Inr [result_simps]: "check b e = Inr u \<longleftrightarrow> b"
  by (simp add: check_def)

lemma check_eq_Inl [result_simps]: "check b e = Inl e' \<longleftrightarrow> \<not> b \<and> e' = e"
  by (auto simp: check_def)

lemma check_True [simp]: "check True e = Inr ()"
  by (simp add: check_def)

lemma check_False [simp]: "check False e = Inl e"
  by (simp add: check_def)

section \<open>Rounding an address down\<close>

lemma and_not_mask: "(x :: 'a::len word) AND NOT (mask k) = x - take_bit k x"
proof -
  have "x - take_bit k x = x AND NOT (take_bit k x)"
    by (rule disjunctive_diff) (simp add: bit_take_bit_iff)
  also have "\<dots> = x AND NOT (mask k)"
    by (rule bit_word_eqI) (auto simp: bit_simps)
  finally show ?thesis by simp
qed

lemma unat_and_not_mask: "unat ((x :: 'a::len word) AND NOT (mask k)) = unat x - unat x mod 2 ^ k"
proof -
  have t: "unat (take_bit k x) = unat x mod 2 ^ k"
    by (simp only: unsigned_take_bit_eq) (simp only: take_bit_eq_mod)
  then have "take_bit k x \<le> x"
    by (simp add: word_le_nat_alt)
  then show ?thesis
    by (simp add: and_not_mask unat_sub t)
qed

lemma align_down_bounds:
  "unat (x AND NOT (mask k)) \<le> unat x" "unat x < unat ((x :: 'a::len word) AND NOT (mask k)) + 2 ^ k"
proof -
  have "unat x mod 2 ^ k \<le> unat x" "unat x mod 2 ^ k < (2::nat) ^ k" by simp_all
  then show "unat (x AND NOT (mask k)) \<le> unat x" "unat x < unat (x AND NOT (mask k)) + 2 ^ k"
    unfolding unat_and_not_mask by arith+
qed

end
