(* ===== verification/Gyh_Memory.thy ===== *)
theory Gyh_Memory
  imports Gyh_Prelude
begin

text \<open>
  The address space the emulator and the emulated process share (\<open>gyh_cpu_loop\<close> asserts
  \<open>!have_guest_base\<close>, so a guest address is a host address): bytes, with little-endian
  32-bit and 64-bit accesses.  The hexadecimal formatting \<open>%08X\<close> that builds library
  paths and symbol names is here too.
\<close>

section \<open>Bytes and little-endian accesses\<close>

type_synonym mem = "u64 \<Rightarrow> u8"

definition bytes :: "u64 \<Rightarrow> nat \<Rightarrow> u64 set" where
  "bytes a n = (\<lambda>i. a + of_nat i) ` {..<n}"

fun load_le :: "nat \<Rightarrow> mem \<Rightarrow> u64 \<Rightarrow> nat" where
  "load_le 0 m a = 0"
| "load_le (Suc n) m a = unat (m a) + 256 * load_le n m (a + 1)"

fun store_le :: "nat \<Rightarrow> nat \<Rightarrow> mem \<Rightarrow> u64 \<Rightarrow> mem" where
  "store_le 0 v m a = m"
| "store_le (Suc n) v m a = (store_le n (v div 256) m (a + 1))(a := word_of_nat (v mod 256))"

definition load32 :: "mem \<Rightarrow> u64 \<Rightarrow> u32" where
  "load32 m a = word_of_nat (load_le 4 m a)"

definition load64 :: "mem \<Rightarrow> u64 \<Rightarrow> u64" where
  "load64 m a = word_of_nat (load_le 8 m a)"

definition store32 :: "mem \<Rightarrow> u64 \<Rightarrow> u32 \<Rightarrow> mem" where
  "store32 m a v = store_le 4 (unat v) m a"

definition store64 :: "mem \<Rightarrow> u64 \<Rightarrow> u64 \<Rightarrow> mem" where
  "store64 m a v = store_le 8 (unat v) m a"

section \<open>Formatting with \<open>%08X\<close>\<close>

definition hex_digit :: "nat \<Rightarrow> char" where
  "hex_digit d = char_of (if d < 10 then 48 + d else 55 + d)"

fun hex_digits :: "nat \<Rightarrow> nat \<Rightarrow> string" where
  "hex_digits 0 n = []"
| "hex_digits (Suc k) n = hex_digits k (n div 16) @ [hex_digit (n mod 16)]"

definition hex8 :: "u32 \<Rightarrow> string" where
  "hex8 w = hex_digits 8 (unat w)"

section \<open>Lemmas\<close>

lemma bytes_0 [simp]: "bytes a 0 = {}"
  by (simp add: bytes_def)

lemma bytes_Suc: "bytes a (Suc n) = insert a (bytes (a + 1) n)"
  unfolding bytes_def lessThan_Suc_eq_insert_0
  by (auto simp: image_image algebra_simps)

lemma not_in_bytes_next: "n < 2 ^ 64 \<Longrightarrow> a \<notin> bytes (a + 1) n"
proof
  assume n: "n < 2 ^ 64" and "a \<in> bytes (a + 1) n"
  then obtain i where i: "i < n" "a = a + 1 + of_nat i"
    by (auto simp: bytes_def)
  then have "of_nat (Suc i) = (0 :: u64)"
    by (simp add: algebra_simps)
  then have "2 ^ 64 dvd Suc i"
    by (simp only: word_of_nat_eq_0_iff) simp
  with i n show False
    by (auto dest: dvd_imp_le)
qed

lemma store_le_outside: "b \<notin> bytes a n \<Longrightarrow> store_le n v m a b = m b"
  by (induction n arbitrary: v a) (auto simp: bytes_Suc)

lemma load_le_cong: "(\<And>b. b \<in> bytes a n \<Longrightarrow> m b = m' b) \<Longrightarrow> load_le n m a = load_le n m' a"
  by (induction n arbitrary: a) (auto simp: bytes_Suc)

lemma load_store_le_disjoint:
  "bytes a n \<inter> bytes b k = {} \<Longrightarrow> load_le n (store_le k v m b) a = load_le n m a"
  by (rule load_le_cong, rule store_le_outside) auto

lemma load_store_le_same: "n \<le> 2 ^ 64 \<Longrightarrow> load_le n (store_le n v m a) a = v mod 256 ^ n"
proof (induction n arbitrary: v a)
  case 0
  then show ?case by simp
next
  case (Suc n)
  let ?m = "store_le n (v div 256) m (a + 1)"
  have "load_le n (?m(a := word_of_nat (v mod 256))) (a + 1) = load_le n ?m (a + 1)"
    using Suc.prems not_in_bytes_next [of n a] by (intro load_le_cong) auto
  also have "\<dots> = v div 256 mod 256 ^ n"
    using Suc by simp
  finally have "load_le (Suc n) (store_le (Suc n) v m a) a = v mod 256 + 256 * (v div 256 mod 256 ^ n)"
    by (simp only: load_le.simps store_le.simps fun_upd_same) (simp add: unsigned_of_nat take_bit_eq_mod)
  then show ?case
    by (simp only: power_Suc mod_mult2_eq)
qed

lemma load_le_bound: "load_le n m a < 256 ^ n"
proof (induction n arbitrary: a)
  case (Suc n)
  have "unat (m a) < 256"
    using unsigned_less [of "m a"] by simp
  with Suc [of "a + 1"] show ?case by simp
qed simp

lemma load32_store32_same [simp]: "load32 (store32 m a v) a = v"
  using unsigned_less [of v, where 'a = nat]
  by (simp add: load32_def store32_def load_store_le_same del: load_le.simps store_le.simps)

lemma load64_store64_same [simp]: "load64 (store64 m a v) a = v"
  using unsigned_less [of v, where 'a = nat]
  by (simp add: load64_def store64_def load_store_le_same del: load_le.simps store_le.simps)

lemma load64_store64_disjoint:
  "bytes a 8 \<inter> bytes b 8 = {} \<Longrightarrow> load64 (store64 m b v) a = load64 m a"
  by (simp add: load64_def store64_def load_store_le_disjoint)

lemma load64_store32_disjoint:
  "bytes a 8 \<inter> bytes b 4 = {} \<Longrightarrow> load64 (store32 m b v) a = load64 m a"
  by (simp add: load64_def store32_def load_store_le_disjoint)

lemma load32_store64_disjoint:
  "bytes a 4 \<inter> bytes b 8 = {} \<Longrightarrow> load32 (store64 m b v) a = load32 m a"
  by (simp add: load32_def store64_def load_store_le_disjoint)

lemma load32_store32_disjoint:
  "bytes a 4 \<inter> bytes b 4 = {} \<Longrightarrow> load32 (store32 m b v) a = load32 m a"
  by (simp add: load32_def store32_def load_store_le_disjoint)

lemma bytes_add: "bytes a (n + k) = bytes a n \<union> bytes (a + of_nat n) k"
  by (induction n arbitrary: a) (auto simp: bytes_Suc algebra_simps)

lemma bytes_adjacent_disjoint:
  assumes "n + k \<le> 2 ^ 64"
  shows "bytes a n \<inter> bytes (a + of_nat n) k = {}"
proof (rule ccontr)
  assume "bytes a n \<inter> bytes (a + of_nat n) k \<noteq> {}"
  then obtain i j where ij: "i < n" "j < k" and "a + of_nat i = a + of_nat n + (of_nat j :: u64)"
    by (auto simp: bytes_def)
  then have "of_nat i = (of_nat (n + j) :: u64)"
    by (simp add: algebra_simps)
  moreover have "i < 2 ^ 64" "n + j < 2 ^ 64"
    using ij assms by auto
  ultimately have "i = n + j"
    by (simp only: word_of_nat_eq_iff) (simp add: take_bit_nat_eq_self)
  with ij show False by simp
qed

lemma in_bytes_range:
  assumes "x \<in> bytes a n" "unat a + n \<le> 2 ^ 64"
  shows "unat a \<le> unat x \<and> unat x < unat a + n"
proof -
  from assms(1) obtain i where i: "i < n" "x = a + of_nat i"
    by (auto simp: bytes_def)
  then have "i < 2 ^ 64" using assms(2) by simp
  then have "unat (of_nat i :: u64) = i"
    by (simp add: unsigned_of_nat take_bit_nat_eq_self)
  then have "unat x = unat a + i"
    using i assms(2) by (simp add: unat_word_ariths(1))
  with i show ?thesis by simp
qed

lemma bytes_disjointI:
  assumes "unat a + n \<le> unat b" "unat b + k \<le> 2 ^ 64"
  shows "bytes a n \<inter> bytes b k = {}" "bytes b k \<inter> bytes a n = {}"
proof -
  have "unat a + n \<le> 2 ^ 64" using assms by simp
  then show "bytes a n \<inter> bytes b k = {}"
    using in_bytes_range [of _ a n] in_bytes_range [of _ b k] assms by fastforce
  then show "bytes b k \<inter> bytes a n = {}" by blast
qed

text \<open>An address rounded down to 16 bytes after leaving \<open>k\<close> bytes of room.\<close>

lemma align16_bounds:
  assumes "unat al + k < 2 ^ 64" "16 \<le> k"
  defines "c \<equiv> (al + word_of_nat k) AND NOT (0xf :: u64)"
  shows "unat al + k < unat c + 16 \<and> unat c \<le> unat al + k \<and> c AND 0xf = 0"
proof -
  have m: "(0xf :: u64) = mask 4" by (simp add: mask_eq_exp_minus_1)
  have "unat (word_of_nat k :: u64) = k"
    using assms(1) by (simp only: unsigned_of_nat) (simp add: take_bit_nat_eq_self)
  then have "unat (al + word_of_nat k) = unat al + k"
    using assms(1) by (simp add: unat_word_ariths(1))
  with align_down_bounds [of "al + word_of_nat k" 4] show ?thesis
    by (simp add: c_def m and.assoc)
qed

lemma hex_digits_length [simp]: "length (hex_digits k n) = k"
  by (induction k arbitrary: n) auto

lemma hex_digit_inj: "d < 16 \<Longrightarrow> e < 16 \<Longrightarrow> hex_digit d = hex_digit e \<longleftrightarrow> d = e"
proof
  assume de: "d < 16" "e < 16" and "hex_digit d = hex_digit e"
  then have "of_char (hex_digit d) = (of_char (hex_digit e) :: nat)"
    by simp
  with de show "d = e"
    by (auto simp: hex_digit_def take_bit_nat_eq_self split: if_splits)
qed simp

lemma hex_digits_inj:
  "n < 16 ^ k \<Longrightarrow> n' < 16 ^ k \<Longrightarrow> hex_digits k n = hex_digits k n' \<Longrightarrow> n = n'"
proof (induction k arbitrary: n n')
  case (Suc k)
  then have "hex_digits k (n div 16) = hex_digits k (n' div 16)" and "n mod 16 = n' mod 16"
    by (auto simp: hex_digit_inj)
  moreover from this Suc have "n div 16 = n' div 16"
    by (auto simp: less_mult_imp_div_less mult.commute)
  ultimately show ?case
    by (metis div_mult_mod_eq)
qed simp

lemma hex8_length [simp]: "length (hex8 w) = 8"
  by (simp add: hex8_def)

lemma hex8_inj: "hex8 u = hex8 v \<longleftrightarrow> u = v"
proof
  assume "hex8 u = hex8 v"
  moreover have "unat u < 16 ^ 8" "unat v < 16 ^ 8"
    using unsigned_less [of u, where 'a = nat] unsigned_less [of v, where 'a = nat] by simp_all
  ultimately have "unat u = unat v"
    unfolding hex8_def by (blast intro: hex_digits_inj)
  then show "u = v" by (simp add: word_unat_eq_iff)
qed simp

end
