(* ===== verification/Gyh_Qlib.thy ===== *)
theory Gyh_Qlib
  imports Gyh_Memory
begin

text \<open>
  The library table of the emulator's runtime, \<open>qemu/linux-user/+gyh/gyh.c\<close>: loading a
  host library (\<open>gyh_do_ctor\<close>, \<open>gyh_do_ctor_grt\<close>, \<open>gyh_do_ctor_fcp_cm\<close>), unloading it
  (\<open>gyh_dtor\<close>) and finding the host function of a call.  The dynamic loader is a parameter
  of type \<open>dl\<close>; every \<open>abort()\<close> is a value of \<open>gyh_abort\<close>.  Log output is left out.
\<close>

section \<open>State\<close>

text \<open>The dynamic loader: \<open>dlopen\<close> and \<open>dlclose\<close> may change memory (they map and unmap the
  library and run its initialisers); a null handle or address is 0.\<close>

record dl =
  dlopen :: "mem \<Rightarrow> string \<Rightarrow> u64 \<times> mem"
  dlsym :: "u64 \<Rightarrow> string \<Rightarrow> u64"
  dlclose :: "mem \<Rightarrow> u64 \<Rightarrow> int \<times> mem"

record gyh_Qlib =
  handle :: u64
  qlib_uid :: u32
  hfunctbl :: u64
  hfunctblSize :: u32
  extreftbl :: u64
  cbstubtbl :: u64

record qtab =
  qmem :: mem
  gyhcall_config_dir :: string
  gyh_qlibs :: "gyh_Qlib list"
  gyh_cbFunc :: u64

datatype gyh_abort =
    AbConfigDir
  | AbCbFunc u64 u64
  | AbNoIndex u32
  | AbPathOverflow
  | AbDlerror
  | AbQlibRange u32
  | AbQlibNotSet u32
  | AbFuncRange u32 u32 u32
  | AbBadMagic u64 nat u64
  | AbAssert string
  | AbWildContext u64
  | AbSyscall u64
  | AbTrap int

definition gyh_qlibs_size :: nat where
  "gyh_qlibs_size = 1024"

definition empty_qlib :: gyh_Qlib where
  "empty_qlib = \<lparr>handle = 0, qlib_uid = 0, hfunctbl = 0, hfunctblSize = 0, extreftbl = 0, cbstubtbl = 0\<rparr>"

definition init_qtab :: "mem \<Rightarrow> qtab" where
  "init_qtab m = \<lparr>qmem = m, gyhcall_config_dir = [],
     gyh_qlibs = replicate gyh_qlibs_size empty_qlib, gyh_cbFunc = 0\<rparr>"

definition gyh_cpu_loop_init :: "string option \<Rightarrow> qtab \<Rightarrow> (gyh_abort, qtab) result" where
  "gyh_cpu_loop_init getenv st =
     (case getenv of None \<Rightarrow> Inl AbConfigDir | Some d \<Rightarrow> Inr (st\<lparr>gyhcall_config_dir := d\<rparr>))"

section \<open>Loading\<close>

text \<open>The scan for a slot with a null handle; the number of slots when there is none.\<close>

fun free_slot :: "gyh_Qlib list \<Rightarrow> nat \<Rightarrow> nat" where
  "free_slot [] i = i"
| "free_slot (q # qs) i = (if handle q = 0 then i else free_slot qs (Suc i))"

definition qlib_path :: "string \<Rightarrow> u32 \<Rightarrow> string" where
  "qlib_path dir uid = dir @ ''/host/'' @ hex8 uid @ ''.qso''"

definition dlsym_or_abort :: "dl \<Rightarrow> u64 \<Rightarrow> string \<Rightarrow> (gyh_abort, u64) result" where
  "dlsym_or_abort D h name = (let a = dlsym D h name in if a = 0 then Inl AbDlerror else Inr a)"

definition gyh_do_ctor :: "dl \<Rightarrow> qtab \<Rightarrow> u64 \<Rightarrow> u64 \<Rightarrow> (gyh_abort, nat \<times> qtab) result" where
  "gyh_do_ctor D st qlibUid cbFunc =
     bind_result (if gyh_cbFunc st = 0 then Inr (st\<lparr>gyh_cbFunc := cbFunc\<rparr>)
                  else if gyh_cbFunc st \<noteq> cbFunc then Inl (AbCbFunc (gyh_cbFunc st) cbFunc)
                  else Inr st) (\<lambda>st.
     let qlibIdx = free_slot (gyh_qlibs st) 0;
         uid0 = load32 (qmem st) qlibUid;
         qlibPath = qlib_path (gyhcall_config_dir st) uid0
     in bind_result (check (qlibIdx \<noteq> gyh_qlibs_size) (AbNoIndex uid0)) (\<lambda>_.
        bind_result (check (length qlibPath < 1024) AbPathOverflow) (\<lambda>_.
        let (h, m) = dlopen D (qmem st) qlibPath
        in bind_result (check (h \<noteq> 0) AbDlerror) (\<lambda>_.
           let uid = load32 m qlibUid
           in bind_result (dlsym_or_abort D h (''__gyh_hfunctbl_'' @ hex8 uid)) (\<lambda>tbl.
              bind_result (dlsym_or_abort D h (''__gyh_hfunctbl_size_'' @ hex8 uid)) (\<lambda>sz.
              let qlib = (gyh_qlibs st ! qlibIdx)\<lparr>handle := h, qlib_uid := uid, hfunctbl := tbl,
                           hfunctblSize := load32 m sz\<rparr>
              in Inr (qlibIdx, st\<lparr>qmem := store32 m qlibUid (word_of_nat qlibIdx),
                                   gyh_qlibs := (gyh_qlibs st)[qlibIdx := qlib]\<rparr>)))))))"

definition gyh_ctor :: "dl \<Rightarrow> qtab \<Rightarrow> u64 \<Rightarrow> u64 \<Rightarrow> (gyh_abort, qtab) result" where
  "gyh_ctor D st qlibUid cbFunc = map_sum id snd (gyh_do_ctor D st qlibUid cbFunc)"

definition gyh_dtor :: "dl \<Rightarrow> qtab \<Rightarrow> u64 \<Rightarrow> (gyh_abort, qtab) result" where
  "gyh_dtor D st qlibUid =
     (let idx = load32 (qmem st) qlibUid
      in bind_result (check (unat idx < gyh_qlibs_size) (AbQlibRange idx)) (\<lambda>_.
         let qlib = gyh_qlibs st ! unat idx
         in bind_result (check (handle qlib \<noteq> 0) (AbQlibNotSet idx)) (\<lambda>_.
            let (err, m) = dlclose D (qmem st) (handle qlib)
            in bind_result (check (err = 0) AbDlerror) (\<lambda>_.
               Inr (st\<lparr>qmem := store32 m qlibUid (qlib_uid qlib)\<rparr>)))))"

section \<open>Finding the host function of a call\<close>

text \<open>The checks and the table read that \<open>gyh_do_call\<close> and \<open>gyh_do_call_grt\<close> make before they
  call the host function.\<close>

definition hfunc_of_call :: "qtab \<Rightarrow> u64 \<Rightarrow> u32 \<Rightarrow> (gyh_abort, u64) result" where
  "hfunc_of_call st qlibUid funcUid =
     (let idx = load32 (qmem st) qlibUid
      in bind_result (check (unat idx < gyh_qlibs_size) (AbQlibRange idx)) (\<lambda>_.
         let qlib = gyh_qlibs st ! unat idx
         in if funcUid > hfunctblSize qlib
            then Inl (AbFuncRange funcUid (hfunctblSize qlib) (qlib_uid qlib))
            else Inr (load64 (qmem st) (hfunctbl qlib + 8 * ucast funcUid))))"

section \<open>Global reference tables\<close>

definition gyh_do_ctor_grt ::
  "dl \<Rightarrow> qtab \<Rightarrow> u64 \<Rightarrow> u64 \<Rightarrow> u64 \<Rightarrow> u64 \<Rightarrow> (gyh_abort, nat \<times> qtab) result" where
  "gyh_do_ctor_grt D st qlibUid extref cbstub cbFunc =
     bind_result (gyh_do_ctor D st qlibUid cbFunc) (\<lambda>(i, st).
     let qlib = gyh_qlibs st ! i
     in bind_result (dlsym_or_abort D (handle qlib) (''__gyh_extreftbl_'' @ hex8 (qlib_uid qlib))) (\<lambda>ep.
        let m = store64 (qmem st) ep extref;
            qlib = qlib\<lparr>extreftbl := extref\<rparr>
        in bind_result (dlsym_or_abort D (handle qlib) (''__gyh_cbstubtbl_'' @ hex8 (qlib_uid qlib))) (\<lambda>cp.
           let m = store64 m cp cbstub;
               qlib = qlib\<lparr>cbstubtbl := cbstub\<rparr>
           in Inr (i, st\<lparr>qmem := m, gyh_qlibs := (gyh_qlibs st)[i := qlib]\<rparr>))))"

definition gyh_ctor_grt ::
  "dl \<Rightarrow> qtab \<Rightarrow> u64 \<Rightarrow> u64 \<Rightarrow> u64 \<Rightarrow> u64 \<Rightarrow> (gyh_abort, qtab) result" where
  "gyh_ctor_grt D st qlibUid extref cbstub cbFunc =
     map_sum id snd (gyh_do_ctor_grt D st qlibUid extref cbstub cbFunc)"

section \<open>Cross-module fast call path\<close>

definition kFCPcmMagic :: u64 where
  "kFCPcmMagic = 0x6666200009068888"

text \<open>The state of the patching loop: memory, the page range last made writable and the
  \<open>mprotect\<close> calls made, latest first.\<close>

record fcp_state =
  fcp_mem :: mem
  pageBegin :: u64
  pageEnd :: u64
  mprotects :: "(u64 \<times> u64) list"

definition fcp_cm_patch ::
  "u64 \<Rightarrow> u64 \<Rightarrow> u64 \<Rightarrow> nat \<Rightarrow> fcp_state \<Rightarrow> (gyh_abort, fcp_state) result" where
  "fcp_cm_patch pageSize functblPtr gfunctbl i s =
     (let gf = load64 (fcp_mem s) (gfunctbl + 8 * word_of_nat i);
          magic = gf - 16;
          gfuncId = gf - 8
      in if load64 (fcp_mem s) magic \<noteq> kFCPcmMagic
         then Inl (AbBadMagic (load64 (fcp_mem s) magic) i gf)
         else
           let s = (if magic < pageBegin s \<or> gf \<ge> pageEnd s
                    then let b = magic AND NOT (pageSize - 1);
                             e = (gf + pageSize) AND NOT (pageSize - 1)
                         in s\<lparr>pageBegin := b, pageEnd := e, mprotects := (b, e - b) # mprotects s\<rparr>
                    else s);
               m1 = store64 (fcp_mem s) gfuncId (load64 (fcp_mem s) (functblPtr + 8 * word_of_nat i));
               m2 = store64 m1 magic (kFCPcmMagic XOR load64 m1 gfuncId)
           in Inr (s\<lparr>fcp_mem := m2\<rparr>))"

fun fcp_cm_loop ::
  "u64 \<Rightarrow> u64 \<Rightarrow> u64 \<Rightarrow> nat list \<Rightarrow> fcp_state \<Rightarrow> (gyh_abort, fcp_state) result" where
  "fcp_cm_loop pageSize functblPtr gfunctbl [] s = Inr s"
| "fcp_cm_loop pageSize functblPtr gfunctbl (i # is) s =
     bind_result (fcp_cm_patch pageSize functblPtr gfunctbl i s)
       (fcp_cm_loop pageSize functblPtr gfunctbl is)"

definition gyh_do_ctor_fcp_cm ::
  "dl \<Rightarrow> u64 \<Rightarrow> qtab \<Rightarrow> u64 \<Rightarrow> u64 \<Rightarrow> u64 \<Rightarrow> u64 \<Rightarrow> u32 \<Rightarrow> u64
   \<Rightarrow> (gyh_abort, nat \<times> qtab) result" where
  "gyh_do_ctor_fcp_cm D pageSize st qlibUid extref cbstub gfunctbl gfunctblSize cbFunc =
     bind_result (gyh_do_ctor_grt D st qlibUid extref cbstub cbFunc) (\<lambda>(i, st).
     let qlib = gyh_qlibs st ! i
     in bind_result (dlsym_or_abort D (handle qlib) (''__gyh_functbl_'' @ hex8 (qlib_uid qlib))) (\<lambda>fp.
        bind_result (fcp_cm_loop pageSize fp gfunctbl [0..<unat gfunctblSize]
            \<lparr>fcp_mem = qmem st, pageBegin = 0, pageEnd = 0, mprotects = []\<rparr>) (\<lambda>s.
        Inr (i, st\<lparr>qmem := fcp_mem s\<rparr>))))"

definition gyh_ctor_fcp_cm ::
  "dl \<Rightarrow> u64 \<Rightarrow> qtab \<Rightarrow> u64 \<Rightarrow> u64 \<Rightarrow> u64 \<Rightarrow> u64 \<Rightarrow> u32 \<Rightarrow> u64
   \<Rightarrow> (gyh_abort, qtab) result" where
  "gyh_ctor_fcp_cm D pageSize st qlibUid extref cbstub gfunctbl gfunctblSize cbFunc =
     map_sum id snd (gyh_do_ctor_fcp_cm D pageSize st qlibUid extref cbstub gfunctbl gfunctblSize cbFunc)"

section \<open>Lemmas on loading and unloading\<close>

text \<open>The abstract view of the table: the libraries loaded so far, in order.\<close>

definition loaded :: "qtab \<Rightarrow> gyh_Qlib list" where
  "loaded st = takeWhile (\<lambda>q. handle q \<noteq> 0) (gyh_qlibs st)"

definition wf_qtab :: "qtab \<Rightarrow> bool" where
  "wf_qtab st \<longleftrightarrow> length (gyh_qlibs st) = gyh_qlibs_size \<and>
     (\<forall>i. length (loaded st) \<le> i \<and> i < gyh_qlibs_size \<longrightarrow> handle (gyh_qlibs st ! i) = 0)"

lemma free_slot_eq: "free_slot qs i = i + length (takeWhile (\<lambda>q. handle q \<noteq> 0) qs)"
  by (induction qs arbitrary: i) auto

lemma free_slot_loaded: "free_slot (gyh_qlibs st) 0 = length (loaded st)"
  by (simp add: free_slot_eq loaded_def)

lemma loaded_init [simp]: "loaded (init_qtab m) = []"
  by (simp add: loaded_def init_qtab_def gyh_qlibs_size_def empty_qlib_def takeWhile_eq_Nil_iff
      hd_replicate)

lemma wf_init_qtab: "wf_qtab (init_qtab m)"
  by (simp add: wf_qtab_def init_qtab_def empty_qlib_def)

lemma takeWhile_update_next:
  assumes len: "length (takeWhile P xs) < length xs" and x: "P x"
    and rest: "\<And>i. length (takeWhile P xs) \<le> i \<Longrightarrow> i < length xs \<Longrightarrow> \<not> P (xs ! i)"
  shows "takeWhile P (xs[length (takeWhile P xs) := x]) = takeWhile P xs @ [x]"
proof -
  let ?n = "length (takeWhile P xs)"
  have "takeWhile P (drop (Suc ?n) xs) = []"
  proof (cases "Suc ?n < length xs")
    case True
    with rest [of "Suc ?n"] show ?thesis
      by (simp add: Cons_nth_drop_Suc [symmetric])
  qed simp
  moreover have "xs[?n := x] = takeWhile P xs @ x # drop (Suc ?n) xs"
    using len by (simp add: upd_conv_take_nth_drop takeWhile_eq_take [symmetric])
  ultimately show ?thesis
    using x by (simp, subst takeWhile_append2) (auto dest: set_takeWhileD)
qed

lemma wf_qtab_length: "wf_qtab st \<Longrightarrow> length (gyh_qlibs st) = gyh_qlibs_size"
  by (simp add: wf_qtab_def)

lemma loaded_length_le: "wf_qtab st \<Longrightarrow> length (loaded st) \<le> gyh_qlibs_size"
  by (metis length_takeWhile_le loaded_def wf_qtab_def)

lemmas ctor_simps = gyh_do_ctor_def dlsym_or_abort_def free_slot_loaded Let_def result_simps
  case_prod_beta

lemma nth_loaded: "i < length (loaded st) \<Longrightarrow> gyh_qlibs st ! i = loaded st ! i"
  by (simp add: loaded_def takeWhile_nth)

text \<open>What a successful load does to the table and to memory.\<close>

lemma gyh_do_ctor_loads:
  assumes wf: "wf_qtab st" and ctor: "gyh_do_ctor D st p cb = Inr (i, st')"
  defines "m \<equiv> snd (dlopen D (qmem st) (qlib_path (gyhcall_config_dir st) (load32 (qmem st) p)))"
  obtains q where "i = length (loaded st)" "i < gyh_qlibs_size" "wf_qtab st'"
    "loaded st' = loaded st @ [q]" "gyh_qlibs st' ! i = q"
    "handle q = fst (dlopen D (qmem st) (qlib_path (gyhcall_config_dir st) (load32 (qmem st) p)))"
    "handle q \<noteq> 0" "qlib_uid q = load32 m p"
    "hfunctbl q = dlsym D (handle q) (''__gyh_hfunctbl_'' @ hex8 (qlib_uid q))"
    "hfunctblSize q = load32 m (dlsym D (handle q) (''__gyh_hfunctbl_size_'' @ hex8 (qlib_uid q)))"
    "qmem st' = store32 m p (word_of_nat i)"
    "gyh_cbFunc st' = cb" "gyh_cbFunc st = 0 \<or> gyh_cbFunc st = cb"
    "gyhcall_config_dir st' = gyhcall_config_dir st"
proof -
  let ?h = "fst (dlopen D (qmem st) (qlib_path (gyhcall_config_dir st) (load32 (qmem st) p)))"
  let ?u = "load32 m p"
  let ?n = "length (loaded st)"
  let ?q = "(gyh_qlibs st ! ?n)\<lparr>handle := ?h, qlib_uid := ?u,
     hfunctbl := dlsym D ?h (''__gyh_hfunctbl_'' @ hex8 ?u),
     hfunctblSize := load32 m (dlsym D ?h (''__gyh_hfunctbl_size_'' @ hex8 ?u))\<rparr>"
  have cb: "gyh_cbFunc st = 0 \<or> gyh_cbFunc st = cb"
    using ctor by (auto simp: gyh_do_ctor_def split: if_splits)
  have "loaded (st\<lparr>gyh_cbFunc := cb\<rparr>) = loaded st"
    by (simp add: loaded_def)
  with ctor cb have i: "i = ?n" and n: "?n \<noteq> gyh_qlibs_size" and h: "?h \<noteq> 0"
    and st': "st' = st\<lparr>gyh_cbFunc := cb, qmem := store32 m p (word_of_nat i),
                gyh_qlibs := (gyh_qlibs st)[?n := ?q]\<rparr>"
    by (auto simp: ctor_simps m_def split: if_splits)
  have lt: "?n < gyh_qlibs_size"
    using n loaded_length_le [OF wf] by simp
  have upd: "loaded st' = loaded st @ [?q]"
    unfolding loaded_def [of st'] using lt h wf
    by (simp add: st' loaded_def, intro takeWhile_update_next) (simp_all add: wf_qtab_def loaded_def)
  then have wf': "wf_qtab st'"
    using wf i by (simp add: wf_qtab_def st' nth_list_update)
  have "gyh_qlibs st' ! i = ?q"
    using lt wf_qtab_length [OF wf] by (simp add: st' i)
  with upd wf' i lt h cb show thesis
    by (intro that [of ?q]) (simp_all add: st')
qed

lemma gyh_dtor_keeps_table:
  assumes "gyh_dtor D st p = Inr st'"
  shows "gyh_qlibs st' = gyh_qlibs st" "gyh_cbFunc st' = gyh_cbFunc st"
    "gyhcall_config_dir st' = gyhcall_config_dir st"
  using assms by (auto simp: gyh_dtor_def Let_def result_simps case_prod_beta)

lemma gyh_dtor_loaded:
  "gyh_dtor D st p = Inr st' \<Longrightarrow> loaded st' = loaded st \<and> wf_qtab st' = wf_qtab st"
  by (simp add: loaded_def wf_qtab_def gyh_dtor_keeps_table)

lemma gyh_do_ctor_full:
  assumes "length (loaded st) = gyh_qlibs_size" "gyh_cbFunc st = 0 \<or> gyh_cbFunc st = cb"
  shows "gyh_do_ctor D st p cb = Inl (AbNoIndex (load32 (qmem st) p))"
  using assms by (auto simp: gyh_do_ctor_def free_slot_loaded Let_def loaded_def)

text \<open>Repeated loading and unloading of one library.\<close>

fun load_cycles :: "dl \<Rightarrow> u64 \<Rightarrow> u64 \<Rightarrow> nat \<Rightarrow> qtab \<Rightarrow> (gyh_abort, qtab) result" where
  "load_cycles D p cb 0 st = Inr st"
| "load_cycles D p cb (Suc n) st =
     bind_result (gyh_ctor D st p cb) (\<lambda>st.
     bind_result (gyh_dtor D st p) (load_cycles D p cb n))"

lemma gyh_ctor_eq_Inr: "gyh_ctor D st p cb = Inr st' \<longleftrightarrow> (\<exists>i. gyh_do_ctor D st p cb = Inr (i, st'))"
  by (cases "gyh_do_ctor D st p cb") (auto simp: gyh_ctor_def)

lemma load_cycles_count:
  "wf_qtab st \<Longrightarrow> load_cycles D p cb n st = Inr st'
   \<Longrightarrow> wf_qtab st' \<and> length (loaded st') = length (loaded st) + n"
proof (induction n arbitrary: st)
  case (Suc n)
  from Suc.prems obtain i st1 st2 where ctor: "gyh_do_ctor D st p cb = Inr (i, st1)"
    and dtor: "gyh_dtor D st1 p = Inr st2" and rest: "load_cycles D p cb n st2 = Inr st'"
    by (auto simp: result_simps gyh_ctor_eq_Inr)
  from gyh_do_ctor_loads [OF Suc.prems(1) ctor]
  have "wf_qtab st1" "length (loaded st1) = Suc (length (loaded st))"
    by (metis, metis length_append_singleton)
  with gyh_dtor_loaded [OF dtor] Suc.IH [OF _ rest] show ?case by simp
qed simp

lemma unat_slot: "i < gyh_qlibs_size \<Longrightarrow> unat (word_of_nat i :: u32) = i"
  by (simp add: unsigned_of_nat take_bit_nat_eq_self gyh_qlibs_size_def)

lemma ctor_then_dtor:
  assumes "wf_qtab st" "gyh_ctor D st p cb = Inr st1"
    and open_keeps: "\<And>m path. load32 (snd (dlopen D m path)) p = load32 m p"
    and closes: "\<And>m h. fst (dlclose D m h) = 0"
  shows "\<exists>st2. gyh_dtor D st1 p = Inr st2 \<and> load32 (qmem st2) p = load32 (qmem st) p"
proof -
  from assms(2) obtain i where ctor: "gyh_do_ctor D st p cb = Inr (i, st1)"
    by (auto simp: gyh_ctor_eq_Inr)
  obtain q where q: "i < gyh_qlibs_size" "gyh_qlibs st1 ! i = q" "handle q \<noteq> 0"
    "qlib_uid q = load32 (qmem st) p" "load32 (qmem st1) p = word_of_nat i"
    by (rule gyh_do_ctor_loads [OF assms(1) ctor]) (auto simp: open_keeps)
  have "unat (word_of_nat i :: u32) = i"
    by (rule unat_slot [OF q(1)])
  with q closes show ?thesis
    by (auto simp: gyh_dtor_def Let_def check_def case_prod_beta)
qed

lemma load_cycles_cbFunc:
  "wf_qtab st \<Longrightarrow> load_cycles D p cb n st = Inr st' \<Longrightarrow> 0 < n \<or> gyh_cbFunc st = cb \<Longrightarrow> gyh_cbFunc st' = cb"
proof (induction n arbitrary: st)
  case (Suc n)
  from Suc.prems obtain i st1 st2 where ctor: "gyh_do_ctor D st p cb = Inr (i, st1)"
    and dtor: "gyh_dtor D st1 p = Inr st2" and rest: "load_cycles D p cb n st2 = Inr st'"
    by (auto simp: result_simps gyh_ctor_eq_Inr)
  have "wf_qtab st1 \<and> gyh_cbFunc st1 = cb"
    by (rule gyh_do_ctor_loads [OF Suc.prems(1) ctor]) auto
  with gyh_dtor_loaded [OF dtor] gyh_dtor_keeps_table(2) [OF dtor] Suc.IH [OF _ rest] show ?case
    by simp
qed simp

text \<open>None of the handlers on the table fails an assertion.\<close>

lemma do_ctor_no_assert: "gyh_do_ctor D st p cb \<noteq> Inl (AbAssert x)"
  by (auto simp: ctor_simps split: if_splits)

lemma do_ctor_grt_no_assert: "gyh_do_ctor_grt D st p ex cs cb \<noteq> Inl (AbAssert x)"
  by (auto simp: gyh_do_ctor_grt_def dlsym_or_abort_def Let_def result_simps do_ctor_no_assert
      split: if_splits)

lemma fcp_cm_loop_no_assert: "fcp_cm_loop ps fp gt is s \<noteq> Inl (AbAssert x)"
  by (induction "is" arbitrary: s) (auto simp: result_simps fcp_cm_patch_def Let_def split: if_splits)

lemma do_ctor_fcp_cm_no_assert: "gyh_do_ctor_fcp_cm D ps st p ex cs gt n cb \<noteq> Inl (AbAssert x)"
  by (auto simp: gyh_do_ctor_fcp_cm_def dlsym_or_abort_def Let_def result_simps
      do_ctor_grt_no_assert fcp_cm_loop_no_assert split: if_splits)

lemma map_sum_id_Inl: "map_sum id f r = Inl e \<longleftrightarrow> r = Inl e"
  by (cases r) auto

lemma gyh_dtor_no_assert: "gyh_dtor D st p \<noteq> Inl (AbAssert x)"
  by (auto simp: gyh_dtor_def Let_def result_simps case_prod_beta)

lemma hfunc_no_assert: "hfunc_of_call st p f \<noteq> Inl (AbAssert x)"
  by (auto simp: hfunc_of_call_def Let_def result_simps)

lemmas ctor_no_assert = do_ctor_no_assert do_ctor_grt_no_assert do_ctor_fcp_cm_no_assert
  gyh_dtor_no_assert map_sum_id_Inl gyh_ctor_def gyh_ctor_grt_def gyh_ctor_fcp_cm_def

section \<open>Lemmas on the cross-module fast call path\<close>

definition gfunc_at :: "mem \<Rightarrow> u64 \<Rightarrow> nat \<Rightarrow> u64" where
  "gfunc_at m gfunctbl i = load64 m (gfunctbl + 8 * word_of_nat i)"

definition prefix_bytes :: "u64 \<Rightarrow> u64 set" where
  "prefix_bytes gf = bytes (gf - 16) 16"

text \<open>The sixteen bytes before each guest function overlap neither each other nor the two
  tables the loop reads.\<close>

definition fcp_layout :: "mem \<Rightarrow> u64 \<Rightarrow> u64 \<Rightarrow> nat set \<Rightarrow> bool" where
  "fcp_layout m functblPtr gfunctbl I \<longleftrightarrow> (\<forall>i\<in>I. \<forall>j\<in>I.
     prefix_bytes (gfunc_at m gfunctbl i) \<inter> bytes (gfunctbl + 8 * word_of_nat j) 8 = {} \<and>
     prefix_bytes (gfunc_at m gfunctbl i) \<inter> bytes (functblPtr + 8 * word_of_nat j) 8 = {} \<and>
     (i \<noteq> j \<longrightarrow> prefix_bytes (gfunc_at m gfunctbl i) \<inter> prefix_bytes (gfunc_at m gfunctbl j) = {}))"

definition fcp_patched :: "mem \<Rightarrow> u64 \<Rightarrow> u64 \<Rightarrow> bool" where
  "fcp_patched m gf f \<longleftrightarrow> load64 m (gf - 8) = f \<and> load64 m (gf - 16) = kFCPcmMagic XOR f"

lemma prefix_bytes_split: "prefix_bytes gf = bytes (gf - 16) 8 \<union> bytes (gf - 8) 8"
  using bytes_add [of "gf - 16" 8 8] by (simp add: prefix_bytes_def)

lemma prefix_halves_disjoint: "bytes (gf - 8) 8 \<inter> bytes (gf - 16) 8 = {}"
  using bytes_adjacent_disjoint [of 8 8 "gf - 16"] by auto

lemma load64_cong: "(\<And>b. b \<in> bytes a 8 \<Longrightarrow> m b = m' b) \<Longrightarrow> load64 m a = load64 m' a"
  unfolding load64_def by (rule arg_cong [where f = word_of_nat], rule load_le_cong)

lemma fcp_cm_patch_mem:
  assumes "fcp_cm_patch ps fp gt i s = Inr s'"
  defines "gf \<equiv> gfunc_at (fcp_mem s) gt i" and "f \<equiv> load64 (fcp_mem s) (fp + 8 * word_of_nat i)"
  shows "load64 (fcp_mem s) (gf - 16) = kFCPcmMagic" "fcp_patched (fcp_mem s') gf f"
    "\<And>b. b \<notin> prefix_bytes gf \<Longrightarrow> fcp_mem s' b = fcp_mem s b"
proof -
  have m: "fcp_mem s' = store64 (store64 (fcp_mem s) (gf - 8) f) (gf - 16) (kFCPcmMagic XOR f)"
    and "load64 (fcp_mem s) (gf - 16) = kFCPcmMagic"
    using assms(1) by (auto simp: fcp_cm_patch_def gfunc_at_def gf_def f_def Let_def split: if_splits)
  then show "load64 (fcp_mem s) (gf - 16) = kFCPcmMagic" by simp
  show "fcp_patched (fcp_mem s') gf f"
    using prefix_halves_disjoint [of gf] by (simp add: m fcp_patched_def load64_store64_disjoint)
  show "fcp_mem s' b = fcp_mem s b" if "b \<notin> prefix_bytes gf" for b
    using that by (simp add: m store64_def store_le_outside prefix_bytes_split)
qed

lemma fcp_layoutD:
  assumes "fcp_layout m fp gt I" "i \<in> I" "j \<in> I"
  shows "prefix_bytes (gfunc_at m gt i) \<inter> bytes (gt + 8 * word_of_nat j) 8 = {}"
    "prefix_bytes (gfunc_at m gt i) \<inter> bytes (fp + 8 * word_of_nat j) 8 = {}"
    "i \<noteq> j \<Longrightarrow> prefix_bytes (gfunc_at m gt i) \<inter> prefix_bytes (gfunc_at m gt j) = {}"
  using assms unfolding fcp_layout_def by blast+

text \<open>A write to the prefix of one function leaves the two tables and the other prefixes alone.\<close>

lemma fcp_layout_frame:
  assumes "fcp_layout m fp gt I" "i \<in> I" "j \<in> I"
    and same: "\<And>b. b \<notin> prefix_bytes (gfunc_at m gt i) \<Longrightarrow> m' b = m b"
  shows "gfunc_at m' gt j = gfunc_at m gt j"
    "load64 m' (fp + 8 * word_of_nat j) = load64 m (fp + 8 * word_of_nat j)"
    "i \<noteq> j \<Longrightarrow> load64 m' (gfunc_at m gt j - 8) = load64 m (gfunc_at m gt j - 8)"
    "i \<noteq> j \<Longrightarrow> load64 m' (gfunc_at m gt j - 16) = load64 m (gfunc_at m gt j - 16)"
proof -
  note disj = fcp_layoutD [OF assms(1-3)]
  have agree: "load64 m' a = load64 m a" if "prefix_bytes (gfunc_at m gt i) \<inter> bytes a 8 = {}" for a
    using that by (intro load64_cong same) blast
  show "gfunc_at m' gt j = gfunc_at m gt j"
    unfolding gfunc_at_def [of m'] gfunc_at_def [of m gt j] by (rule agree [OF disj(1)])
  show "load64 m' (fp + 8 * word_of_nat j) = load64 m (fp + 8 * word_of_nat j)"
    by (rule agree [OF disj(2)])
  show "load64 m' (gfunc_at m gt j - 8) = load64 m (gfunc_at m gt j - 8)" if "i \<noteq> j"
    using disj(3) [OF that] by (intro agree) (auto simp: prefix_bytes_split [of "gfunc_at m gt j"])
  show "load64 m' (gfunc_at m gt j - 16) = load64 m (gfunc_at m gt j - 16)" if "i \<noteq> j"
    using disj(3) [OF that] by (intro agree) (auto simp: prefix_bytes_split [of "gfunc_at m gt j"])
qed

lemma fcp_layout_next:
  assumes "fcp_layout m fp gt (insert i I)"
    and same: "\<And>b. b \<notin> prefix_bytes (gfunc_at m gt i) \<Longrightarrow> m' b = m b"
  shows "fcp_layout m' fp gt I"
  using assms(1) fcp_layout_frame(1) [OF assms(1) insertI1 insertI2 same]
  by (simp add: fcp_layout_def)


text \<open>The loop completes exactly when every prefix still holds the magic number.\<close>

lemma fcp_cm_loop_returns:
  assumes "distinct is" "fcp_layout (fcp_mem s) fp gt (set is)"
    "\<forall>i\<in>set is. load64 (fcp_mem s) (gfunc_at (fcp_mem s) gt i - 16) = kFCPcmMagic"
  shows "\<exists>s'. fcp_cm_loop ps fp gt is s = Inr s'"
  using assms
proof (induction "is" arbitrary: s)
  case (Cons i "is")
  let ?gf = "gfunc_at (fcp_mem s) gt"
  from Cons.prems(3) obtain s1 where s1: "fcp_cm_patch ps fp gt i s = Inr s1"
    by (auto simp: fcp_cm_patch_def Let_def gfunc_at_def)
  note patch = fcp_cm_patch_mem [OF s1]
  have lay: "fcp_layout (fcp_mem s) fp gt (insert i (set is))"
    using Cons.prems(2) by simp
  note frame = fcp_layout_frame [OF lay insertI1 insertI2 patch(3)]
  have gf: "gfunc_at (fcp_mem s1) gt j = ?gf j"
    and mg: "load64 (fcp_mem s1) (?gf j - 16) = kFCPcmMagic" if "j \<in> set is" for j
    using frame(1,4) [OF that] Cons.prems(1,3) that by auto
  have "fcp_layout (fcp_mem s1) fp gt (set is)"
    by (rule fcp_layout_next [OF lay patch(3)])
  then obtain s' where "fcp_cm_loop ps fp gt is s1 = Inr s'"
    using Cons.IH [of s1] Cons.prems(1) gf mg by auto
  with s1 show ?case by auto
qed simp

text \<open>Every write of the loop goes to a page range made writable before it.\<close>

definition pages_ok :: "fcp_state \<Rightarrow> bool" where
  "pages_ok s \<longleftrightarrow> pageEnd s = 0 \<or>
     pageBegin s \<le> pageEnd s \<and> (pageBegin s, pageEnd s - pageBegin s) \<in> set (mprotects s)"

definition covered :: "fcp_state \<Rightarrow> u64 \<Rightarrow> bool" where
  "covered s gf \<longleftrightarrow> (\<exists>(b, len) \<in> set (mprotects s). unat b + 16 \<le> unat gf \<and> unat gf < unat b + unat len)"

lemma covered_page:
  assumes "(b, e - b) \<in> set (mprotects s)" "b \<le> gf - 16" "gf < e" "16 \<le> gf"
  shows "covered s gf"
proof -
  have "unat (gf - 16) = unat gf - 16" "16 \<le> unat gf"
    using assms(4) by (simp_all add: unat_sub word_le_nat_alt)
  moreover from this assms have "unat b \<le> unat gf - 16" "unat gf < unat e" "b \<le> e"
    by (simp_all add: word_le_nat_alt word_less_nat_alt)
  ultimately show ?thesis
    using assms(1) unfolding covered_def
    by (intro bexI [of _ "(b, e - b)"]) (auto simp: unat_sub word_le_nat_alt)
qed

lemma new_page:
  assumes "16 \<le> gf" "unat gf + 2 ^ k < 2 ^ 64" "k < 64"
  defines "b \<equiv> (gf - 16 :: u64) AND NOT (2 ^ k - 1)" and "e \<equiv> (gf + 2 ^ k) AND NOT (2 ^ k - 1)"
  shows "b \<le> gf - 16" "gf < e" "b \<le> e"
proof -
  have m: "2 ^ k - 1 = (mask k :: u64)" by (simp add: mask_eq_exp_minus_1)
  have "unat (word_of_nat (2 ^ k) :: u64) = 2 ^ k"
    using assms(3) by (simp only: unsigned_of_nat) (simp add: take_bit_nat_eq_self)
  then have "unat (2 ^ k :: u64) = 2 ^ k" by simp
  then have g: "unat (gf + 2 ^ k) = unat gf + 2 ^ k"
    using assms(2) by (simp add: unat_word_ariths(1))
  have sub: "unat (gf - 16) = unat gf - 16"
    using assms(1) by (simp add: unat_sub)
  show "b \<le> gf - 16" "gf < e"
    using align_down_bounds [of "gf - 16" k] align_down_bounds [of "gf + 2 ^ k" k] g
    by (simp_all add: b_def e_def m word_le_nat_alt word_less_nat_alt)
  then show "b \<le> e"
    using sub by (simp add: word_le_nat_alt word_less_nat_alt)
qed

lemma fcp_cm_patch_covers:
  assumes "fcp_cm_patch (2 ^ k) fp gt i s = Inr s'" "k < 64" "pages_ok s"
    and gf: "16 \<le> gfunc_at (fcp_mem s) gt i" "unat (gfunc_at (fcp_mem s) gt i) + 2 ^ k < 2 ^ 64"
  shows "pages_ok s' \<and> covered s' (gfunc_at (fcp_mem s) gt i) \<and> set (mprotects s) \<subseteq> set (mprotects s')"
proof -
  let ?gf = "gfunc_at (fcp_mem s) gt i"
  let ?b = "(?gf - 16) AND NOT (2 ^ k - 1)" and ?e = "(?gf + 2 ^ k) AND NOT (2 ^ k - 1)"
  note np = new_page [OF gf assms(2)]
  show ?thesis
  proof (cases "?gf - 16 < pageBegin s \<or> ?gf \<ge> pageEnd s")
    case True
    then have "mprotects s' = (?b, ?e - ?b) # mprotects s" "pageBegin s' = ?b" "pageEnd s' = ?e"
      using assms(1) by (auto simp: fcp_cm_patch_def gfunc_at_def Let_def split: if_splits)
    with np covered_page [of ?b ?e s' ?gf] gf(1) show ?thesis
      by (auto simp: pages_ok_def)
  next
    case False
    then have "mprotects s' = mprotects s" "pageBegin s' = pageBegin s" "pageEnd s' = pageEnd s"
      using assms(1) by (auto simp: fcp_cm_patch_def gfunc_at_def Let_def split: if_splits)
    with False assms(3) covered_page [of "pageBegin s" "pageEnd s" s' ?gf] gf(1) show ?thesis
      by (auto simp: pages_ok_def)
  qed
qed

lemma fcp_cm_loop_covers:
  assumes "fcp_cm_loop (2 ^ k) fp gt is s = Inr s'" "k < 64" "pages_ok s"
    and "distinct is" "fcp_layout (fcp_mem s) fp gt (set is)"
    and "\<forall>i\<in>set is. 16 \<le> gfunc_at (fcp_mem s) gt i \<and> unat (gfunc_at (fcp_mem s) gt i) + 2 ^ k < 2 ^ 64"
  shows "set (mprotects s) \<subseteq> set (mprotects s') \<and> (\<forall>i\<in>set is. covered s' (gfunc_at (fcp_mem s) gt i))"
  using assms
proof (induction "is" arbitrary: s)
  case (Cons i "is")
  let ?gf = "gfunc_at (fcp_mem s) gt"
  from Cons.prems(1) obtain s1 where s1: "fcp_cm_patch (2 ^ k) fp gt i s = Inr s1"
    and loop: "fcp_cm_loop (2 ^ k) fp gt is s1 = Inr s'"
    by (auto simp: result_simps)
  note patch = fcp_cm_patch_mem [OF s1]
  have cov: "pages_ok s1 \<and> covered s1 (?gf i) \<and> set (mprotects s) \<subseteq> set (mprotects s1)"
    using Cons.prems(2,3,6) by (intro fcp_cm_patch_covers [OF s1]) auto
  have lay: "fcp_layout (fcp_mem s) fp gt (insert i (set is))"
    using Cons.prems(5) by simp
  have gf: "gfunc_at (fcp_mem s1) gt j = ?gf j" if "j \<in> set is" for j
    using fcp_layout_frame(1) [OF lay insertI1 insertI2 [OF that] patch(3)] .
  have "set (mprotects s1) \<subseteq> set (mprotects s') \<and> (\<forall>j\<in>set is. covered s' (gfunc_at (fcp_mem s1) gt j))"
    using Cons.prems cov gf fcp_layout_next [OF lay patch(3)] by (intro Cons.IH [OF loop]) auto
  with cov gf show ?case
    by (auto simp: covered_def)
qed simp

section \<open>Properties of the library table\<close>

text \<open>A loader for concrete runs: every path opens with handle 1, every symbol is at address 256,
  and neither loading nor unloading changes memory.\<close>

definition sample_dl :: dl where
  "sample_dl = \<lparr>dlopen = \<lambda>m path. (1, m), dlsym = \<lambda>h name. 256, dlclose = \<lambda>m h. (0, m)\<rparr>"

definition sample_mem :: mem where
  "sample_mem = store32 (\<lambda>_. 0) 64 7"

lemma sample_ctor: "\<exists>st'. gyh_ctor sample_dl (init_qtab sample_mem) 64 32 = Inr st'"
proof -
  have [simp]: "free_slot (gyh_qlibs (init_qtab sample_mem)) 0 = 0"
    by (simp add: free_slot_loaded)
  have "gyhcall_config_dir (init_qtab m) = []" "gyh_cbFunc (init_qtab m) = 0" for m
    by (simp_all add: init_qtab_def)
  then show ?thesis
    by (simp add: gyh_ctor_def gyh_do_ctor_def sample_dl_def Let_def dlsym_or_abort_def
        gyh_qlibs_size_def qlib_path_def check_def)
qed

lemma sample_dtor:
  assumes "gyh_ctor sample_dl (init_qtab sample_mem) 64 32 = Inr st1"
  shows "\<exists>st2. gyh_dtor sample_dl st1 64 = Inr st2"
  using ctor_then_dtor [OF wf_init_qtab assms] by (auto simp: sample_dl_def)

text \<open>C8. Loading a library is refined by appending to the list of loaded libraries: a successful
  \<open>gyh_ctor\<close> keeps the table's invariant, appends one library whose function table and size
  are the loader's symbols for its uid, and leaves the library's index in \<open>*qlibUid\<close>.\<close>

theorem gyh_ctor_appends:
  assumes "wf_qtab st" "gyh_ctor D st p cb = Inr st'"
  defines "m \<equiv> snd (dlopen D (qmem st) (qlib_path (gyhcall_config_dir st) (load32 (qmem st) p)))"
  shows "\<exists>q. wf_qtab st' \<and> loaded st' = loaded st @ [q] \<and>
    load32 (qmem st') p = word_of_nat (length (loaded st)) \<and> gyh_cbFunc st' = cb \<and>
    handle q \<noteq> 0 \<and> qlib_uid q = load32 m p \<and>
    hfunctbl q = dlsym D (handle q) (''__gyh_hfunctbl_'' @ hex8 (qlib_uid q)) \<and>
    hfunctblSize q = load32 m (dlsym D (handle q) (''__gyh_hfunctbl_size_'' @ hex8 (qlib_uid q)))"
proof -
  from assms(2) obtain i where ctor: "gyh_do_ctor D st p cb = Inr (i, st')"
    by (auto simp: gyh_ctor_eq_Inr)
  show ?thesis
    by (rule gyh_do_ctor_loads [OF assms(1) ctor]) (auto simp: m_def)
qed

theorem gyh_ctor_appends_witness:
  "\<exists>st' q. gyh_ctor sample_dl (init_qtab sample_mem) 64 32 = Inr st' \<and> loaded st' = [q] \<and>
     qlib_uid q = 7 \<and> hfunctbl q = 256"
proof -
  obtain st' where c: "gyh_ctor sample_dl (init_qtab sample_mem) 64 32 = Inr st'"
    using sample_ctor by blast
  have "qlib_uid q = load32 (qmem (init_qtab sample_mem)) 64 \<Longrightarrow> qlib_uid q = 7" for q
    by (simp add: init_qtab_def sample_mem_def)
  with c gyh_ctor_appends [OF wf_init_qtab c] show ?thesis
    by (auto simp: sample_dl_def)
qed



text \<open>C13. Unloading never frees a slot of the table: a library can be loaded and unloaded only as
  often as there were unused slots, after which \<open>gyh_ctor\<close> aborts.\<close>

theorem load_cycles_limit:
  assumes "wf_qtab st" "load_cycles D p cb n st = Inr st'"
  shows "length (loaded st) + n \<le> gyh_qlibs_size \<and>
    (length (loaded st) + n = gyh_qlibs_size \<longrightarrow> 0 < n \<longrightarrow>
       gyh_ctor D st' p cb = Inl (AbNoIndex (load32 (qmem st') p)))"
proof -
  have count: "wf_qtab st'" "length (loaded st') = length (loaded st) + n"
    using load_cycles_count [OF assms] by auto
  have cb: "0 < n \<Longrightarrow> gyh_cbFunc st' = cb"
    using load_cycles_cbFunc [OF assms] by simp
  show ?thesis
    using loaded_length_le [OF count(1)] count(2) cb gyh_do_ctor_full [of st' cb D p]
    by (auto simp: gyh_ctor_def)
qed

theorem load_cycles_limit_witness:
  "\<exists>st'. load_cycles sample_dl 64 32 1 (init_qtab sample_mem) = Inr st' \<and> 1 \<le> gyh_qlibs_size"
proof -
  obtain st1 where c: "gyh_ctor sample_dl (init_qtab sample_mem) 64 32 = Inr st1"
    using sample_ctor by blast
  then obtain st2 where "gyh_dtor sample_dl st1 64 = Inr st2"
    using sample_dtor by blast
  with c have l: "load_cycles sample_dl 64 32 1 (init_qtab sample_mem) = Inr st2"
    by simp
  with load_cycles_limit [OF wf_init_qtab l] show ?thesis by simp
qed

text \<open>C14. A call right after loading: the function index is looked up in the table the loader
  gave, and an index greater than the table's size aborts.  The index equal to the size is let
  through, one entry past the table's end.\<close>

theorem call_after_ctor:
  assumes "wf_qtab st" "gyh_ctor D st p cb = Inr st'"
  shows "\<exists>q. loaded st' = loaded st @ [q] \<and>
    hfunc_of_call st' p f =
      (if f \<le> hfunctblSize q then Inr (load64 (qmem st') (hfunctbl q + 8 * ucast f))
       else Inl (AbFuncRange f (hfunctblSize q) (qlib_uid q)))"
proof -
  from assms(2) obtain i where ctor: "gyh_do_ctor D st p cb = Inr (i, st')"
    by (auto simp: gyh_ctor_eq_Inr)
  obtain q where q: "i < gyh_qlibs_size" "gyh_qlibs st' ! i = q" "loaded st' = loaded st @ [q]"
    "load32 (qmem st') p = word_of_nat i"
    by (rule gyh_do_ctor_loads [OF assms(1) ctor]) auto
  then show ?thesis
    by (intro exI [of _ q]) (auto simp: hfunc_of_call_def Let_def unat_slot check_def)
qed

theorem call_after_ctor_witness:
  "\<exists>st' q. gyh_ctor sample_dl (init_qtab sample_mem) 64 32 = Inr st' \<and> loaded st' = [q] \<and>
     hfunc_of_call st' 64 (hfunctblSize q) = Inr (load64 (qmem st') (hfunctbl q + 8 * ucast (hfunctblSize q)))"
proof -
  obtain st' where c: "gyh_ctor sample_dl (init_qtab sample_mem) 64 32 = Inr st'"
    using sample_ctor by blast
  then obtain q where "loaded st' = loaded (init_qtab sample_mem) @ [q]"
    using gyh_do_ctor_loads [OF wf_init_qtab] by (metis gyh_ctor_eq_Inr)
  with c call_after_ctor [OF wf_init_qtab c, of "hfunctblSize q"] show ?thesis
    by auto
qed

text \<open>A memory for concrete runs of the patching loop: two guest functions at 8208 and 8272, their
  addresses in the table at 4096, and the table of host functions at 6144.\<close>

definition sample_fcp_mem :: mem where
  "sample_fcp_mem =
     store64 (store64 (store64 (store64 (store64 (store64 (\<lambda>_. 0)
       4096 8208) 4104 8272) 6144 0x7000) 6152 0x7100) 8192 kFCPcmMagic) 8256 kFCPcmMagic"

lemma sample_fcp_loads:
  "load64 sample_fcp_mem 4096 = 8208" "load64 sample_fcp_mem 4104 = 8272"
  "load64 sample_fcp_mem 6144 = 0x7000" "load64 sample_fcp_mem 6152 = 0x7100"
  "load64 sample_fcp_mem 8192 = kFCPcmMagic" "load64 sample_fcp_mem 8256 = kFCPcmMagic"
  by (simp_all add: sample_fcp_mem_def load64_store64_disjoint bytes_disjointI)

lemma less_two: "i < 2 \<longleftrightarrow> i = 0 \<or> i = (1 :: nat)"
  by auto

lemma sample_fcp_layout: "fcp_layout sample_fcp_mem 6144 4096 {..<2}"
proof -
  have "{..<2} = {0, 1 :: nat}" by auto
  then show ?thesis
    by (simp add: fcp_layout_def gfunc_at_def sample_fcp_loads prefix_bytes_def bytes_disjointI)
qed

lemma sample_fcp_magic:
  "\<forall>i<2. load64 sample_fcp_mem (gfunc_at sample_fcp_mem 4096 i - 16) = kFCPcmMagic"
  by (auto simp: less_two gfunc_at_def sample_fcp_loads)



text \<open>C11. Every prefix the loop writes lies in a range that an \<open>mprotect\<close> call made writable, for
  any power of two as the page size.\<close>

theorem fcp_cm_loop_writable:
  assumes "fcp_cm_loop (2 ^ k) fp gt [0..<n] \<lparr>fcp_mem = m, pageBegin = 0, pageEnd = 0, mprotects = []\<rparr> = Inr s'"
    and "k < 64" "fcp_layout m fp gt {..<n}"
    and "\<forall>i<n. 16 \<le> gfunc_at m gt i \<and> unat (gfunc_at m gt i) + 2 ^ k < 2 ^ 64"
  shows "\<forall>i<n. \<exists>(b, len) \<in> set (mprotects s').
    unat b + 16 \<le> unat (gfunc_at m gt i) \<and> unat (gfunc_at m gt i) < unat b + unat len"
  using fcp_cm_loop_covers [OF assms(1,2)] assms(3,4)
  by (simp add: pages_ok_def covered_def atLeast0LessThan)

theorem fcp_cm_loop_writable_witness:
  "\<exists>s'. fcp_cm_loop (2 ^ 12) 6144 4096 [0..<2]
     \<lparr>fcp_mem = sample_fcp_mem, pageBegin = 0, pageEnd = 0, mprotects = []\<rparr> = Inr s' \<and>
     (\<exists>(b, len) \<in> set (mprotects s'). unat b + 16 \<le> 8272 \<and> 8272 < unat b + unat len)"
proof -
  let ?s = "\<lparr>fcp_mem = sample_fcp_mem, pageBegin = 0, pageEnd = 0, mprotects = []\<rparr>"
  obtain s' where s': "fcp_cm_loop (2 ^ 12) 6144 4096 [0..<2] ?s = Inr s'"
    using fcp_cm_loop_returns [of "[0..<2]" ?s 6144 4096] sample_fcp_layout sample_fcp_magic
    by (fastforce simp: atLeast0LessThan)
  have "\<forall>i<2. 16 \<le> gfunc_at sample_fcp_mem 4096 i \<and> unat (gfunc_at sample_fcp_mem 4096 i) + 2 ^ 12 < 2 ^ 64"
    by (auto simp: less_two gfunc_at_def sample_fcp_loads)
  from fcp_cm_loop_writable [OF s' _ sample_fcp_layout this, rule_format, of 1] s' show ?thesis
    by (auto simp: gfunc_at_def sample_fcp_loads)
qed

end
