(* ===== verification/Gyh_Machine.thy ===== *)
theory Gyh_Machine
  imports Gyh_Qlib
begin

text \<open>
  The emulation loop of \<open>qemu/linux-user/+gyh/gyh.c\<close> and its switching between guest
  emulation and host code.  Guest emulation (\<open>gyh_do_cpu\<close>), host functions and the
  architecture's register conventions are arguments: the three architecture theories
  provide the last, and the locale \<open>gyh_arch\<close> states what they promise.

  Host code runs in segments: a segment starts when a host function is called or resumed
  and ends when the function returns or calls \<open>__gyh_callback__\<close>.  A context saved by
  \<open>swapcontext\<close> or built by \<open>makecontext\<close> is a value of \<open>ucontext\<close> in a store of
  contexts by address.
\<close>

section \<open>Host code\<close>

text \<open>How a host segment ends.  \<open>HCallback cbStub func retPad argPad sp h\<close> is a call of
  \<open>__gyh_callback__\<close>: \<open>sp\<close> is the address \<open>alloca\<close> returns in it and \<open>h\<close> the rest of the
  host function.\<close>

datatype 'h hout =
    HReturn
  | HCallback u64 u64 u64 u64 u64 'h

record 'h host =
  hcall :: "u64 \<Rightarrow> u64 list \<Rightarrow> 'h"
  hrun :: "'h \<Rightarrow> mem \<Rightarrow> mem \<times> 'h hout"

section \<open>State\<close>

datatype 'h ucontext =
    CtxCall u64 u64 u32 u64 u64 u64 u64
  | CtxCallGrt u64 u64 u32 u64 u64
  | CtxHost u64 'h

record ('env, 'h) gyh =
  qt :: qtab
  env :: 'env
  ctxs :: "u64 \<rightharpoonup> 'h ucontext"
  gyh_cpu_loop_ctx_to :: u64
  call_ctx :: u64
  call_grt_ctx :: u64
  emu_nsecs :: int
  syscalls :: int
  calls :: int
  callbacks :: int
  callback_returns :: int
  breakdown_env :: "string option"
  breakdown_file :: "(string \<times> string) option"

record gyh_DoSyscall =
  num :: u32
  arg1 :: u64
  arg2 :: u64
  arg3 :: u64
  arg4 :: u64
  arg5 :: u64
  arg6 :: u64
  arg7 :: u64
  arg8 :: u64

text \<open>The services of the emulator core and of the emulated kernel that \<open>gyh_do_cpu\<close> calls, on
  the processor state and memory: \<open>cpu_exec\<close> (with the start, end and queued-work calls
  around it) returns the trap number.\<close>

record 'env qemu =
  cpu_exec :: "'env \<times> mem \<Rightarrow> int \<times> 'env \<times> mem"
  do_syscall :: "u64 list \<Rightarrow> 'env \<times> mem \<Rightarrow> u64 \<times> 'env \<times> mem"
  force_sig :: "int \<Rightarrow> 'env \<times> mem \<Rightarrow> 'env \<times> mem"
  force_sig_fault :: "int \<Rightarrow> int \<Rightarrow> u64 \<Rightarrow> 'env \<times> mem \<Rightarrow> 'env \<times> mem"
  do_common_semihosting :: "'env \<times> mem \<Rightarrow> 'env \<times> mem"
  cpu_exec_step_atomic :: "'env \<times> mem \<Rightarrow> 'env \<times> mem"
  process_pending_signals :: "'env \<times> mem \<Rightarrow> 'env \<times> mem"

text \<open>What an architecture provides: the emulation step, the frame address \<open>__gyh_callback__\<close> derives from the
  \<open>alloca\<close> result, the halves of \<open>__gyh_callback__\<close> before and after its \<open>swapcontext\<close>, and
  the three system call handlers.\<close>

record ('env, 'h) arch =
  a_do_cpu :: "gyh_DoSyscall \<Rightarrow> ('env, 'h) gyh \<Rightarrow> (gyh_abort, ('env, 'h) gyh \<times> gyh_DoSyscall) result"
  a_frame :: "u64 \<Rightarrow> u64"
  a_callback :: "u64 \<Rightarrow> u64 \<Rightarrow> u64 \<Rightarrow> u64 \<Rightarrow> u64 \<Rightarrow> 'h \<Rightarrow> ('env, 'h) gyh
                 \<Rightarrow> (gyh_abort, ('env, 'h) gyh) result"
  a_resume :: "u64 \<Rightarrow> ('env, 'h) gyh \<Rightarrow> ('env, 'h) gyh"
  a_call :: "('env, 'h) gyh \<Rightarrow> (gyh_abort, ('env, 'h) gyh) result"
  a_callback_return :: "('env, 'h) gyh \<Rightarrow> (gyh_abort, ('env, 'h) gyh) result"
  a_call_grt :: "('env, 'h) gyh \<Rightarrow> (gyh_abort, ('env, 'h) gyh) result"

abbreviation set_mem :: "mem \<Rightarrow> ('env, 'h) gyh \<Rightarrow> ('env, 'h) gyh" where
  "set_mem m s \<equiv> s\<lparr>qt := (qt s)\<lparr>qmem := m\<rparr>\<rparr>"

abbreviation gmem :: "('env, 'h) gyh \<Rightarrow> mem" where
  "gmem s \<equiv> qmem (qt s)"

section \<open>Running host code\<close>

definition run_host ::
  "('env, 'h) arch \<Rightarrow> 'h host \<Rightarrow> 'h \<Rightarrow> ('env, 'h) gyh \<Rightarrow> (gyh_abort, ('env, 'h) gyh) result" where
  "run_host A H h s =
     (case hrun H h (gmem s) of
        (m, HReturn) \<Rightarrow> Inr (set_mem m s)
      | (m, HCallback cbStub func retPad argPad sp h') \<Rightarrow>
          a_callback A sp cbStub func retPad argPad h' (set_mem m s))"

definition gyh_do_call ::
  "('env, 'h) arch \<Rightarrow> 'h host \<Rightarrow> u64 \<Rightarrow> u32 \<Rightarrow> u64 \<Rightarrow> u64 \<Rightarrow> u64 \<Rightarrow> u64 \<Rightarrow> ('env, 'h) gyh
   \<Rightarrow> (gyh_abort, ('env, 'h) gyh) result" where
  "gyh_do_call A H qlibUid funcUid retPad argPad extRefs cbStubs s =
     (let s = s\<lparr>gyh_cpu_loop_ctx_to := 0\<rparr>
      in bind_result (hfunc_of_call (qt s) qlibUid funcUid) (\<lambda>func.
         run_host A H (hcall H func [retPad, argPad, extRefs, cbStubs]) s))"

definition gyh_do_call_grt ::
  "('env, 'h) arch \<Rightarrow> 'h host \<Rightarrow> u64 \<Rightarrow> u32 \<Rightarrow> u64 \<Rightarrow> u64 \<Rightarrow> ('env, 'h) gyh
   \<Rightarrow> (gyh_abort, ('env, 'h) gyh) result" where
  "gyh_do_call_grt A H qlibUid funcUid retPad argPad s =
     (let s = s\<lparr>gyh_cpu_loop_ctx_to := 0\<rparr>
      in bind_result (hfunc_of_call (qt s) qlibUid funcUid) (\<lambda>func.
         run_host A H (hcall H func [retPad, argPad]) s))"

text \<open>\<open>swapcontext(&gyh_cpu_loop_ctx, gyh_cpu_loop_ctx_to)\<close>: the pending context runs until
  it switches back to the loop.\<close>

definition switch_ctx ::
  "('env, 'h) arch \<Rightarrow> 'h host \<Rightarrow> ('env, 'h) gyh \<Rightarrow> (gyh_abort, ('env, 'h) gyh) result" where
  "switch_ctx A H s =
     (case ctxs s (gyh_cpu_loop_ctx_to s) of
        None \<Rightarrow> Inl (AbWildContext (gyh_cpu_loop_ctx_to s))
      | Some (CtxCall ss q f r a x c) \<Rightarrow> gyh_do_call A H q f r a x c s
      | Some (CtxCallGrt ss q f r a) \<Rightarrow> gyh_do_call_grt A H q f r a s
      | Some (CtxHost sp h) \<Rightarrow> run_host A H h (a_resume A sp s))"

section \<open>The loop\<close>

text \<open>System call numbers of \<open>gyh.h\<close>.\<close>

definition GYH_NR_start :: nat where "GYH_NR_start = 50000"
definition GYH_NR_gyh_ctor :: u32 where "GYH_NR_gyh_ctor = 50046"
definition GYH_NR_gyh_dtor :: u32 where "GYH_NR_gyh_dtor = 50096"
definition GYH_NR_gyh_call :: u32 where "GYH_NR_gyh_call = 50406"
definition GYH_NR_gyh_callback_return :: u32 where "GYH_NR_gyh_callback_return = 50906"
definition GYH_NR_gyh_ctor_grt :: u32 where "GYH_NR_gyh_ctor_grt = 51046"
definition GYH_NR_gyh_call_grt :: u32 where "GYH_NR_gyh_call_grt = 51406"
definition GYH_NR_gyh_ctor_fcp_cm :: u32 where "GYH_NR_gyh_ctor_fcp_cm = 52046"

lemmas gyh_nr_defs = GYH_NR_gyh_ctor_def GYH_NR_gyh_dtor_def GYH_NR_gyh_call_def
  GYH_NR_gyh_callback_return_def GYH_NR_gyh_ctor_grt_def GYH_NR_gyh_call_grt_def
  GYH_NR_gyh_ctor_fcp_cm_def

abbreviation on_qt ::
  "(gyh_abort, qtab) result \<Rightarrow> ('env, 'h) gyh \<Rightarrow> (gyh_abort, ('env, 'h) gyh) result" where
  "on_qt r s \<equiv> bind_result r (\<lambda>q. Inr (s\<lparr>qt := q\<rparr>))"

text \<open>The \<open>switch (gyh_syscall.num)\<close> of the loop, with the final \<open>++gyh_breakdown_syscalls\<close>.\<close>

definition gyh_dispatch ::
  "('env, 'h) arch \<Rightarrow> dl \<Rightarrow> u64 \<Rightarrow> gyh_DoSyscall \<Rightarrow> ('env, 'h) gyh
   \<Rightarrow> (gyh_abort, ('env, 'h) gyh) result" where
  "gyh_dispatch A D pageSize sys s =
     (if num sys = 0 then Inr s
      else bind_result
       (if num sys = GYH_NR_gyh_ctor then on_qt (gyh_ctor D (qt s) (arg1 sys) (arg2 sys)) s
        else if num sys = GYH_NR_gyh_dtor then on_qt (gyh_dtor D (qt s) (arg1 sys)) s
        else if num sys = GYH_NR_gyh_call then a_call A (s\<lparr>calls := calls s + 1\<rparr>)
        else if num sys = GYH_NR_gyh_callback_return then
          a_callback_return A (s\<lparr>callback_returns := callback_returns s + 1\<rparr>)
        else if num sys = GYH_NR_gyh_ctor_grt then
          on_qt (gyh_ctor_grt D (qt s) (arg1 sys) (arg2 sys) (arg3 sys) (arg4 sys)) s
        else if num sys = GYH_NR_gyh_call_grt then a_call_grt A (s\<lparr>calls := calls s + 1\<rparr>)
        else if num sys = GYH_NR_gyh_ctor_fcp_cm then
          on_qt (gyh_ctor_fcp_cm D pageSize (qt s) (arg1 sys) (arg2 sys) (arg3 sys) (arg4 sys)
                   (ucast (arg5 sys)) (arg6 sys)) s
        else Inl (AbSyscall (ucast (num sys))))
       (\<lambda>s. Inr (s\<lparr>syscalls := syscalls s + 1\<rparr>)))"

text \<open>One iteration: the switch to a pending context, then emulation and the system call it
  ended with.  \<open>stale\<close> is what the uninitialised local \<open>gyh_syscall\<close> holds before \<open>gyh_do_cpu\<close>
  is called, \<open>dt\<close> the measured duration of that call.\<close>

definition switch_phase ::
  "('env, 'h) arch \<Rightarrow> 'h host \<Rightarrow> ('env, 'h) gyh \<Rightarrow> (gyh_abort, ('env, 'h) gyh) result" where
  "switch_phase A H s = (if gyh_cpu_loop_ctx_to s \<noteq> 0 then switch_ctx A H s else Inr s)"

definition emulate_phase ::
  "('env, 'h) arch \<Rightarrow> dl \<Rightarrow> u64 \<Rightarrow> gyh_DoSyscall \<times> int \<Rightarrow> ('env, 'h) gyh
   \<Rightarrow> (gyh_abort, ('env, 'h) gyh) result" where
  "emulate_phase A D pageSize i s =
     bind_result (a_do_cpu A (fst i) s) (\<lambda>(s, sys).
     gyh_dispatch A D pageSize sys (s\<lparr>emu_nsecs := emu_nsecs s + snd i\<rparr>))"

definition gyh_cpu_loop_body ::
  "('env, 'h) arch \<Rightarrow> 'h host \<Rightarrow> dl \<Rightarrow> u64 \<Rightarrow> gyh_DoSyscall \<times> int \<Rightarrow> ('env, 'h) gyh
   \<Rightarrow> (gyh_abort, ('env, 'h) gyh) result" where
  "gyh_cpu_loop_body A H D pageSize i s =
     bind_result (switch_phase A H s) (emulate_phase A D pageSize i)"

text \<open>The iterations the loop makes, one per element: the loop itself never returns.\<close>

fun gyh_cpu_loop ::
  "('env, 'h) arch \<Rightarrow> 'h host \<Rightarrow> dl \<Rightarrow> u64 \<Rightarrow> (gyh_DoSyscall \<times> int) list \<Rightarrow> ('env, 'h) gyh
   \<Rightarrow> (gyh_abort, ('env, 'h) gyh) result" where
  "gyh_cpu_loop A H D pageSize [] s = Inr s"
| "gyh_cpu_loop A H D pageSize (i # is) s =
     bind_result (gyh_cpu_loop_body A H D pageSize i s) (gyh_cpu_loop A H D pageSize is)"

section \<open>Counters at exit\<close>

text \<open>\<open>%lld\<close>.\<close>

fun dec_digits :: "nat \<Rightarrow> string" where
  "dec_digits n = (if n < 10 then [char_of (48 + n)] else dec_digits (n div 10) @ [char_of (48 + n mod 10)])"

declare dec_digits.simps [simp del]

definition dec_int :: "int \<Rightarrow> string" where
  "dec_int i = (if i < 0 then ''-'' @ dec_digits (nat (- i)) else dec_digits (nat i))"

definition newline :: string where
  "newline = [char_of (10 :: nat)]"

definition breakdown_text :: "('env, 'h) gyh \<Rightarrow> string" where
  "breakdown_text s =
     ''emu_nsecs '' @ dec_int (emu_nsecs s) @ newline @
     ''syscalls '' @ dec_int (syscalls s) @ newline @
     ''calls '' @ dec_int (calls s) @ newline @
     ''callbacks '' @ dec_int (callbacks s) @ newline @
     ''callback_returns '' @ dec_int (callback_returns s) @ newline"

definition gyh_atexit :: "('env, 'h) gyh \<Rightarrow> ('env, 'h) gyh" where
  "gyh_atexit s =
     (case breakdown_env s of
        None \<Rightarrow> s
      | Some file \<Rightarrow> s\<lparr>breakdown_file := Some (file, breakdown_text s)\<rparr>)"

section \<open>What every architecture shares\<close>

text \<open>A service of the emulator core changes the processor state and memory only.\<close>

definition on_cpu :: "('env \<times> mem \<Rightarrow> 'env \<times> mem) \<Rightarrow> ('env, 'h) gyh \<Rightarrow> ('env, 'h) gyh" where
  "on_cpu f s = (let (e, m) = f (env s, gmem s) in set_mem m (s\<lparr>env := e\<rparr>))"

definition upd_env :: "('env \<Rightarrow> 'env) \<Rightarrow> ('env, 'h) gyh \<Rightarrow> ('env, 'h) gyh" where
  "upd_env f s = s\<lparr>env := f (env s)\<rparr>"

definition cpu_run :: "('env, 'z) qemu_scheme \<Rightarrow> ('env, 'h) gyh \<Rightarrow> int \<times> ('env, 'h) gyh" where
  "cpu_run Q s = (let (trapnr, e, m) = cpu_exec Q (env s, gmem s) in (trapnr, set_mem m (s\<lparr>env := e\<rparr>)))"

definition kernel_call ::
  "('env, 'z) qemu_scheme \<Rightarrow> u64 list \<Rightarrow> ('env, 'h) gyh \<Rightarrow> u64 \<times> ('env, 'h) gyh" where
  "kernel_call Q args s =
     (let (ret, e, m) = do_syscall Q args (env s, gmem s) in (ret, set_mem m (s\<lparr>env := e\<rparr>)))"

text \<open>Trap, signal and error numbers of the emulator core that the three architectures use.\<close>

definition EXCP_INTERRUPT :: int where "EXCP_INTERRUPT = 0x10000"
definition EXCP_DEBUG :: int where "EXCP_DEBUG = 0x10002"
definition EXCP_YIELD :: int where "EXCP_YIELD = 0x10004"
definition EXCP_ATOMIC :: int where "EXCP_ATOMIC = 0x10005"
definition QEMU_ERESTARTSYS :: u64 where "QEMU_ERESTARTSYS = 512"
definition QEMU_ESIGRETURN :: u64 where "QEMU_ESIGRETURN = 513"
definition TARGET_SIGILL :: int where "TARGET_SIGILL = 4"
definition TARGET_SIGTRAP :: int where "TARGET_SIGTRAP = 5"
definition TARGET_SIGBUS :: int where "TARGET_SIGBUS = 7"
definition TARGET_SIGFPE :: int where "TARGET_SIGFPE = 8"
definition TARGET_SIGSEGV :: int where "TARGET_SIGSEGV = 11"
definition TARGET_SEGV_MAPERR :: int where "TARGET_SEGV_MAPERR = 1"
definition TARGET_SEGV_ACCERR :: int where "TARGET_SEGV_ACCERR = 2"
definition TARGET_BUS_ADRALN :: int where "TARGET_BUS_ADRALN = 1"
definition TARGET_ILL_ILLOPN :: int where "TARGET_ILL_ILLOPN = 2"
definition TARGET_TRAP_BRKPT :: int where "TARGET_TRAP_BRKPT = 1"

lemmas excp_defs = EXCP_INTERRUPT_def EXCP_DEBUG_def EXCP_YIELD_def EXCP_ATOMIC_def

definition ctx_to_null :: string where
  "ctx_to_null = ''gyh_cpu_loop_ctx_to == NULL''"

text \<open>Everything emulation must not touch: the contexts, the pending switch, the library table
  and the counters.\<close>

definition cpu_frame :: "('env, 'h) gyh \<Rightarrow> ('env, 'h) gyh \<Rightarrow> bool" where
  "cpu_frame s s' \<longleftrightarrow> ctxs s' = ctxs s \<and> gyh_cpu_loop_ctx_to s' = gyh_cpu_loop_ctx_to s \<and>
     call_ctx s' = call_ctx s \<and> call_grt_ctx s' = call_grt_ctx s \<and>
     gyh_qlibs (qt s') = gyh_qlibs (qt s) \<and> gyh_cbFunc (qt s') = gyh_cbFunc (qt s) \<and>
     gyhcall_config_dir (qt s') = gyhcall_config_dir (qt s) \<and>
     syscalls s' = syscalls s \<and> calls s' = calls s \<and> callbacks s' = callbacks s \<and>
     callback_returns s' = callback_returns s \<and> emu_nsecs s' = emu_nsecs s"

lemma cpu_frame_refl [simp]: "cpu_frame s s"
  by (simp add: cpu_frame_def)

lemma cpu_frame_trans [trans]: "cpu_frame s s' \<Longrightarrow> cpu_frame s' s'' \<Longrightarrow> cpu_frame s s''"
  by (simp add: cpu_frame_def)

lemma cpu_frame_on_cpu [simp]: "cpu_frame s (on_cpu f s)"
  by (simp add: cpu_frame_def on_cpu_def case_prod_beta)

lemma cpu_frame_on_cpu_iff [simp]: "cpu_frame s (on_cpu f s') \<longleftrightarrow> cpu_frame s s'"
  by (simp add: cpu_frame_def on_cpu_def case_prod_beta)

lemma cpu_frame_cpu_run_iff [simp]: "cpu_frame s (snd (cpu_run Q s')) \<longleftrightarrow> cpu_frame s s'"
  by (simp add: cpu_frame_def cpu_run_def case_prod_beta)

lemma cpu_frame_kernel_call_iff [simp]: "cpu_frame s (snd (kernel_call Q args s')) \<longleftrightarrow> cpu_frame s s'"
  by (simp add: cpu_frame_def kernel_call_def case_prod_beta)

lemma cpu_frame_atexit_iff [simp]: "cpu_frame s (gyh_atexit s') \<longleftrightarrow> cpu_frame s s'"
  by (simp add: cpu_frame_def gyh_atexit_def split: option.split)

lemma cpu_frame_env_iff [simp]: "cpu_frame s (s'\<lparr>env := e\<rparr>) \<longleftrightarrow> cpu_frame s s'"
  by (simp add: cpu_frame_def)

lemma cpu_frame_upd_env_iff [simp]: "cpu_frame s (upd_env f s') \<longleftrightarrow> cpu_frame s s'"
  by (simp add: upd_env_def)

lemmas cpu_ops_simps = on_cpu_def cpu_run_def kernel_call_def gyh_atexit_def

section \<open>Rounds\<close>

text \<open>Between two host segments the loop finishes an iteration and starts the next one.  A round
  is that stretch, from just after one switch to just after the next.\<close>

fun rounds ::
  "('env, 'h) arch \<Rightarrow> 'h host \<Rightarrow> dl \<Rightarrow> u64 \<Rightarrow> (gyh_DoSyscall \<times> int) list \<Rightarrow> ('env, 'h) gyh
   \<Rightarrow> (gyh_abort, ('env, 'h) gyh) result" where
  "rounds A H D ps [] s = Inr s"
| "rounds A H D ps (i # is) s =
     bind_result (emulate_phase A D ps i s) (\<lambda>s.
     bind_result (switch_phase A H s) (rounds A H D ps is))"

lemma rounds_append:
  "rounds A H D ps (is @ js) s = bind_result (rounds A H D ps is s) (rounds A H D ps js)"
proof (induction "is" arbitrary: s)
  case (Cons i "is")
  then have "rounds A H D ps (is @ js) = (\<lambda>s. bind_result (rounds A H D ps is s) (rounds A H D ps js))"
    by (intro ext)
  then show ?case by (simp add: bind_result_assoc)
qed simp

text \<open>The frame in which the host segment that runs next makes a callback, if it makes one.\<close>

definition host_frame :: "('env, 'h) arch \<Rightarrow> 'h host \<Rightarrow> 'h \<Rightarrow> mem \<Rightarrow> u64 option" where
  "host_frame A H h m =
     (case snd (hrun H h m) of HReturn \<Rightarrow> None | HCallback _ _ _ _ sp _ \<Rightarrow> Some (a_frame A sp))"

definition next_frame :: "('env, 'h) arch \<Rightarrow> 'h host \<Rightarrow> ('env, 'h) gyh \<Rightarrow> u64 option" where
  "next_frame A H s =
     (if gyh_cpu_loop_ctx_to s = 0 then None
      else case ctxs s (gyh_cpu_loop_ctx_to s) of
        None \<Rightarrow> None
      | Some (CtxCall _ q f r a x c) \<Rightarrow>
          (case hfunc_of_call (qt s) q f of Inl _ \<Rightarrow> None
           | Inr func \<Rightarrow> host_frame A H (hcall H func [r, a, x, c]) (gmem s))
      | Some (CtxCallGrt _ q f r a) \<Rightarrow>
          (case hfunc_of_call (qt s) q f of Inl _ \<Rightarrow> None
           | Inr func \<Rightarrow> host_frame A H (hcall H func [r, a]) (gmem s))
      | Some (CtxHost sp h) \<Rightarrow> host_frame A H h (gmem s))"

fun frames_avoid ::
  "('env, 'h) arch \<Rightarrow> 'h host \<Rightarrow> dl \<Rightarrow> u64 \<Rightarrow> u64 \<Rightarrow> (gyh_DoSyscall \<times> int) list \<Rightarrow> ('env, 'h) gyh
   \<Rightarrow> bool" where
  "frames_avoid A H D ps c [] s = True"
| "frames_avoid A H D ps c (i # is) s =
     (case emulate_phase A D ps i s of Inl _ \<Rightarrow> True
      | Inr s1 \<Rightarrow> next_frame A H s1 \<noteq> Some c \<and>
          (case switch_phase A H s1 of Inl _ \<Rightarrow> True | Inr s2 \<Rightarrow> frames_avoid A H D ps c is s2))"

section \<open>The architecture interface\<close>

text \<open>
  \<open>sp_of\<close> and \<open>pc_of\<close> read the guest's stack pointer and program counter, \<open>args_of\<close> the four
  argument registers of the guest's calling convention; \<open>mode_ok\<close> is the processor mode the
  architecture's handlers assert.  \<open>kept s1 s2\<close> says that the guest function entered in \<open>s1\<close>
  has come back to the end of its callback stub in \<open>s2\<close>, with the stack pointer and the return
  address it was entered with.
\<close>

locale gyh_arch =
  fixes A :: "('env, 'h) arch"
    and sp_of :: "'env \<Rightarrow> u64"
    and pc_of :: "'env \<Rightarrow> u64"
    and args_of :: "'env \<Rightarrow> u64 list"
    and mode_ok :: "'env \<Rightarrow> bool"
    and kept :: "'env \<times> mem \<Rightarrow> 'env \<times> mem \<Rightarrow> bool"
  assumes do_cpu_frame: "a_do_cpu A st s = Inr (s', sys) \<Longrightarrow> cpu_frame s s'"
    and do_cpu_no_assert: "a_do_cpu A st s \<noteq> Inl (AbAssert ctx_to_null)"
    and callback_total:
      "gyh_cpu_loop_ctx_to s = 0 \<Longrightarrow> mode_ok (env s) \<Longrightarrow> \<exists>s'. a_callback A al cb f r a h s = Inr s'"
    and callback_assert:
      "a_callback A al cb f r a h s = Inl (AbAssert ctx_to_null) \<Longrightarrow> gyh_cpu_loop_ctx_to s \<noteq> 0"
    and callback_enters:
      "a_callback A al cb f r a h s = Inr s' \<Longrightarrow>
       gyh_cpu_loop_ctx_to s = 0 \<and> pc_of (env s') = gyh_cbFunc (qt s) \<and> args_of (env s') = [r, a, f, cb] \<and>
       cpu_frame (s\<lparr>ctxs := (ctxs s)(a_frame A al \<mapsto> CtxHost (sp_of (env s)) h),
                   callbacks := callbacks s + 1\<rparr>) s'"
    and resume_restores:
      "gyh_cpu_loop_ctx_to (a_resume A sp s) = 0" "sp_of (env (a_resume A sp s)) = sp"
      "pc_of (env (a_resume A sp s)) = pc_of (env s)" "gmem (a_resume A sp s) = gmem s"
      "cpu_frame (s\<lparr>gyh_cpu_loop_ctx_to := 0\<rparr>) (a_resume A sp s)"
      "mode_ok (env (a_resume A sp s)) = mode_ok (env s)"
    and call_assert: "a_call A s = Inl (AbAssert ctx_to_null) \<Longrightarrow> gyh_cpu_loop_ctx_to s \<noteq> 0"
    and call_enters:
      "a_call A s = Inr s' \<Longrightarrow> gyh_cpu_loop_ctx_to s = 0 \<and>
       (\<exists>c. s' = s\<lparr>ctxs := (ctxs s)(call_ctx s \<mapsto> c), gyh_cpu_loop_ctx_to := call_ctx s\<rparr>)"
    and call_grt_assert: "a_call_grt A s = Inl (AbAssert ctx_to_null) \<Longrightarrow> gyh_cpu_loop_ctx_to s \<noteq> 0"
    and call_grt_enters:
      "a_call_grt A s = Inr s' \<Longrightarrow> gyh_cpu_loop_ctx_to s = 0 \<and>
       (\<exists>c. s' = s\<lparr>ctxs := (ctxs s)(call_grt_ctx s \<mapsto> c), gyh_cpu_loop_ctx_to := call_grt_ctx s\<rparr>)"
    and return_assert:
      "a_callback_return A s = Inl (AbAssert ctx_to_null) \<Longrightarrow> gyh_cpu_loop_ctx_to s \<noteq> 0"
    and return_leaves:
      "a_callback_return A s = Inr s' \<Longrightarrow> gyh_cpu_loop_ctx_to s = 0 \<and>
       cpu_frame (s\<lparr>gyh_cpu_loop_ctx_to := gyh_cpu_loop_ctx_to s'\<rparr>) s' \<and>
       mode_ok (env s') = mode_ok (env s)"
    and return_matches:
      "a_callback A al cb f r a h s = Inr s1 \<Longrightarrow>
       kept (env s1, gmem s1) (env s2, gmem s2) \<Longrightarrow> gyh_cpu_loop_ctx_to s2 = 0 \<Longrightarrow>
       mode_ok (env s2) \<Longrightarrow>
       \<exists>s3. a_callback_return A s2 = Inr s3 \<and> gyh_cpu_loop_ctx_to s3 = a_frame A al \<and>
         pc_of (env s3) = pc_of (env s) \<and> gmem s3 = gmem s2"
begin

lemma run_host_null:
  "run_host A H h s = Inr s' \<Longrightarrow> gyh_cpu_loop_ctx_to s = 0 \<Longrightarrow> gyh_cpu_loop_ctx_to s' = 0"
  by (auto simp: run_host_def cpu_frame_def split: prod.splits hout.splits dest!: callback_enters)

lemma run_host_no_assert:
  "gyh_cpu_loop_ctx_to s = 0 \<Longrightarrow> run_host A H h s \<noteq> Inl (AbAssert ctx_to_null)"
  by (auto simp: run_host_def split: prod.splits hout.splits dest!: callback_assert)

lemma run_host_ctxs:
  "run_host A H h s = Inr s' \<Longrightarrow> host_frame A H h (gmem s) \<noteq> Some c \<Longrightarrow>
   ctxs s' c = ctxs s c \<and> call_ctx s' = call_ctx s \<and> call_grt_ctx s' = call_grt_ctx s"
  by (auto simp: run_host_def host_frame_def cpu_frame_def split: prod.splits hout.splits
      dest!: callback_enters)

lemma switch_phase_null: "switch_phase A H s = Inr s' \<Longrightarrow> gyh_cpu_loop_ctx_to s' = 0"
  by (auto simp: switch_phase_def switch_ctx_def gyh_do_call_def gyh_do_call_grt_def Let_def
      result_simps resume_restores(1) intro: run_host_null
      split: if_splits option.splits ucontext.splits)

lemma switch_phase_no_assert: "switch_phase A H s \<noteq> Inl (AbAssert ctx_to_null)"
  by (auto simp: switch_phase_def switch_ctx_def gyh_do_call_def gyh_do_call_grt_def Let_def
      result_simps resume_restores(1) hfunc_no_assert run_host_no_assert
      split: if_splits option.splits ucontext.splits)

lemma switch_phase_ctxs:
  assumes "switch_phase A H s = Inr s'" "next_frame A H s \<noteq> Some c"
  shows "ctxs s' c = ctxs s c \<and> call_ctx s' = call_ctx s \<and> call_grt_ctx s' = call_grt_ctx s"
proof -
  have "ctxs (a_resume A sp s) = ctxs s" "call_ctx (a_resume A sp s) = call_ctx s"
    "call_grt_ctx (a_resume A sp s) = call_grt_ctx s" for sp
    using resume_restores(5) [of s sp] by (simp_all add: cpu_frame_def)
  with assms show ?thesis
    by (auto simp: switch_phase_def switch_ctx_def next_frame_def gyh_do_call_def
        gyh_do_call_grt_def Let_def result_simps resume_restores(4)
        split: if_splits option.splits ucontext.splits dest!: run_host_ctxs [where c = c])
qed

lemma dispatch_no_assert:
  "gyh_cpu_loop_ctx_to s = 0 \<Longrightarrow> gyh_dispatch A D ps sys s \<noteq> Inl (AbAssert ctx_to_null)"
  by (auto simp: gyh_dispatch_def result_simps ctor_no_assert split: if_splits
      dest!: call_assert call_grt_assert return_assert)

lemma emulate_phase_no_assert:
  "gyh_cpu_loop_ctx_to s = 0 \<Longrightarrow> emulate_phase A D ps i s \<noteq> Inl (AbAssert ctx_to_null)"
  by (auto simp: emulate_phase_def result_simps do_cpu_no_assert dispatch_no_assert cpu_frame_def
      dest!: do_cpu_frame)

text \<open>The loop never reaches one of the assertions that a switch is not pending already.\<close>

lemma loop_no_assert: "gyh_cpu_loop A H D ps is s \<noteq> Inl (AbAssert ctx_to_null)"
proof (induction "is" arbitrary: s)
  case (Cons i "is")
  then show ?case
    by (auto simp: gyh_cpu_loop_body_def result_simps switch_phase_no_assert
        emulate_phase_no_assert dest!: switch_phase_null)
qed simp

text \<open>Emulation and the handlers store contexts at the two static addresses only.\<close>

lemma dispatch_ctxs:
  "gyh_dispatch A D ps sys s = Inr s' \<Longrightarrow> c \<noteq> call_ctx s \<Longrightarrow> c \<noteq> call_grt_ctx s \<Longrightarrow>
   ctxs s' c = ctxs s c \<and> call_ctx s' = call_ctx s \<and> call_grt_ctx s' = call_grt_ctx s"
  by (auto simp: gyh_dispatch_def result_simps cpu_frame_def split: if_splits
      dest!: call_enters call_grt_enters return_leaves)

lemma emulate_phase_ctxs:
  assumes "emulate_phase A D ps i s = Inr s'" "c \<noteq> call_ctx s" "c \<noteq> call_grt_ctx s"
  shows "ctxs s' c = ctxs s c \<and> call_ctx s' = call_ctx s \<and> call_grt_ctx s' = call_grt_ctx s"
proof -
  from assms(1) obtain s1 sys where cpu: "a_do_cpu A (fst i) s = Inr (s1, sys)"
    and d: "gyh_dispatch A D ps sys (s1\<lparr>emu_nsecs := emu_nsecs s1 + snd i\<rparr>) = Inr s'"
    by (auto simp: emulate_phase_def result_simps)
  from do_cpu_frame [OF cpu] dispatch_ctxs [OF d, of c] assms(2,3) show ?thesis
    by (simp add: cpu_frame_def)
qed

lemma rounds_ctxs:
  assumes "rounds A H D ps is s = Inr s'" "frames_avoid A H D ps c is s"
    "c \<noteq> call_ctx s" "c \<noteq> call_grt_ctx s" "gyh_cpu_loop_ctx_to s = 0"
  shows "ctxs s' c = ctxs s c \<and> gyh_cpu_loop_ctx_to s' = 0 \<and>
    call_ctx s' = call_ctx s \<and> call_grt_ctx s' = call_grt_ctx s"
  using assms
proof (induction "is" arbitrary: s)
  case (Cons i "is")
  then obtain s1 s2 where e: "emulate_phase A D ps i s = Inr s1" and sw: "switch_phase A H s1 = Inr s2"
    and r: "rounds A H D ps is s2 = Inr s'"
    by (auto simp: result_simps)
  from e sw Cons.prems(2) have av: "next_frame A H s1 \<noteq> Some c" "frames_avoid A H D ps c is s2"
    by simp_all
  note c1 = emulate_phase_ctxs [OF e Cons.prems(3,4)]
  note c2 = switch_phase_ctxs [OF sw av(1)]
  have "ctxs s' c = ctxs s2 c \<and> gyh_cpu_loop_ctx_to s' = 0 \<and>
    call_ctx s' = call_ctx s2 \<and> call_grt_ctx s' = call_grt_ctx s2"
    by (rule Cons.IH [OF r av(2)]) (use c1 c2 Cons.prems(3,4) switch_phase_null [OF sw] in simp_all)
  with c1 c2 show ?case by simp
qed simp

text \<open>A callback comes back to its host function: after any number of rounds, with nested calls
  and callbacks that use other frames, the guest's return from the callback makes the loop
  resume the rest of the host function, with the guest's stack pointer and program counter of
  before the callback.\<close>

lemma callback_resumes:
  assumes cb: "a_callback A al cs f r a h s0 = Inr s1"
    and rounds: "rounds A H D ps is s1 = Inr s2"
    and avoid: "frames_avoid A H D ps (a_frame A al) is s1"
    and frame: "a_frame A al \<noteq> 0" "a_frame A al \<noteq> call_ctx s0" "a_frame A al \<noteq> call_grt_ctx s0"
    and cpu: "a_do_cpu A (fst i) s2 = Inr (s3, sys)" "num sys = GYH_NR_gyh_callback_return"
    and kept: "kept (env s1, gmem s1) (env s3, gmem s3)" and mode: "mode_ok (env s3)"
  shows "\<exists>s4 s5. emulate_phase A D ps i s2 = Inr s4 \<and> switch_phase A H s4 = run_host A H h s5 \<and>
    gyh_cpu_loop_ctx_to s5 = 0 \<and> sp_of (env s5) = sp_of (env s0) \<and> pc_of (env s5) = pc_of (env s0) \<and>
    gmem s5 = gmem s3 \<and> mode_ok (env s5) \<and> call_ctx s5 = call_ctx s0 \<and> call_grt_ctx s5 = call_grt_ctx s0"
proof -
  let ?c = "a_frame A al"
  let ?s3 = "s3\<lparr>emu_nsecs := emu_nsecs s3 + snd i, callback_returns := callback_returns s3 + 1\<rparr>"
  note ent = callback_enters [OF cb]
  have s1: "gyh_cpu_loop_ctx_to s1 = 0" "call_ctx s1 = call_ctx s0" "call_grt_ctx s1 = call_grt_ctx s0"
    and saved: "ctxs s1 ?c = Some (CtxHost (sp_of (env s0)) h)"
    using ent by (simp_all add: cpu_frame_def)
  then have keep: "ctxs s2 ?c = ctxs s1 ?c" "gyh_cpu_loop_ctx_to s2 = 0"
    "call_ctx s2 = call_ctx s0" "call_grt_ctx s2 = call_grt_ctx s0"
    using rounds_ctxs [OF rounds avoid] frame by simp_all
  have s3: "ctxs s3 = ctxs s2" "gyh_cpu_loop_ctx_to s3 = 0"
    "call_ctx s3 = call_ctx s0" "call_grt_ctx s3 = call_grt_ctx s0"
    using do_cpu_frame [OF cpu(1)] keep(2-4) by (simp_all add: cpu_frame_def)
  obtain s4 where ret: "a_callback_return A ?s3 = Inr s4"
    and s4: "gyh_cpu_loop_ctx_to s4 = ?c" "pc_of (env s4) = pc_of (env s0)" "gmem s4 = gmem s3"
    using return_matches [OF cb, of ?s3] kept mode s3(2) by auto
  have ctx4: "ctxs s4 ?c = Some (CtxHost (sp_of (env s0)) h)" "mode_ok (env s4)"
    "call_ctx s4 = call_ctx s0" "call_grt_ctx s4 = call_grt_ctx s0"
    using return_leaves [OF ret] s3 keep(1) saved mode by (simp_all add: cpu_frame_def)
  let ?s4 = "s4\<lparr>syscalls := syscalls s4 + 1\<rparr>" and ?sp = "sp_of (env s0)"
  have "emulate_phase A D ps i s2 = Inr ?s4"
    using cpu ret by (simp add: emulate_phase_def gyh_dispatch_def gyh_nr_defs)
  moreover have "switch_phase A H ?s4 = run_host A H h (a_resume A ?sp ?s4)"
    using s4(1) ctx4(1) frame(1) by (simp add: switch_phase_def switch_ctx_def)
  ultimately show ?thesis
    using resume_restores [where sp = ?sp and s = ?s4] s4 ctx4(2-4)
    by (intro exI [of _ ?s4] exI [of _ "a_resume A ?sp ?s4"]) (simp add: cpu_frame_def)
qed

text \<open>The counters: every call and every return from a callback is also counted as a system
  call, and the counters never decrease.\<close>

lemma dispatch_counters:
  "gyh_dispatch A D ps sys s = Inr s' \<Longrightarrow>
   calls s' + callback_returns s' - (calls s + callback_returns s) \<le> syscalls s' - syscalls s \<and>
   callbacks s' = callbacks s"
  by (auto simp: gyh_dispatch_def result_simps cpu_frame_def split: if_splits
      dest!: call_enters call_grt_enters return_leaves)

lemma run_host_counters:
  "run_host A H h s = Inr s' \<Longrightarrow>
   calls s' = calls s \<and> callback_returns s' = callback_returns s \<and> syscalls s' = syscalls s"
  by (auto simp: run_host_def cpu_frame_def split: prod.splits hout.splits dest!: callback_enters)

lemma switch_phase_counters:
  assumes "switch_phase A H s = Inr s'"
  shows "calls s' = calls s \<and> callback_returns s' = callback_returns s \<and> syscalls s' = syscalls s"
proof -
  have "calls (a_resume A sp s) = calls s" "callback_returns (a_resume A sp s) = callback_returns s"
    "syscalls (a_resume A sp s) = syscalls s" for sp
    using resume_restores(5) [of s sp] by (simp_all add: cpu_frame_def)
  with assms show ?thesis
    by (auto simp: switch_phase_def switch_ctx_def gyh_do_call_def gyh_do_call_grt_def Let_def
        result_simps split: if_splits option.splits ucontext.splits dest!: run_host_counters)
qed

lemma loop_counters:
  "gyh_cpu_loop A H D ps is s = Inr s' \<Longrightarrow>
   calls s' + callback_returns s' - (calls s + callback_returns s) \<le> syscalls s' - syscalls s"
proof (induction "is" arbitrary: s)
  case (Cons i "is")
  then obtain s1 s2 s3 sys where sw: "switch_phase A H s = Inr s1"
    and cpu: "a_do_cpu A (fst i) s1 = Inr (s2, sys)"
    and d: "gyh_dispatch A D ps sys (s2\<lparr>emu_nsecs := emu_nsecs s2 + snd i\<rparr>) = Inr s3"
    and r: "gyh_cpu_loop A H D ps is s3 = Inr s'"
    by (auto simp: result_simps gyh_cpu_loop_body_def emulate_phase_def)
  from switch_phase_counters [OF sw] do_cpu_frame [OF cpu] dispatch_counters [OF d] Cons.IH [OF r]
  show ?case by (simp add: cpu_frame_def)
qed simp

end

section \<open>A machine for concrete runs\<close>

definition sample_gyh :: "'env \<Rightarrow> ('env, 'h) gyh" where
  "sample_gyh e =
     \<lparr>qt = (init_qtab (\<lambda>_. 0))\<lparr>gyh_cbFunc := 0x1000\<rparr>, env = e, ctxs = Map.empty,
      gyh_cpu_loop_ctx_to = 0, call_ctx = 8, call_grt_ctx = 16, emu_nsecs = 0, syscalls = 0,
      calls = 0, callbacks = 0, callback_returns = 0, breakdown_env = None, breakdown_file = None\<rparr>"

definition sample_sys :: gyh_DoSyscall where
  "sample_sys = \<lparr>num = 0, arg1 = 0, arg2 = 0, arg3 = 0, arg4 = 0, arg5 = 0, arg6 = 0, arg7 = 0, arg8 = 0\<rparr>"

text \<open>Host code that returns at once, wherever it is resumed.\<close>

definition sample_host :: "unit host" where
  "sample_host = \<lparr>hcall = \<lambda>_ _. (), hrun = \<lambda>_ m. (m, HReturn)\<rparr>"

end
