(* ===== verification/Gyh_Mock.thy ===== *)
theory Gyh_Mock
  imports Gyh_Machine
begin

text \<open>
  The mock runtime \<open>lib/guest_rt/mock.c\<close>, which a guest program links to run natively, with
  guest and host code in one process: the library table, the calls and the callbacks, which are
  plain function calls here.  It is related to the emulator's runtime: the constructors are
  equivalent, and a call of the mock runtime is the specification of a call through the
  emulation loop.
\<close>

section \<open>The library table\<close>

record mock =
  smem :: mem
  sQlibs :: "gyh_Qlib list"




definition query_hfunc :: "mock \<Rightarrow> u32 \<Rightarrow> u32 \<Rightarrow> (gyh_abort, u64) result" where
  "query_hfunc st qlibUid funcUid =
     bind_result (check (unat qlibUid < 1024) (AbQlibRange qlibUid)) (\<lambda>_.
     let qlib = sQlibs st ! unat qlibUid
     in bind_result (check (handle qlib \<noteq> 0) (AbQlibNotSet qlibUid)) (\<lambda>_.
        if funcUid \<ge> hfunctblSize qlib
        then Inl (AbFuncRange funcUid (hfunctblSize qlib) (qlib_uid qlib))
        else Inr (load64 (smem st) (hfunctbl qlib + 8 * ucast funcUid))))"




section \<open>Calls and callbacks\<close>

text \<open>A guest function called through a stub: \<open>gstub cbStub retPad argPad gfunc\<close> is its effect on
  memory.  \<open>__gyh_callback__\<close> of the mock runtime calls \<open>__gyh_callback_return__\<close>, which calls
  the stub.\<close>

type_synonym guest = "u64 \<Rightarrow> u64 \<Rightarrow> u64 \<Rightarrow> u64 \<Rightarrow> mem \<Rightarrow> mem"

definition mock_callback_return :: "guest \<Rightarrow> u64 \<Rightarrow> u64 \<Rightarrow> u64 \<Rightarrow> u64 \<Rightarrow> mem \<Rightarrow> mem" where
  "mock_callback_return G retPad argPad gfunc cbStub = G cbStub retPad argPad gfunc"

definition mock_callback :: "guest \<Rightarrow> u64 \<Rightarrow> u64 \<Rightarrow> u64 \<Rightarrow> u64 \<Rightarrow> mem \<Rightarrow> mem" where
  "mock_callback G cbStub gfunc retPad argPad = mock_callback_return G retPad argPad gfunc cbStub"

text \<open>The host function to its end: None when it never returns.\<close>

partial_function (option) mock_run :: "'h host \<Rightarrow> guest \<Rightarrow> 'h \<Rightarrow> mem \<Rightarrow> mem option" where
  "mock_run H G h m =
     (case hrun H h m of
        (m, HReturn) \<Rightarrow> Some m
      | (m, HCallback cbStub func retPad argPad sp h') \<Rightarrow>
          mock_run H G h' (mock_callback G cbStub func retPad argPad m))"

definition mock_call ::
  "'h host \<Rightarrow> guest \<Rightarrow> mock \<Rightarrow> u64 \<Rightarrow> u32 \<Rightarrow> u64 \<Rightarrow> u64 \<Rightarrow> u64 \<Rightarrow> u64
   \<Rightarrow> (gyh_abort, mock option) result" where
  "mock_call H G st qlibUid funcUid retPad argPad extRefs cbStubs =
     bind_result (query_hfunc st (load32 (smem st) qlibUid) funcUid) (\<lambda>hfunc.
     Inr (map_option (\<lambda>m. st\<lparr>smem := m\<rparr>)
       (mock_run H G (hcall H hfunc [retPad, argPad, extRefs, cbStubs]) (smem st))))"

definition mock_call_grt ::
  "'h host \<Rightarrow> guest \<Rightarrow> mock \<Rightarrow> u64 \<Rightarrow> u32 \<Rightarrow> u64 \<Rightarrow> u64 \<Rightarrow> (gyh_abort, mock option) result" where
  "mock_call_grt H G st qlibUid funcUid retPad argPad =
     bind_result (query_hfunc st (load32 (smem st) qlibUid) funcUid) (\<lambda>hfunc.
     Inr (map_option (\<lambda>m. st\<lparr>smem := m\<rparr>)
       (mock_run H G (hcall H hfunc [retPad, argPad]) (smem st))))"

section \<open>The emulator's constructors and the mock runtime's\<close>

definition mock_of :: "qtab \<Rightarrow> mock" where
  "mock_of st = \<lparr>smem = qmem st, sQlibs = gyh_qlibs st\<rparr>"



lemma map_sum_check [simp]: "map_sum id f (check b e) = (if b then Inr (f ()) else Inl e)"
  by (simp add: check_def)






section \<open>The emulator's calls refine the mock runtime's\<close>

text \<open>The callback stub of the guest, run by the emulator: from the state in which the callback
  enters it, some rounds lead to its final system call, with the stack pointer and return
  address in place and the effect on memory of the stub as a plain function, up to the relation
  \<open>R\<close> between the memories of the two runs.\<close>

definition stub_runs ::
  "('env, 'h) arch \<Rightarrow> 'h host \<Rightarrow> dl \<Rightarrow> u64 \<Rightarrow> ('env \<times> mem \<Rightarrow> 'env \<times> mem \<Rightarrow> bool) \<Rightarrow> ('env \<Rightarrow> bool)
   \<Rightarrow> (mem \<Rightarrow> mem \<Rightarrow> bool) \<Rightarrow> (mem \<Rightarrow> mem) \<Rightarrow> u64 \<Rightarrow> ('env, 'h) gyh \<Rightarrow> bool" where
  "stub_runs A H D ps kept mode R g c s1 \<longleftrightarrow>
     (\<exists>is (i :: gyh_DoSyscall \<times> int) s2 s3 sys. rounds A H D ps is s1 = Inr s2 \<and> frames_avoid A H D ps c is s1 \<and>
        a_do_cpu A (fst i) s2 = Inr (s3, sys) \<and> num sys = GYH_NR_gyh_callback_return \<and>
        kept (env s1, gmem s1) (env s3, gmem s3) \<and> mode (env s3) \<and>
        (\<forall>m. R m (gmem s1) \<longrightarrow> R (g m) (gmem s3)))"

text \<open>Host code does not depend on what \<open>R\<close> lets differ, and places its frames apart from the two
  static contexts.\<close>

definition host_ok :: "('env, 'h) arch \<Rightarrow> 'h host \<Rightarrow> (mem \<Rightarrow> mem \<Rightarrow> bool) \<Rightarrow> u64 set \<Rightarrow> bool" where
  "host_ok A H R C \<longleftrightarrow>
     (\<forall>h m1 m2. R m1 m2 \<longrightarrow> R (fst (hrun H h m1)) (fst (hrun H h m2)) \<and> snd (hrun H h m1) = snd (hrun H h m2)) \<and>
     (\<forall>h m c. host_frame A H h m = Some c \<longrightarrow> c \<notin> C)"

text \<open>For the callbacks the host code makes: what the entry to the callback writes is covered by \<open>R\<close>,
  and the stub runs.\<close>

definition callbacks_ok ::
  "('env, 'h) arch \<Rightarrow> 'h host \<Rightarrow> dl \<Rightarrow> u64 \<Rightarrow> ('env \<times> mem \<Rightarrow> 'env \<times> mem \<Rightarrow> bool) \<Rightarrow> ('env \<Rightarrow> bool)
   \<Rightarrow> (mem \<Rightarrow> mem \<Rightarrow> bool) \<Rightarrow> guest \<Rightarrow> bool" where
  "callbacks_ok A H D ps kept mode R G \<longleftrightarrow>
     (\<forall>al cb f r a h s s1. (\<exists>h0 m0. snd (hrun H h0 m0) = HCallback cb f r a al h) \<longrightarrow>
        a_callback A al cb f r a h s = Inr s1 \<longrightarrow>
        (\<forall>m. R m (gmem s) \<longrightarrow> R m (gmem s1)) \<and>
        stub_runs A H D ps kept mode R (mock_callback G cb f r a) (a_frame A al) s1)"

lemma query_hfunc_hfunc_of_call:
  "query_hfunc (mock_of st) (load32 (qmem st) p) f = Inr a \<Longrightarrow> hfunc_of_call st p f = Inr a"
  by (auto simp: query_hfunc_def hfunc_of_call_def mock_of_def Let_def result_simps gyh_qlibs_size_def
      split: if_splits)

lemma mock_run_induct [consumes 1, case_names return callback]:
  assumes "mock_run H G h m = Some m'"
    and "\<And>h m m'. hrun H h m = (m', HReturn) \<Longrightarrow> P h m m'"
    and "\<And>h m m1 cb f r a sp h' m'. hrun H h m = (m1, HCallback cb f r a sp h') \<Longrightarrow>
      P h' (mock_callback G cb f r a m1) m' \<Longrightarrow> P h m m'"
  shows "P h m m'"
proof -
  have "H' = H \<longrightarrow> G' = G \<longrightarrow> P h m m'" if "mock_run H' G' h m = Some m'" for H' G' h m m'
    using that
    by (rule mock_run.raw_induct [where P = "\<lambda>H' G' h m m'. H' = H \<longrightarrow> G' = G \<longrightarrow> P h m m'", rotated])
      (auto split: prod.splits hout.splits intro: assms(2) assms(3))
  with assms(1) show ?thesis by blast
qed

context gyh_arch
begin

lemma host_runs_like_mock:
  assumes host: "host_ok A H R {0, cc, cg}"
    and cbs: "callbacks_ok A H D ps kept mode_ok R G"
    and run: "mock_run H G h m = Some m'"
    and s: "R m (gmem s)" "gyh_cpu_loop_ctx_to s = 0" "mode_ok (env s)" "call_ctx s = cc"
      "call_grt_ctx s = cg"
  shows "\<exists>is s'. bind_result (run_host A H h s) (rounds A H D ps is) = Inr s' \<and> R m' (gmem s') \<and>
    gyh_cpu_loop_ctx_to s' = 0 \<and> sp_of (env s') = sp_of (env s) \<and> pc_of (env s') = pc_of (env s)"
  using run s
proof (induction arbitrary: s rule: mock_run_induct)
  case (return h m m')
  from host return(1,2) have "R m' (fst (hrun H h (gmem s)))" "snd (hrun H h (gmem s)) = HReturn"
    unfolding host_ok_def by (metis fst_conv snd_conv)+
  with return show ?case
    by (intro exI [of _ "[]"]) (auto simp: run_host_def case_prod_beta)
next
  case (callback h m m1 cb f r a al h' m')
  let ?m = "fst (hrun H h (gmem s))"
  have m1: "R m1 ?m" and out: "snd (hrun H h (gmem s)) = HCallback cb f r a al h'"
    using host callback(1,3) unfolding host_ok_def by (metis fst_conv snd_conv)+
  have "host_frame A H h (gmem s) = Some (a_frame A al)"
    using out by (simp add: host_frame_def)
  then have c: "a_frame A al \<notin> {0, cc, cg}"
    using host unfolding host_ok_def by blast
  obtain s1 where cb: "a_callback A al cb f r a h' (set_mem ?m s) = Inr s1"
    using callback_total [of "set_mem ?m s" al cb f r a h'] callback(4,5) by auto
  have run: "run_host A H h s = Inr s1"
    using out cb by (simp add: run_host_def case_prod_beta)
  obtain "is" and i :: "gyh_DoSyscall \<times> int" and s2 s3 sys where r1: "rounds A H D ps is s1 = Inr s2"
    and av: "frames_avoid A H D ps (a_frame A al) is s1"
    and cpu: "a_do_cpu A (fst i) s2 = Inr (s3, sys)" "num sys = GYH_NR_gyh_callback_return"
    and k: "kept (env s1, gmem s1) (env s3, gmem s3)" "mode_ok (env s3)"
    and R3: "R (mock_callback G cb f r a m1) (gmem s3)"
  proof -
    have "(\<forall>m. R m (gmem (set_mem ?m s)) \<longrightarrow> R m (gmem s1)) \<and>
      stub_runs A H D ps kept mode_ok R (mock_callback G cb f r a) (a_frame A al) s1"
      using cbs cb out unfolding callbacks_ok_def by blast
    with m1 that show thesis unfolding stub_runs_def by auto
  qed
  obtain s4 s5 where e: "emulate_phase A D ps i s2 = Inr s4"
    and sw: "switch_phase A H s4 = run_host A H h' s5"
    and s5: "gyh_cpu_loop_ctx_to s5 = 0" "sp_of (env s5) = sp_of (env s)" "pc_of (env s5) = pc_of (env s)"
      "gmem s5 = gmem s3" "mode_ok (env s5)" "call_ctx s5 = cc" "call_grt_ctx s5 = cg"
    using callback_resumes [OF cb r1 av _ _ _ cpu k] c callback(6,7) by auto
  obtain js s' where js: "bind_result (run_host A H h' s5) (rounds A H D ps js) = Inr s'"
    "R m' (gmem s')" "gyh_cpu_loop_ctx_to s' = 0" "sp_of (env s') = sp_of (env s5)"
    "pc_of (env s') = pc_of (env s5)"
    using callback.IH [of s5] R3 s5 by auto
  have "bind_result (run_host A H h s) (rounds A H D ps (is @ i # js)) = Inr s'"
    using js(1) by (simp add: run rounds_append r1 e sw)
  with js s5 show ?case by auto
qed

text \<open>A call that the loop has pending runs like the mock runtime's call of the same function.\<close>

lemma call_runs_like_mock:
  assumes host: "host_ok A H R {0, call_ctx s, call_grt_ctx s}"
    and cbs: "callbacks_ok A H D ps kept mode_ok R G"
    and refl: "\<And>m. R m m"
    and pending: "gyh_cpu_loop_ctx_to s \<noteq> 0" "ctxs s (gyh_cpu_loop_ctx_to s) = Some (CtxCall ss q f r a x c)"
    and mode: "mode_ok (env s)"
    and call: "mock_call H G (mock_of (qt s)) q f r a x c = Inr (Some st')"
  shows "\<exists>is s'. bind_result (switch_phase A H s) (rounds A H D ps is) = Inr s' \<and> R (smem st') (gmem s') \<and>
    gyh_cpu_loop_ctx_to s' = 0 \<and> sp_of (env s') = sp_of (env s) \<and> pc_of (env s') = pc_of (env s)"
proof -
  let ?s = "s\<lparr>gyh_cpu_loop_ctx_to := 0\<rparr>"
  from call obtain func where q: "query_hfunc (mock_of (qt s)) (load32 (gmem s) q) f = Inr func"
    and run: "mock_run H G (hcall H func [r, a, x, c]) (gmem s) = Some (smem st')"
    by (auto simp: mock_call_def result_simps mock_of_def)
  have "switch_phase A H s = run_host A H (hcall H func [r, a, x, c]) ?s"
    using pending query_hfunc_hfunc_of_call [OF q]
    by (simp add: switch_phase_def switch_ctx_def gyh_do_call_def Let_def)
  with host_runs_like_mock [OF host cbs run, of ?s] refl mode show ?thesis
    by simp
qed

end

section \<open>A call for concrete runs\<close>

text \<open>A host function that makes one callback, then stores a byte and returns; a guest function
  without effect; and a machine with one library of one function and a call of it pending.\<close>

definition sample_caller :: "nat host" where
  "sample_caller = \<lparr>hcall = \<lambda>_ _. 1,
     hrun = \<lambda>h m. if h = 1 then (m, HCallback 1 2 3 4 0x7000 0) else (m(0x9000 := 5), HReturn)\<rparr>"

definition sample_guest :: guest where
  "sample_guest cbStub retPad argPad gfunc m = m"

definition sample_call :: "'env \<Rightarrow> ('env, nat) gyh" where
  "sample_call e = (sample_gyh e)
     \<lparr>qt := \<lparr>qmem = \<lambda>_. 0, gyhcall_config_dir = [],
        gyh_qlibs = [\<lparr>handle = 1, qlib_uid = 7, hfunctbl = 256, hfunctblSize = 1, extreftbl = 0, cbstubtbl = 0\<rparr>],
        gyh_cbFunc = 0x1000\<rparr>,
      gyh_cpu_loop_ctx_to := 8, ctxs := [8 \<mapsto> CtxCall 0x7fc0 64 0 1 2 3 4]\<rparr>"

lemma load_le_zero [simp]: "load_le n (\<lambda>_. 0) a = 0"
  by (induction n arbitrary: a) auto

lemma sample_mock_call:
  "mock_call sample_caller sample_guest (mock_of (qt (sample_call e))) 64 0 1 2 3 4 =
     Inr (Some \<lparr>smem = (\<lambda>_. 0)(0x9000 := 5), sQlibs = gyh_qlibs (qt (sample_call e))\<rparr>)"
  by (simp add: mock_call_def query_hfunc_def mock_of_def sample_call_def sample_gyh_def load32_def
      check_def Let_def mock_run.simps sample_caller_def mock_callback_def mock_callback_return_def
      sample_guest_def del: load_le.simps)

lemma sample_callbacks_ok:
  assumes "\<And>cb f r a h s s1 m. a_callback A 0x7000 cb f r a h s = Inr s1 \<Longrightarrow> R m (gmem s) \<Longrightarrow> R m (gmem s1)"
    and "\<And>cb f r a h s s1. a_callback A 0x7000 cb f r a h s = Inr s1 \<Longrightarrow>
      stub_runs A sample_caller D ps kept mode R (mock_callback G cb f r a) (a_frame A 0x7000) s1"
  shows "callbacks_ok A sample_caller D ps kept mode R G"
  unfolding callbacks_ok_def
proof (intro allI impI)
  fix al cb f r a h s s1
  assume "\<exists>h0 m0. snd (hrun sample_caller h0 m0) = HCallback cb f r a al h"
  then have "al = 0x7000"
    by (auto simp: sample_caller_def split: if_splits)
  moreover assume "a_callback A al cb f r a h s = Inr s1"
  ultimately show "(\<forall>m. R m (gmem s) \<longrightarrow> R m (gmem s1)) \<and>
      stub_runs A sample_caller D ps kept mode R (mock_callback G cb f r a) (a_frame A al) s1"
    using assms by blast
qed

end
