(* ===== verification/Gyh_Arm64.thy ===== *)
theory Gyh_Arm64
  imports Gyh_Mock
begin

text \<open>
  The AArch64 side of the runtime, \<open>qemu/linux-user/+gyh/aarch64-on.c\<close>: the emulation step
  \<open>gyh_do_cpu\<close>, the callback entry \<open>__gyh_callback__\<close> and the handlers \<open>gyh_call\<close>,
  \<open>gyh_callback_return\<close> and \<open>gyh_call_grt\<close>, with the proof that they satisfy the
  architecture interface.
\<close>

section \<open>Processor state\<close>

text \<open>The fields of \<open>CPUArchState\<close> the file reads or writes; \<open>world_a64\<close> is the rest.\<close>

record 'w cpu_a64 =
  aarch64 :: bool
  xregs :: "nat \<Rightarrow> u64"
  pc_a64 :: u64
  syndrome :: u32
  vaddress :: u64
  tfsr_el0 :: u64
  exclusive_addr :: u64
  world_a64 :: 'w

record 'w qemu_a64 = "'w cpu_a64 qemu" +
  aarch64_set_svcr :: "'w cpu_a64 \<times> mem \<Rightarrow> 'w cpu_a64 \<times> mem"

type_synonym ('w, 'h) gyh_a64 = "('w cpu_a64, 'h) gyh"

definition EXCP_UDEF :: int where "EXCP_UDEF = 1"
definition EXCP_SWI :: int where "EXCP_SWI = 2"
definition EXCP_PREFETCH_ABORT :: int where "EXCP_PREFETCH_ABORT = 3"
definition EXCP_DATA_ABORT :: int where "EXCP_DATA_ABORT = 4"
definition EXCP_BKPT :: int where "EXCP_BKPT = 7"
definition EXCP_SEMIHOST :: int where "EXCP_SEMIHOST = 16"
definition EC_INSNABORT :: u32 where "EC_INSNABORT = 0x20"
definition EC_PCALIGNMENT :: u32 where "EC_PCALIGNMENT = 0x22"
definition EC_DATAABORT :: u32 where "EC_DATAABORT = 0x24"
definition TARGET_SEGV_MTEAERR :: int where "TARGET_SEGV_MTEAERR = 8"
definition TARGET_SEGV_MTESERR :: int where "TARGET_SEGV_MTESERR = 9"

section \<open>The emulation step\<close>

text \<open>The system call trap: one of the runtime's own numbers is recorded for the loop, any other
  goes to the kernel.\<close>

definition swi_a64 ::
  "('w cpu_a64, 'z) qemu_scheme \<Rightarrow> gyh_DoSyscall \<Rightarrow> ('w, 'h) gyh_a64 \<Rightarrow> ('w, 'h) gyh_a64 \<times> gyh_DoSyscall" where
  "swi_a64 Q sys s =
     (let s = (if xregs (env s) 8 = 94 then gyh_atexit s else s);
          x = xregs (env s)
      in if x 8 > word_of_nat GYH_NR_start
         then (s, sys\<lparr>num := ucast (x 8), arg1 := x 0, arg2 := x 1, arg3 := x 2, arg4 := x 3,
                      arg5 := x 4, arg6 := x 5\<rparr>)
         else
           let (ret, s) = kernel_call Q [x 8, x 0, x 1, x 2, x 3, x 4, x 5, 0, 0] s
           in if ret = - QEMU_ERESTARTSYS then (upd_env (\<lambda>e. e\<lparr>pc_a64 := pc_a64 e - 4\<rparr>) s, sys)
              else if ret \<noteq> - QEMU_ESIGRETURN
              then (upd_env (\<lambda>e. e\<lparr>xregs := (xregs e)(0 := ret)\<rparr>) s, sys)
              else (s, sys))"

text \<open>The signal and code of a memory fault, from the syndrome.\<close>

definition fault_signal :: "u32 \<Rightarrow> (gyh_abort, int \<times> int) result" where
  "fault_signal syn =
     (let ec = drop_bit 26 syn
      in if ec = EC_DATAABORT \<or> ec = EC_INSNABORT then
           let fsc = syn AND 0x3f
           in if 0x04 \<le> fsc \<and> fsc \<le> 0x07 then Inr (TARGET_SIGSEGV, TARGET_SEGV_MAPERR)
              else if 0x09 \<le> fsc \<and> fsc \<le> 0x0b \<or> 0x0d \<le> fsc \<and> fsc \<le> 0x0f
              then Inr (TARGET_SIGSEGV, TARGET_SEGV_ACCERR)
              else if fsc = 0x11 then Inr (TARGET_SIGSEGV, TARGET_SEGV_MTESERR)
              else if fsc = 0x21 then Inr (TARGET_SIGBUS, TARGET_BUS_ADRALN)
              else Inl (AbAssert ''not reached'')
         else if ec = EC_PCALIGNMENT then Inr (TARGET_SIGBUS, TARGET_BUS_ADRALN)
         else Inl (AbAssert ''not reached''))"

definition trap_a64 ::
  "'w qemu_a64 \<Rightarrow> int \<Rightarrow> gyh_DoSyscall \<Rightarrow> ('w, 'h) gyh_a64
   \<Rightarrow> (gyh_abort, ('w, 'h) gyh_a64 \<times> gyh_DoSyscall) result" where
  "trap_a64 Q trapnr sys s =
     (if trapnr = EXCP_SWI then Inr (swi_a64 Q sys (on_cpu (aarch64_set_svcr Q) s))
      else if trapnr = EXCP_INTERRUPT then Inr (s, sys)
      else if trapnr = EXCP_UDEF then
        Inr (on_cpu (force_sig_fault Q TARGET_SIGILL TARGET_ILL_ILLOPN (pc_a64 (env s))) s, sys)
      else if trapnr = EXCP_PREFETCH_ABORT \<or> trapnr = EXCP_DATA_ABORT then
        bind_result (fault_signal (syndrome (env s))) (\<lambda>(signo, code).
          Inr (on_cpu (force_sig_fault Q signo code (vaddress (env s))) s, sys))
      else if trapnr = EXCP_DEBUG \<or> trapnr = EXCP_BKPT then
        Inr (on_cpu (force_sig_fault Q TARGET_SIGTRAP TARGET_TRAP_BRKPT (pc_a64 (env s))) s, sys)
      else if trapnr = EXCP_SEMIHOST then
        Inr (upd_env (\<lambda>e. e\<lparr>pc_a64 := pc_a64 e + 4\<rparr>) (on_cpu (do_common_semihosting Q) s), sys)
      else if trapnr = EXCP_YIELD then Inr (s, sys)
      else if trapnr = EXCP_ATOMIC then Inr (on_cpu (cpu_exec_step_atomic Q) s, sys)
      else Inl (AbTrap trapnr))"

definition gyh_do_cpu_a64 ::
  "'w qemu_a64 \<Rightarrow> gyh_DoSyscall \<Rightarrow> ('w, 'h) gyh_a64
   \<Rightarrow> (gyh_abort, ('w, 'h) gyh_a64 \<times> gyh_DoSyscall) result" where
  "gyh_do_cpu_a64 Q sys s =
     (let (trapnr, s) = cpu_run Q s
      in bind_result (trap_a64 Q trapnr sys s) (\<lambda>(s, sys).
         let s = (if tfsr_el0 (env s) \<noteq> 0
                  then on_cpu (force_sig_fault Q TARGET_SIGSEGV TARGET_SEGV_MTEAERR 0)
                         (upd_env (\<lambda>e. e\<lparr>tfsr_el0 := 0\<rparr>) s)
                  else s);
             s = on_cpu (process_pending_signals Q) s
         in Inr (upd_env (\<lambda>e. e\<lparr>exclusive_addr := - 1\<rparr>) s, sys)))"

section \<open>Callbacks and calls\<close>

definition frame_a64 :: "u64 \<Rightarrow> u64" where
  "frame_a64 al = (al + 16) AND NOT 0xf"

text \<open>\<open>__gyh_callback__\<close> up to its \<open>swapcontext\<close>; \<open>al\<close> is the address \<open>alloca\<close> returns.\<close>

definition gyh_callback_a64 ::
  "u64 \<Rightarrow> u64 \<Rightarrow> u64 \<Rightarrow> u64 \<Rightarrow> u64 \<Rightarrow> 'h \<Rightarrow> ('w, 'h) gyh_a64 \<Rightarrow> (gyh_abort, ('w, 'h) gyh_a64) result" where
  "gyh_callback_a64 al cbStub func retPad argPad h s =
     bind_result (check (aarch64 (env s)) (AbAssert ''env->aarch64'')) (\<lambda>_.
     bind_result (check (gyh_cpu_loop_ctx_to s = 0) (AbAssert ctx_to_null)) (\<lambda>_.
     let e = env s;
         sp = xregs e 31;
         ctx = frame_a64 al
     in Inr (s\<lparr>env := e\<lparr>xregs := (xregs e)(0 := retPad, 1 := argPad, 2 := func, 3 := cbStub,
                                          31 := ctx, 30 := pc_a64 e),
                       pc_a64 := gyh_cbFunc (qt s)\<rparr>,
               callbacks := callbacks s + 1,
               ctxs := (ctxs s)(ctx \<mapsto> CtxHost sp h)\<rparr>)))"

text \<open>\<open>__gyh_callback__\<close> after its \<open>swapcontext\<close>.\<close>

definition gyh_callback_resume_a64 :: "u64 \<Rightarrow> ('w, 'h) gyh_a64 \<Rightarrow> ('w, 'h) gyh_a64" where
  "gyh_callback_resume_a64 sp s =
     upd_env (\<lambda>e. e\<lparr>xregs := (xregs e)(31 := sp)\<rparr>) (s\<lparr>gyh_cpu_loop_ctx_to := 0\<rparr>)"

definition gyh_call_a64 :: "('w, 'h) gyh_a64 \<Rightarrow> (gyh_abort, ('w, 'h) gyh_a64) result" where
  "gyh_call_a64 s =
     (let x = xregs (env s); sp = x 31
      in bind_result (check (aarch64 (env s)) (AbAssert ''env->aarch64'')) (\<lambda>_.
         bind_result (check (sp AND 0xf = 0) (AbAssert ''(sp & 0xf) == 0'')) (\<lambda>_.
         let s' = s\<lparr>ctxs := (ctxs s)(call_ctx s \<mapsto>
                     CtxCall (sp - 64) (x 0) (ucast (x 1)) (x 2) (x 3) (x 4) (x 5))\<rparr>
         in bind_result (check (gyh_cpu_loop_ctx_to s' = 0) (AbAssert ctx_to_null)) (\<lambda>_.
            Inr (s'\<lparr>gyh_cpu_loop_ctx_to := call_ctx s'\<rparr>)))))"

definition gyh_callback_return_a64 :: "('w, 'h) gyh_a64 \<Rightarrow> (gyh_abort, ('w, 'h) gyh_a64) result" where
  "gyh_callback_return_a64 s =
     bind_result (check (aarch64 (env s)) (AbAssert ''env->aarch64'')) (\<lambda>_.
     let s = upd_env (\<lambda>e. e\<lparr>pc_a64 := xregs e 30\<rparr>) s;
         ctx = xregs (env s) 31
     in bind_result (check (ctx AND 0xf = 0) (AbAssert ''(env->xregs[31] & 0xf) == 0'')) (\<lambda>_.
        bind_result (check (gyh_cpu_loop_ctx_to s = 0) (AbAssert ctx_to_null)) (\<lambda>_.
        Inr (s\<lparr>gyh_cpu_loop_ctx_to := ctx\<rparr>))))"

definition gyh_call_grt_a64 :: "('w, 'h) gyh_a64 \<Rightarrow> (gyh_abort, ('w, 'h) gyh_a64) result" where
  "gyh_call_grt_a64 s =
     (let x = xregs (env s); sp = x 31
      in bind_result (check (aarch64 (env s)) (AbAssert ''env->aarch64'')) (\<lambda>_.
         bind_result (check (sp AND 0xf = 0) (AbAssert ''(sp & 0xf) == 0'')) (\<lambda>_.
         let s' = s\<lparr>ctxs := (ctxs s)(call_grt_ctx s \<mapsto>
                     CtxCallGrt (sp - 64) (x 0) (ucast (x 1)) (x 2) (x 3))\<rparr>
         in bind_result (check (gyh_cpu_loop_ctx_to s' = 0) (AbAssert ctx_to_null)) (\<lambda>_.
            Inr (s'\<lparr>gyh_cpu_loop_ctx_to := call_grt_ctx s'\<rparr>)))))"

definition arch_a64 :: "'w qemu_a64 \<Rightarrow> ('w cpu_a64, 'h) arch" where
  "arch_a64 Q = \<lparr>a_do_cpu = gyh_do_cpu_a64 Q, a_frame = frame_a64, a_callback = gyh_callback_a64,
     a_resume = gyh_callback_resume_a64, a_call = gyh_call_a64,
     a_callback_return = gyh_callback_return_a64, a_call_grt = gyh_call_grt_a64\<rparr>"

text \<open>The trap handler on the traps a runtime call and an interruption raise.\<close>

lemma trap_a64_simps:
  "trap_a64 Q EXCP_SWI sys s = Inr (swi_a64 Q sys (on_cpu (aarch64_set_svcr Q) s))"
  "trap_a64 Q EXCP_INTERRUPT sys s = Inr (s, sys)"
  by (simp_all add: trap_a64_def EXCP_SWI_def EXCP_INTERRUPT_def)

lemma swi_a64_runtime:
  assumes "xregs (env s) 8 > 50000"
  shows "swi_a64 Q sys s = (s, sys\<lparr>num := ucast (xregs (env s) 8), arg1 := xregs (env s) 0,
    arg2 := xregs (env s) 1, arg3 := xregs (env s) 2, arg4 := xregs (env s) 3,
    arg5 := xregs (env s) 4, arg6 := xregs (env s) 5\<rparr>)"
proof -
  have "xregs (env s) 8 \<noteq> 94" using assms by auto
  with assms show ?thesis by (simp add: swi_a64_def Let_def GYH_NR_start_def)
qed

section \<open>The interface holds\<close>

lemma swi_a64_frame: "cpu_frame s (fst (swi_a64 Q sys s')) \<longleftrightarrow> cpu_frame s s'"
  by (simp add: swi_a64_def Let_def case_prod_beta)

lemma trap_a64_frame: "trap_a64 Q t sys s = Inr (s', sys') \<Longrightarrow> cpu_frame s s'"
proof -
  assume a: "trap_a64 Q t sys s = Inr (s', sys')"
  have "cpu_frame s (fst (swi_a64 Q sys (on_cpu (aarch64_set_svcr Q) s)))"
    by (simp add: swi_a64_frame)
  with a show ?thesis
    by (auto simp: trap_a64_def result_simps case_prod_beta split: if_splits)
qed

lemma trap_a64_no_assert: "trap_a64 Q t sys s \<noteq> Inl (AbAssert ctx_to_null)"
  by (auto simp: trap_a64_def fault_signal_def result_simps ctx_to_null_def Let_def split: if_splits)

lemma do_cpu_a64_frame:
  assumes "gyh_do_cpu_a64 Q sys s = Inr (s', sys')" shows "cpu_frame s s'"
proof -
  from assms obtain s1 where "trap_a64 Q (fst (cpu_run Q s)) sys (snd (cpu_run Q s)) = Inr (s1, sys')"
    and s1: "cpu_frame s1 s'"
    by (auto simp: gyh_do_cpu_a64_def result_simps Let_def case_prod_beta split: if_splits)
  then have "cpu_frame (snd (cpu_run Q s)) s1"
    by (intro trap_a64_frame)
  then have "cpu_frame s s1"
    by (rule cpu_frame_trans [rotated]) simp
  from this s1 show ?thesis
    by (rule cpu_frame_trans)
qed

lemma frame_a64_aligned: "frame_a64 al AND 0xf = 0"
  by (simp add: frame_a64_def and.assoc)

definition kept_a64 :: "'w cpu_a64 \<times> mem \<Rightarrow> 'w cpu_a64 \<times> mem \<Rightarrow> bool" where
  "kept_a64 c1 c2 \<longleftrightarrow> xregs (fst c2) 31 = xregs (fst c1) 31 \<and> xregs (fst c2) 30 = xregs (fst c1) 30"

lemmas a64_defs = arch_a64_def gyh_callback_a64_def gyh_callback_resume_a64_def gyh_call_a64_def
  gyh_callback_return_a64_def gyh_call_grt_a64_def upd_env_def Let_def

interpretation a64: gyh_arch "arch_a64 Q" "\<lambda>e. xregs e 31" pc_a64
  "\<lambda>e. [xregs e 0, xregs e 1, xregs e 2, xregs e 3]" aarch64 kept_a64
  for Q
proof unfold_locales
  show "cpu_frame s s'" if "a_do_cpu (arch_a64 Q) st s = Inr (s', sys)" for st s s' sys
    using that by (simp add: arch_a64_def do_cpu_a64_frame)
  show "a_do_cpu (arch_a64 Q) st s \<noteq> Inl (AbAssert ctx_to_null)" for st s
    by (auto simp: arch_a64_def gyh_do_cpu_a64_def result_simps Let_def case_prod_beta trap_a64_no_assert)
qed (auto simp: a64_defs result_simps cpu_frame_def ctx_to_null_def kept_a64_def frame_a64_aligned)

section \<open>Properties\<close>

lemma arch_a64_sel:
  "a_do_cpu (arch_a64 Q) = gyh_do_cpu_a64 Q" "a_frame (arch_a64 Q) = frame_a64"
  "a_callback (arch_a64 Q) = gyh_callback_a64"
  by (simp_all add: arch_a64_def)

text \<open>An emulator core for concrete runs: started at the callback entry it is interrupted once, and
  then executes the stub's final system call.\<close>

definition sample_qemu_a64 :: "unit qemu_a64" where
  "sample_qemu_a64 =
     \<lparr>cpu_exec = \<lambda>(e, m). if pc_a64 e = 0x1000 then (EXCP_INTERRUPT, e\<lparr>pc_a64 := 0x1010\<rparr>, m)
        else (EXCP_SWI, e\<lparr>xregs := (xregs e)(8 := 50906)\<rparr>, m),
      do_syscall = \<lambda>_ c. (0, c), force_sig = \<lambda>_ c. c, force_sig_fault = \<lambda>_ _ _ c. c,
      do_common_semihosting = id, cpu_exec_step_atomic = id, process_pending_signals = id,
      aarch64_set_svcr = id\<rparr>"

definition sample_a64 :: "(unit, unit) gyh_a64" where
  "sample_a64 = sample_gyh
     \<lparr>aarch64 = True, xregs = (\<lambda>_. 0)(31 := 0x8000), pc_a64 = 0x400, syndrome = 0, vaddress = 0,
      tfsr_el0 = 0, exclusive_addr = 0, world_a64 = ()\<rparr>"

text \<open>C4. On AArch64 a callback returns to the host function that made it: however many iterations
  and nested calls lie between, when the guest comes back to the end of its callback stub with
  the stack pointer and link register it was entered with, the loop resumes the rest of the
  host function, with the guest's stack pointer and program counter of before the callback.\<close>

theorem callback_resumes_host_a64:
  assumes "gyh_callback_a64 al cs f r a h s0 = Inr s1"
    and "rounds (arch_a64 Q) H D ps is s1 = Inr s2"
    and "frames_avoid (arch_a64 Q) H D ps (frame_a64 al) is s1"
    and "frame_a64 al \<noteq> 0" "frame_a64 al \<noteq> call_ctx s0" "frame_a64 al \<noteq> call_grt_ctx s0"
    and "gyh_do_cpu_a64 Q (fst i) s2 = Inr (s3, sys)" "num sys = GYH_NR_gyh_callback_return"
    and "xregs (env s3) 31 = xregs (env s1) 31" "xregs (env s3) 30 = xregs (env s1) 30"
    and "aarch64 (env s3)"
  shows "\<exists>s4 s5. emulate_phase (arch_a64 Q) D ps i s2 = Inr s4 \<and>
    switch_phase (arch_a64 Q) H s4 = run_host (arch_a64 Q) H h s5 \<and> gyh_cpu_loop_ctx_to s5 = 0 \<and>
    xregs (env s5) 31 = xregs (env s0) 31 \<and> pc_a64 (env s5) = pc_a64 (env s0) \<and> gmem s5 = gmem s3"
  using a64.callback_resumes [of Q al cs f r a h s0 s1 H D ps "is" s2 i s3 sys] assms
  by (auto simp: kept_a64_def arch_a64_sel)

theorem callback_resumes_host_a64_witness:
  "\<exists>s1 s2 s4 s5. gyh_callback_a64 0x7000 1 2 3 4 () sample_a64 = Inr s1 \<and>
     rounds (arch_a64 sample_qemu_a64) sample_host sample_dl 4096 [(sample_sys, 5)] s1 = Inr s2 \<and>
     emulate_phase (arch_a64 sample_qemu_a64) sample_dl 4096 (sample_sys, 5) s2 = Inr s4 \<and>
     switch_phase (arch_a64 sample_qemu_a64) sample_host s4 =
       run_host (arch_a64 sample_qemu_a64) sample_host () s5 \<and>
     xregs (env s5) 31 = 0x8000 \<and> pc_a64 (env s5) = 0x400"
proof -
  let ?A = "arch_a64 sample_qemu_a64 :: (unit cpu_a64, unit) arch"
  note defs = sample_a64_def sample_qemu_a64_def sample_gyh_def sample_sys_def frame_a64_def
    gyh_callback_a64_def emulate_phase_def gyh_dispatch_def switch_phase_def arch_a64_def
    gyh_do_cpu_a64_def trap_a64_simps swi_a64_runtime cpu_run_def on_cpu_def upd_env_def
    GYH_NR_start_def init_qtab_def Let_def next_frame_def gyh_nr_defs
  obtain s1 where s1: "gyh_callback_a64 0x7000 1 2 3 4 () sample_a64 = Inr s1"
    by (simp add: defs)
  obtain s2 where s2: "rounds ?A sample_host sample_dl 4096 [(sample_sys, 5)] s1 = Inr s2"
    using s1 by (auto simp: defs)
  have av: "frames_avoid ?A sample_host sample_dl 4096 (frame_a64 0x7000) [(sample_sys, 5)] s1"
    using s1 by (auto simp: defs)
  obtain s3 sys where s3: "gyh_do_cpu_a64 sample_qemu_a64 sample_sys s2 = Inr (s3, sys)"
    "num sys = GYH_NR_gyh_callback_return" "xregs (env s3) 31 = xregs (env s1) 31"
    "xregs (env s3) 30 = xregs (env s1) 30" "aarch64 (env s3)"
    using s1 s2 by (auto simp: defs)
  have ini: "frame_a64 0x7000 \<noteq> 0" "frame_a64 0x7000 \<noteq> call_ctx sample_a64"
    "frame_a64 0x7000 \<noteq> call_grt_ctx sample_a64" "xregs (env sample_a64) 31 = 0x8000"
    "pc_a64 (env sample_a64) = 0x400"
    by (simp_all add: frame_a64_def sample_a64_def sample_gyh_def )
  from callback_resumes_host_a64 [OF s1 s2 av ini(1-3), of "(sample_sys, 5)"] s3 ini(4,5) s1 s2
  show ?thesis by auto
qed




end
