(* ===== verification/Gyh_Riscv64.thy ===== *)
theory Gyh_Riscv64
  imports Gyh_Mock
begin

text \<open>
  The RISC-V side of the runtime, \<open>qemu/linux-user/+gyh/riscv64-on.c\<close>, with the proof that
  it satisfies the architecture interface.
\<close>

section \<open>Processor state\<close>

record 'w cpu_rv64 =
  gpr :: "nat \<Rightarrow> u64"
  pc_rv64 :: u64
  elf_flags :: u32
  singlestep_enabled :: bool
  world_rv64 :: 'w

type_synonym ('w, 'h) gyh_rv64 = "('w cpu_rv64, 'h) gyh"

definition RISCV_EXCP_ILLEGAL_INST :: int where "RISCV_EXCP_ILLEGAL_INST = 0x2"
definition RISCV_EXCP_BREAKPOINT :: int where "RISCV_EXCP_BREAKPOINT = 0x3"
definition RISCV_EXCP_U_ECALL :: int where "RISCV_EXCP_U_ECALL = 0x8"
definition RISCV_EXCP_SEMIHOST :: int where "RISCV_EXCP_SEMIHOST = 0x3f"
definition EF_RISCV_RVE :: u32 where "EF_RISCV_RVE = 0x0008"
definition TARGET_ILL_ILLOPC :: int where "TARGET_ILL_ILLOPC = 1"
definition TARGET_NR_riscv_flush_icache :: u64 where "TARGET_NR_riscv_flush_icache = 259"
definition xT0 :: nat where "xT0 = 5"
definition xA0 :: nat where "xA0 = 10"
definition xA7 :: nat where "xA7 = 17"

section \<open>The emulation step\<close>

text \<open>The \<open>gdbstep\<close> label: a trap signal at the current program counter.\<close>

definition gdbstep_rv64 :: "'w cpu_rv64 qemu \<Rightarrow> ('w, 'h) gyh_rv64 \<Rightarrow> ('w, 'h) gyh_rv64" where
  "gdbstep_rv64 Q s = on_cpu (force_sig_fault Q TARGET_SIGTRAP TARGET_TRAP_BRKPT (pc_rv64 (env s))) s"

text \<open>After the kernel's answer: restart, keep the registers, or set the result; then the single
  step.\<close>

definition ecall_done_rv64 :: "'w cpu_rv64 qemu \<Rightarrow> u64 \<Rightarrow> ('w, 'h) gyh_rv64 \<Rightarrow> ('w, 'h) gyh_rv64" where
  "ecall_done_rv64 Q ret s =
     (let s = (if ret = - QEMU_ERESTARTSYS then upd_env (\<lambda>e. e\<lparr>pc_rv64 := pc_rv64 e - 4\<rparr>) s
               else if ret \<noteq> - QEMU_ESIGRETURN then upd_env (\<lambda>e. e\<lparr>gpr := (gpr e)(xA0 := ret)\<rparr>) s
               else s)
      in if singlestep_enabled (env s) then gdbstep_rv64 Q s else s)"

definition ecall_rv64 ::
  "'w cpu_rv64 qemu \<Rightarrow> gyh_DoSyscall \<Rightarrow> ('w, 'h) gyh_rv64 \<Rightarrow> ('w, 'h) gyh_rv64 \<times> gyh_DoSyscall" where
  "ecall_rv64 Q sys s =
     (let s = upd_env (\<lambda>e. e\<lparr>pc_rv64 := pc_rv64 e + 4\<rparr>) s;
          x = gpr (env s)
      in if x xA7 = TARGET_NR_riscv_flush_icache then (ecall_done_rv64 Q 0 s, sys)
         else
           let syscall_num = x (if elf_flags (env s) AND EF_RISCV_RVE \<noteq> 0 then xT0 else xA7);
               s = (if syscall_num = 94 then gyh_atexit s else s)
           in if syscall_num > word_of_nat GYH_NR_start
              then (s, sys\<lparr>num := ucast syscall_num, arg1 := x 10, arg2 := x 11, arg3 := x 12,
                           arg4 := x 13, arg5 := x 14, arg6 := x 15\<rparr>)
              else
                let (ret, s) = kernel_call Q
                      [syscall_num, x 10, x 11, x 12, x 13, x 14, x 15, 0, 0] s
                in (ecall_done_rv64 Q ret s, sys))"

definition trap_rv64 ::
  "'w cpu_rv64 qemu \<Rightarrow> int \<Rightarrow> gyh_DoSyscall \<Rightarrow> ('w, 'h) gyh_rv64
   \<Rightarrow> (gyh_abort, ('w, 'h) gyh_rv64 \<times> gyh_DoSyscall) result" where
  "trap_rv64 Q trapnr sys s =
     (if trapnr = EXCP_INTERRUPT then Inr (s, sys)
      else if trapnr = EXCP_ATOMIC then Inr (on_cpu (cpu_exec_step_atomic Q) s, sys)
      else if trapnr = RISCV_EXCP_U_ECALL then Inr (ecall_rv64 Q sys s)
      else if trapnr = RISCV_EXCP_ILLEGAL_INST then
        Inr (on_cpu (force_sig_fault Q TARGET_SIGILL TARGET_ILL_ILLOPC (pc_rv64 (env s))) s, sys)
      else if trapnr = RISCV_EXCP_BREAKPOINT \<or> trapnr = EXCP_DEBUG then Inr (gdbstep_rv64 Q s, sys)
      else if trapnr = RISCV_EXCP_SEMIHOST then
        Inr (upd_env (\<lambda>e. e\<lparr>pc_rv64 := pc_rv64 e + 4\<rparr>) (on_cpu (do_common_semihosting Q) s), sys)
      else Inl (AbTrap trapnr))"

definition gyh_do_cpu_rv64 ::
  "'w cpu_rv64 qemu \<Rightarrow> gyh_DoSyscall \<Rightarrow> ('w, 'h) gyh_rv64
   \<Rightarrow> (gyh_abort, ('w, 'h) gyh_rv64 \<times> gyh_DoSyscall) result" where
  "gyh_do_cpu_rv64 Q sys s =
     (let (trapnr, s) = cpu_run Q s
      in bind_result (trap_rv64 Q trapnr sys s) (\<lambda>(s, sys).
         Inr (on_cpu (process_pending_signals Q) s, sys)))"

section \<open>Callbacks and calls\<close>

definition frame_rv64 :: "u64 \<Rightarrow> u64" where
  "frame_rv64 al = (al + 16) AND NOT 0xf"

definition gyh_callback_rv64 ::
  "u64 \<Rightarrow> u64 \<Rightarrow> u64 \<Rightarrow> u64 \<Rightarrow> u64 \<Rightarrow> 'h \<Rightarrow> ('w, 'h) gyh_rv64 \<Rightarrow> (gyh_abort, ('w, 'h) gyh_rv64) result" where
  "gyh_callback_rv64 al cbStub func retPad argPad h s =
     bind_result (check (gyh_cpu_loop_ctx_to s = 0) (AbAssert ctx_to_null)) (\<lambda>_.
     let e = env s;
         sp = gpr e 2;
         ctx = frame_rv64 al
     in Inr (s\<lparr>env := e\<lparr>gpr := (gpr e)(10 := retPad, 11 := argPad, 12 := func, 13 := cbStub,
                                      2 := ctx, 1 := pc_rv64 e),
                       pc_rv64 := gyh_cbFunc (qt s)\<rparr>,
               callbacks := callbacks s + 1,
               ctxs := (ctxs s)(ctx \<mapsto> CtxHost sp h)\<rparr>))"

definition gyh_callback_resume_rv64 :: "u64 \<Rightarrow> ('w, 'h) gyh_rv64 \<Rightarrow> ('w, 'h) gyh_rv64" where
  "gyh_callback_resume_rv64 sp s =
     upd_env (\<lambda>e. e\<lparr>gpr := (gpr e)(2 := sp)\<rparr>) (s\<lparr>gyh_cpu_loop_ctx_to := 0\<rparr>)"

definition gyh_call_rv64 :: "('w, 'h) gyh_rv64 \<Rightarrow> (gyh_abort, ('w, 'h) gyh_rv64) result" where
  "gyh_call_rv64 s =
     (let x = gpr (env s); sp = x 2
      in bind_result (check (sp AND 0xf = 0) (AbAssert ''(sp & 0xf) == 0'')) (\<lambda>_.
         let s' = s\<lparr>ctxs := (ctxs s)(call_ctx s \<mapsto>
                     CtxCall (sp - 64) (x 10) (ucast (x 11)) (x 12) (x 13) (x 14) (x 15))\<rparr>
         in bind_result (check (gyh_cpu_loop_ctx_to s' = 0) (AbAssert ctx_to_null)) (\<lambda>_.
            Inr (s'\<lparr>gyh_cpu_loop_ctx_to := call_ctx s'\<rparr>))))"

definition gyh_callback_return_rv64 ::
  "('w, 'h) gyh_rv64 \<Rightarrow> (gyh_abort, ('w, 'h) gyh_rv64) result" where
  "gyh_callback_return_rv64 s =
     (let s = upd_env (\<lambda>e. e\<lparr>pc_rv64 := gpr e 1\<rparr>) s;
          ctx = gpr (env s) 2
      in bind_result (check (ctx AND 0xf = 0) (AbAssert ''(env->gpr[2] & 0xf) == 0'')) (\<lambda>_.
         bind_result (check (gyh_cpu_loop_ctx_to s = 0) (AbAssert ctx_to_null)) (\<lambda>_.
         Inr (s\<lparr>gyh_cpu_loop_ctx_to := ctx\<rparr>))))"

definition gyh_call_grt_rv64 :: "('w, 'h) gyh_rv64 \<Rightarrow> (gyh_abort, ('w, 'h) gyh_rv64) result" where
  "gyh_call_grt_rv64 s =
     (let x = gpr (env s); sp = x 2
      in bind_result (check (sp AND 0xf = 0) (AbAssert ''(sp & 0xf) == 0'')) (\<lambda>_.
         let s' = s\<lparr>ctxs := (ctxs s)(call_grt_ctx s \<mapsto>
                     CtxCallGrt (sp - 64) (x 10) (ucast (x 11)) (x 12) (x 13))\<rparr>
         in bind_result (check (gyh_cpu_loop_ctx_to s' = 0) (AbAssert ctx_to_null)) (\<lambda>_.
            Inr (s'\<lparr>gyh_cpu_loop_ctx_to := call_grt_ctx s'\<rparr>))))"

definition arch_rv64 :: "'w cpu_rv64 qemu \<Rightarrow> ('w cpu_rv64, 'h) arch" where
  "arch_rv64 Q = \<lparr>a_do_cpu = gyh_do_cpu_rv64 Q, a_frame = frame_rv64, a_callback = gyh_callback_rv64,
     a_resume = gyh_callback_resume_rv64, a_call = gyh_call_rv64,
     a_callback_return = gyh_callback_return_rv64, a_call_grt = gyh_call_grt_rv64\<rparr>"

text \<open>The trap handler on the traps a runtime call and an interruption raise.\<close>

lemma trap_rv64_simps:
  "trap_rv64 Q RISCV_EXCP_U_ECALL sys s = Inr (ecall_rv64 Q sys s)"
  "trap_rv64 Q EXCP_INTERRUPT sys s = Inr (s, sys)"
  by (simp_all add: trap_rv64_def RISCV_EXCP_U_ECALL_def EXCP_INTERRUPT_def EXCP_ATOMIC_def)

lemma ecall_rv64_runtime:
  assumes "elf_flags (env s) AND 8 = 0" "gpr (env s) 17 > 50000"
  shows "ecall_rv64 Q sys s = (upd_env (\<lambda>e. e\<lparr>pc_rv64 := pc_rv64 e + 4\<rparr>) s,
    sys\<lparr>num := ucast (gpr (env s) 17), arg1 := gpr (env s) 10,
      arg2 := gpr (env s) 11, arg3 := gpr (env s) 12, arg4 := gpr (env s) 13,
      arg5 := gpr (env s) 14, arg6 := gpr (env s) 15\<rparr>)"
proof -
  have "gpr (env s) 17 \<noteq> 94" "gpr (env s) 17 \<noteq> 259" using assms by auto
  with assms show ?thesis
    by (simp add: ecall_rv64_def Let_def GYH_NR_start_def upd_env_def xA7_def EF_RISCV_RVE_def
        TARGET_NR_riscv_flush_icache_def)
qed

section \<open>The interface holds\<close>

lemma gdbstep_rv64_frame [simp]: "cpu_frame s (gdbstep_rv64 Q s') \<longleftrightarrow> cpu_frame s s'"
  by (simp add: gdbstep_rv64_def)

lemma ecall_done_rv64_frame [simp]: "cpu_frame s (ecall_done_rv64 Q ret s') \<longleftrightarrow> cpu_frame s s'"
  by (simp add: ecall_done_rv64_def Let_def)

lemma ecall_rv64_frame [simp]: "cpu_frame s (fst (ecall_rv64 Q sys s')) \<longleftrightarrow> cpu_frame s s'"
  by (simp add: ecall_rv64_def Let_def case_prod_beta)

lemma trap_rv64_frame:
  assumes "trap_rv64 Q t sys s = Inr (s', sys')" shows "cpu_frame s s'"
proof -
  have "cpu_frame s (fst (ecall_rv64 Q sys s))" by simp
  with assms show ?thesis
    by (auto simp del: ecall_rv64_frame simp: trap_rv64_def split: if_splits)
qed

lemma do_cpu_rv64_frame:
  assumes "gyh_do_cpu_rv64 Q sys s = Inr (s', sys')" shows "cpu_frame s s'"
proof -
  from assms obtain s1 where "trap_rv64 Q (fst (cpu_run Q s)) sys (snd (cpu_run Q s)) = Inr (s1, sys')"
    and s1: "cpu_frame s1 s'"
    by (auto simp: gyh_do_cpu_rv64_def result_simps Let_def case_prod_beta split: if_splits)
  then have "cpu_frame (snd (cpu_run Q s)) s1"
    by (intro trap_rv64_frame)
  then have "cpu_frame s s1"
    by (rule cpu_frame_trans [rotated]) simp
  from this s1 show ?thesis
    by (rule cpu_frame_trans)
qed

lemma frame_rv64_aligned: "frame_rv64 al AND 0xf = 0"
  by (simp add: frame_rv64_def and.assoc)

definition kept_rv64 :: "'w cpu_rv64 \<times> mem \<Rightarrow> 'w cpu_rv64 \<times> mem \<Rightarrow> bool" where
  "kept_rv64 c1 c2 \<longleftrightarrow> gpr (fst c2) 2 = gpr (fst c1) 2 \<and> gpr (fst c2) 1 = gpr (fst c1) 1"

lemmas rv64_defs = arch_rv64_def gyh_callback_rv64_def gyh_callback_resume_rv64_def
  gyh_call_rv64_def gyh_callback_return_rv64_def gyh_call_grt_rv64_def upd_env_def Let_def

interpretation rv64: gyh_arch "arch_rv64 Q" "\<lambda>e. gpr e 2" pc_rv64
  "\<lambda>e. [gpr e 10, gpr e 11, gpr e 12, gpr e 13]" "\<lambda>_. True" kept_rv64
  for Q
proof unfold_locales
  show "cpu_frame s s'" if "a_do_cpu (arch_rv64 Q) st s = Inr (s', sys)" for st s s' sys
    using that by (simp add: arch_rv64_def do_cpu_rv64_frame)
  show "a_do_cpu (arch_rv64 Q) st s \<noteq> Inl (AbAssert ctx_to_null)" for st s
    by (auto simp: arch_rv64_def gyh_do_cpu_rv64_def trap_rv64_def result_simps Let_def case_prod_beta)
qed (auto simp: rv64_defs result_simps cpu_frame_def ctx_to_null_def kept_rv64_def frame_rv64_aligned)

section \<open>Properties\<close>

lemma arch_rv64_sel:
  "a_do_cpu (arch_rv64 Q) = gyh_do_cpu_rv64 Q" "a_frame (arch_rv64 Q) = frame_rv64"
  "a_callback (arch_rv64 Q) = gyh_callback_rv64"
  by (simp_all add: arch_rv64_def)

text \<open>An emulator core for concrete runs: started at the callback entry it is interrupted once, and
  then executes the stub's final system call.\<close>

definition sample_qemu_rv64 :: "unit cpu_rv64 qemu" where
  "sample_qemu_rv64 =
     \<lparr>cpu_exec = \<lambda>(e, m). if pc_rv64 e = 0x1000 then (EXCP_INTERRUPT, e\<lparr>pc_rv64 := 0x1010\<rparr>, m)
        else (RISCV_EXCP_U_ECALL, e\<lparr>gpr := (gpr e)(17 := 50906)\<rparr>, m),
      do_syscall = \<lambda>_ c. (0, c), force_sig = \<lambda>_ c. c, force_sig_fault = \<lambda>_ _ _ c. c,
      do_common_semihosting = id, cpu_exec_step_atomic = id, process_pending_signals = id\<rparr>"

definition sample_rv64 :: "(unit, unit) gyh_rv64" where
  "sample_rv64 = sample_gyh
     \<lparr>gpr = (\<lambda>_. 0)(2 := 0x8000), pc_rv64 = 0x400, elf_flags = 0, singlestep_enabled = False,
      world_rv64 = ()\<rparr>"

text \<open>C5. On RISC-V a callback returns to the host function that made it: however many iterations
  and nested calls lie between, when the guest comes back to the end of its callback stub with
  the stack pointer and return address register it was entered with, the loop resumes the rest of the
  host function, with the guest's stack pointer and program counter of before the callback.\<close>

theorem callback_resumes_host_rv64:
  assumes "gyh_callback_rv64 al cs f r a h s0 = Inr s1"
    and "rounds (arch_rv64 Q) H D ps is s1 = Inr s2"
    and "frames_avoid (arch_rv64 Q) H D ps (frame_rv64 al) is s1"
    and "frame_rv64 al \<noteq> 0" "frame_rv64 al \<noteq> call_ctx s0" "frame_rv64 al \<noteq> call_grt_ctx s0"
    and "gyh_do_cpu_rv64 Q (fst i) s2 = Inr (s3, sys)" "num sys = GYH_NR_gyh_callback_return"
    and "gpr (env s3) 2 = gpr (env s1) 2" "gpr (env s3) 1 = gpr (env s1) 1"
  shows "\<exists>s4 s5. emulate_phase (arch_rv64 Q) D ps i s2 = Inr s4 \<and>
    switch_phase (arch_rv64 Q) H s4 = run_host (arch_rv64 Q) H h s5 \<and> gyh_cpu_loop_ctx_to s5 = 0 \<and>
    gpr (env s5) 2 = gpr (env s0) 2 \<and> pc_rv64 (env s5) = pc_rv64 (env s0) \<and> gmem s5 = gmem s3"
  using rv64.callback_resumes [of Q al cs f r a h s0 s1 H D ps "is" s2 i s3 sys] assms
  by (auto simp: kept_rv64_def arch_rv64_sel)

theorem callback_resumes_host_rv64_witness:
  "\<exists>s1 s2 s4 s5. gyh_callback_rv64 0x7000 1 2 3 4 () sample_rv64 = Inr s1 \<and>
     rounds (arch_rv64 sample_qemu_rv64) sample_host sample_dl 4096 [(sample_sys, 5)] s1 = Inr s2 \<and>
     emulate_phase (arch_rv64 sample_qemu_rv64) sample_dl 4096 (sample_sys, 5) s2 = Inr s4 \<and>
     switch_phase (arch_rv64 sample_qemu_rv64) sample_host s4 =
       run_host (arch_rv64 sample_qemu_rv64) sample_host () s5 \<and>
     gpr (env s5) 2 = 0x8000 \<and> pc_rv64 (env s5) = 0x400"
proof -
  let ?A = "arch_rv64 sample_qemu_rv64 :: (unit cpu_rv64, unit) arch"
  note defs = sample_rv64_def sample_qemu_rv64_def sample_gyh_def sample_sys_def frame_rv64_def
    gyh_callback_rv64_def emulate_phase_def gyh_dispatch_def switch_phase_def arch_rv64_def
    gyh_do_cpu_rv64_def trap_rv64_simps ecall_rv64_runtime xA7_def cpu_run_def on_cpu_def upd_env_def
    GYH_NR_start_def init_qtab_def Let_def next_frame_def gyh_nr_defs
  obtain s1 where s1: "gyh_callback_rv64 0x7000 1 2 3 4 () sample_rv64 = Inr s1"
    by (simp add: defs)
  obtain s2 where s2: "rounds ?A sample_host sample_dl 4096 [(sample_sys, 5)] s1 = Inr s2"
    using s1 by (auto simp: defs)
  have av: "frames_avoid ?A sample_host sample_dl 4096 (frame_rv64 0x7000) [(sample_sys, 5)] s1"
    using s1 by (auto simp: defs)
  obtain s3 sys where s3: "gyh_do_cpu_rv64 sample_qemu_rv64 sample_sys s2 = Inr (s3, sys)"
    "num sys = GYH_NR_gyh_callback_return" "gpr (env s3) 2 = gpr (env s1) 2" "gpr (env s3) 1 = gpr (env s1) 1"
    using s1 s2 by (auto simp: defs)
  have ini: "frame_rv64 0x7000 \<noteq> 0" "frame_rv64 0x7000 \<noteq> call_ctx sample_rv64"
    "frame_rv64 0x7000 \<noteq> call_grt_ctx sample_rv64" "gpr (env sample_rv64) 2 = 0x8000"
    "pc_rv64 (env sample_rv64) = 0x400"
    by (simp_all add: frame_rv64_def sample_rv64_def sample_gyh_def )
  from callback_resumes_host_rv64 [OF s1 s2 av ini(1-3), of "(sample_sys, 5)"] s3 ini(4,5) s1 s2
  show ?thesis by auto
qed




end
