(* ===== verification/Gyh_X86_64.thy ===== *)
theory Gyh_X86_64
  imports Gyh_Mock
begin

text \<open>
  The x86-64 side of the runtime, \<open>qemu/linux-user/+gyh/x86_64-on.c\<close>, with the emulation of
  the vsyscall page and the proof that it satisfies the architecture interface.
\<close>

section \<open>Processor state\<close>

record 'w cpu_x86 =
  regs :: "nat \<Rightarrow> u64"
  eip :: u64
  error_code :: u32
  cr2 :: u64
  orig_ax :: u64
  world_x86 :: 'w

record 'w qemu_x86 = "'w cpu_x86 qemu" +
  access_ok :: "u64 \<Rightarrow> nat \<Rightarrow> 'w cpu_x86 \<times> mem \<Rightarrow> bool"
  get_user_u64 :: "u64 \<Rightarrow> 'w cpu_x86 \<times> mem \<Rightarrow> u64 option"

type_synonym ('w, 'h) gyh_x86 = "('w cpu_x86, 'h) gyh"

definition R_EAX :: nat where "R_EAX = 0"
definition R_ECX :: nat where "R_ECX = 1"
definition R_EDX :: nat where "R_EDX = 2"
definition R_EBX :: nat where "R_EBX = 3"
definition R_ESP :: nat where "R_ESP = 4"
definition R_EBP :: nat where "R_EBP = 5"
definition R_ESI :: nat where "R_ESI = 6"
definition R_EDI :: nat where "R_EDI = 7"

lemmas reg_defs = R_EAX_def R_ECX_def R_EDX_def R_EBX_def R_ESP_def R_EBP_def R_ESI_def R_EDI_def

definition EXCP00_DIVZ :: int where "EXCP00_DIVZ = 0"
definition EXCP01_DB :: int where "EXCP01_DB = 1"
definition EXCP03_INT3 :: int where "EXCP03_INT3 = 3"
definition EXCP04_INTO :: int where "EXCP04_INTO = 4"
definition EXCP05_BOUND :: int where "EXCP05_BOUND = 5"
definition EXCP06_ILLOP :: int where "EXCP06_ILLOP = 6"
definition EXCP0B_NOSEG :: int where "EXCP0B_NOSEG = 11"
definition EXCP0C_STACK :: int where "EXCP0C_STACK = 12"
definition EXCP0D_GPF :: int where "EXCP0D_GPF = 13"
definition EXCP0E_PAGE :: int where "EXCP0E_PAGE = 14"
definition EXCP_SYSCALL :: int where "EXCP_SYSCALL = 0x101"
definition EXCP_VSYSCALL :: int where "EXCP_VSYSCALL = 0x102"
definition PG_ERROR_P_MASK :: u32 where "PG_ERROR_P_MASK = 1"
definition PG_ERROR_W_MASK :: u32 where "PG_ERROR_W_MASK = 2"
definition PG_ERROR_U_MASK :: u32 where "PG_ERROR_U_MASK = 4"
definition TARGET_FPE_INTDIV :: int where "TARGET_FPE_INTDIV = 1"
definition TARGET_EFAULT :: u64 where "TARGET_EFAULT = 14"
definition TARGET_NR_gettimeofday :: u64 where "TARGET_NR_gettimeofday = 96"
definition TARGET_NR_time :: u64 where "TARGET_NR_time = 201"
definition TARGET_NR_getcpu :: u64 where "TARGET_NR_getcpu = 309"

section \<open>The vsyscall page\<close>

definition write_ok_or_segv ::
  "'w qemu_x86 \<Rightarrow> u64 \<Rightarrow> nat \<Rightarrow> ('w, 'h) gyh_x86 \<Rightarrow> bool \<times> ('w, 'h) gyh_x86" where
  "write_ok_or_segv Q addr len s =
     (if addr = 0 \<or> access_ok Q addr len (env s, gmem s) then (True, s)
      else (False, on_cpu (force_sig_fault Q TARGET_SIGSEGV TARGET_SEGV_MAPERR addr)
                     (upd_env (\<lambda>e. e\<lparr>error_code := PG_ERROR_W_MASK OR PG_ERROR_U_MASK\<rparr>) s)))"

text \<open>The system call an entry point of the page stands for.\<close>

definition vsyscall_nr :: "u64 \<Rightarrow> u64 option" where
  "vsyscall_nr ip =
     (let off = ip AND 0xfff
      in if off = 0x000 then Some TARGET_NR_gettimeofday
         else if off = 0x400 then Some TARGET_NR_time
         else if off = 0x800 then Some TARGET_NR_getcpu
         else None)"

text \<open>The check of the pointer arguments; the second is not made when the first fails.\<close>

definition vsyscall_args_ok ::
  "'w qemu_x86 \<Rightarrow> u64 \<Rightarrow> ('w, 'h) gyh_x86 \<Rightarrow> bool \<times> ('w, 'h) gyh_x86" where
  "vsyscall_args_ok Q nr s =
     (let both = (\<lambda>len1 len2.
            let (ok, s1) = write_ok_or_segv Q (regs (env s) R_EDI) len1 s
            in if ok then write_ok_or_segv Q (regs (env s1) R_ESI) len2 s1 else (False, s1))
      in if nr = TARGET_NR_gettimeofday then both 16 8
         else if nr = TARGET_NR_time then write_ok_or_segv Q (regs (env s) R_EDI) 8 s
         else both 4 4)"

definition emulate_vsyscall ::
  "'w qemu_x86 \<Rightarrow> ('w, 'h) gyh_x86 \<Rightarrow> (gyh_abort, ('w, 'h) gyh_x86) result" where
  "emulate_vsyscall Q s =
     (case vsyscall_nr (eip (env s)) of
        None \<Rightarrow> Inr (on_cpu (force_sig Q TARGET_SIGSEGV) s)
      | Some nr \<Rightarrow>
         (case get_user_u64 Q (regs (env s) R_ESP) (env s, gmem s) of
            None \<Rightarrow> Inr (on_cpu (force_sig Q TARGET_SIGSEGV) s)
          | Some caller \<Rightarrow>
              let (ok, s) = vsyscall_args_ok Q nr s
              in if \<not> ok then Inr s
                 else
                   let s = upd_env (\<lambda>e. e\<lparr>orig_ax := nr\<rparr>) s;
                       x = regs (env s);
                       (ret, s) = kernel_call Q [nr, x R_EDI, x R_ESI, x R_EDX, x 10, x 8, x 9, 0, 0] s
                   in bind_result (check (ret \<noteq> - QEMU_ERESTARTSYS)
                        (AbAssert ''ret != -QEMU_ERESTARTSYS'')) (\<lambda>_.
                      bind_result (check (ret \<noteq> - QEMU_ESIGRETURN)
                        (AbAssert ''ret != -QEMU_ESIGRETURN'')) (\<lambda>_.
                      if ret = - TARGET_EFAULT then Inr (on_cpu (force_sig Q TARGET_SIGSEGV) s)
                      else Inr (upd_env (\<lambda>e. e\<lparr>regs := (regs e)(R_EAX := ret, R_ESP := regs e R_ESP + 8),
                                               eip := caller\<rparr>) s)))))"

definition maybe_handle_vm86_trap :: "int \<Rightarrow> ('w, 'h) gyh_x86 \<Rightarrow> bool" where
  "maybe_handle_vm86_trap trapnr s = False"

section \<open>The emulation step\<close>

text \<open>After the kernel's answer; both system call instructions are two bytes long.\<close>

definition syscall_done_x86 :: "u64 \<Rightarrow> ('w, 'h) gyh_x86 \<Rightarrow> ('w, 'h) gyh_x86" where
  "syscall_done_x86 ret s =
     (if ret = - QEMU_ERESTARTSYS then upd_env (\<lambda>e. e\<lparr>eip := eip e - 2\<rparr>) s
      else if ret \<noteq> - QEMU_ESIGRETURN then upd_env (\<lambda>e. e\<lparr>regs := (regs e)(R_EAX := ret)\<rparr>) s
      else s)"

definition int80_x86 ::
  "'w qemu_x86 \<Rightarrow> gyh_DoSyscall \<Rightarrow> ('w, 'h) gyh_x86 \<Rightarrow> ('w, 'h) gyh_x86 \<times> gyh_DoSyscall" where
  "int80_x86 Q sys s =
     (let s = upd_env (\<lambda>e. e\<lparr>orig_ax := regs e R_EAX\<rparr>) s;
          s = (if regs (env s) 8 = 252 then gyh_atexit s else s);
          x = regs (env s)
      in if x R_EAX > word_of_nat GYH_NR_start
         then (s, sys\<lparr>num := ucast (x R_EAX), arg1 := x R_EBX, arg2 := x R_ECX, arg3 := x R_EDX,
                      arg4 := x R_ESI, arg5 := x R_EDI, arg6 := x R_EBP\<rparr>)
         else
           let (ret, s) = kernel_call Q
                 [x R_EAX, x R_EBX, x R_ECX, x R_EDX, x R_ESI, x R_EDI, x R_EBP, 0, 0] s
           in (syscall_done_x86 ret s, sys))"

definition syscall_x86 ::
  "'w qemu_x86 \<Rightarrow> gyh_DoSyscall \<Rightarrow> ('w, 'h) gyh_x86 \<Rightarrow> ('w, 'h) gyh_x86 \<times> gyh_DoSyscall" where
  "syscall_x86 Q sys s =
     (let s = upd_env (\<lambda>e. e\<lparr>orig_ax := regs e R_EAX\<rparr>) s;
          s = (if regs (env s) R_EAX = 231 then gyh_atexit s else s);
          x = regs (env s)
      in if x R_EAX > word_of_nat GYH_NR_start
         then (s, sys\<lparr>num := ucast (x R_EAX), arg1 := x R_EDI, arg2 := x R_ESI, arg3 := x R_EDX,
                      arg4 := x R_ECX, arg5 := x 8, arg6 := x 9\<rparr>)
         else
           let (ret, s) = kernel_call Q
                 [x R_EAX, x R_EDI, x R_ESI, x R_EDX, x 10, x 8, x 9, 0, 0] s
           in (syscall_done_x86 ret s, sys))"

definition trap_x86 ::
  "'w qemu_x86 \<Rightarrow> int \<Rightarrow> gyh_DoSyscall \<Rightarrow> ('w, 'h) gyh_x86
   \<Rightarrow> (gyh_abort, ('w, 'h) gyh_x86 \<times> gyh_DoSyscall) result" where
  "trap_x86 Q trapnr sys s =
     (let sig = (\<lambda>n. Inr (on_cpu (force_sig Q n) s, sys));
          fault = (\<lambda>n code addr. Inr (on_cpu (force_sig_fault Q n code addr) s, sys));
          vm86 = (\<lambda>r. if maybe_handle_vm86_trap trapnr s then Inr (s, sys) else r)
      in if trapnr = 0x80 then Inr (int80_x86 Q sys s)
         else if trapnr = EXCP_SYSCALL then Inr (syscall_x86 Q sys s)
         else if trapnr = EXCP_VSYSCALL then
           bind_result (emulate_vsyscall Q s) (\<lambda>s. Inr (s, sys))
         else if trapnr = EXCP0B_NOSEG \<or> trapnr = EXCP0C_STACK then sig TARGET_SIGBUS
         else if trapnr = EXCP0D_GPF then vm86 (sig TARGET_SIGSEGV)
         else if trapnr = EXCP0E_PAGE then
           fault TARGET_SIGSEGV
             (if error_code (env s) AND PG_ERROR_P_MASK \<noteq> 0 then TARGET_SEGV_ACCERR
              else TARGET_SEGV_MAPERR) (cr2 (env s))
         else if trapnr = EXCP00_DIVZ then vm86 (fault TARGET_SIGFPE TARGET_FPE_INTDIV (eip (env s)))
         else if trapnr = EXCP01_DB then vm86 (fault TARGET_SIGTRAP TARGET_TRAP_BRKPT (eip (env s)))
         else if trapnr = EXCP03_INT3 then vm86 (sig TARGET_SIGTRAP)
         else if trapnr = EXCP04_INTO \<or> trapnr = EXCP05_BOUND then vm86 (sig TARGET_SIGSEGV)
         else if trapnr = EXCP06_ILLOP then fault TARGET_SIGILL TARGET_ILL_ILLOPN (eip (env s))
         else if trapnr = EXCP_INTERRUPT then Inr (s, sys)
         else if trapnr = EXCP_DEBUG then fault TARGET_SIGTRAP TARGET_TRAP_BRKPT (eip (env s))
         else if trapnr = EXCP_ATOMIC then Inr (on_cpu (cpu_exec_step_atomic Q) s, sys)
         else Inl (AbTrap trapnr))"

definition gyh_do_cpu_x86 ::
  "'w qemu_x86 \<Rightarrow> gyh_DoSyscall \<Rightarrow> ('w, 'h) gyh_x86
   \<Rightarrow> (gyh_abort, ('w, 'h) gyh_x86 \<times> gyh_DoSyscall) result" where
  "gyh_do_cpu_x86 Q sys s =
     (let (trapnr, s) = cpu_run Q s
      in bind_result (trap_x86 Q trapnr sys s) (\<lambda>(s, sys).
         Inr (on_cpu (process_pending_signals Q) s, sys)))"

section \<open>Callbacks and calls\<close>

definition frame_x86 :: "u64 \<Rightarrow> u64" where
  "frame_x86 al = (al + 24) AND NOT 0xf"

definition gyh_callback_x86 ::
  "u64 \<Rightarrow> u64 \<Rightarrow> u64 \<Rightarrow> u64 \<Rightarrow> u64 \<Rightarrow> 'h \<Rightarrow> ('w, 'h) gyh_x86 \<Rightarrow> (gyh_abort, ('w, 'h) gyh_x86) result" where
  "gyh_callback_x86 al cbStub func retPad argPad h s =
     bind_result (check (gyh_cpu_loop_ctx_to s = 0) (AbAssert ctx_to_null)) (\<lambda>_.
     let e = env s;
         rsp = regs e R_ESP;
         ctx = frame_x86 al
     in Inr (set_mem (store64 (gmem s) (ctx - 8) (eip e))
              (s\<lparr>env := e\<lparr>regs := (regs e)(R_EDI := retPad, R_ESI := argPad, R_EDX := func,
                                         R_ECX := cbStub, R_ESP := ctx - 8),
                         eip := gyh_cbFunc (qt s)\<rparr>,
                 callbacks := callbacks s + 1,
                 ctxs := (ctxs s)(ctx \<mapsto> CtxHost rsp h)\<rparr>)))"

definition gyh_callback_resume_x86 :: "u64 \<Rightarrow> ('w, 'h) gyh_x86 \<Rightarrow> ('w, 'h) gyh_x86" where
  "gyh_callback_resume_x86 rsp s =
     upd_env (\<lambda>e. e\<lparr>regs := (regs e)(R_ESP := rsp)\<rparr>) (s\<lparr>gyh_cpu_loop_ctx_to := 0\<rparr>)"

definition gyh_call_x86 :: "('w, 'h) gyh_x86 \<Rightarrow> (gyh_abort, ('w, 'h) gyh_x86) result" where
  "gyh_call_x86 s =
     (let x = regs (env s); rsp = x R_ESP
      in bind_result (check (rsp AND 0xf = 0) (AbAssert ''(rsp & 0xf) == 0'')) (\<lambda>_.
         let s' = s\<lparr>ctxs := (ctxs s)(call_ctx s \<mapsto>
                     CtxCall (rsp - 64) (x R_EDI) (ucast (x R_ESI)) (x R_EDX) (x R_ECX) (x 8) (x 9))\<rparr>
         in bind_result (check (gyh_cpu_loop_ctx_to s' = 0) (AbAssert ctx_to_null)) (\<lambda>_.
            Inr (s'\<lparr>gyh_cpu_loop_ctx_to := call_ctx s'\<rparr>))))"

definition gyh_callback_return_x86 :: "('w, 'h) gyh_x86 \<Rightarrow> (gyh_abort, ('w, 'h) gyh_x86) result" where
  "gyh_callback_return_x86 s =
     (let rip = load64 (gmem s) (regs (env s) R_ESP);
          s = upd_env (\<lambda>e. e\<lparr>eip := rip, regs := (regs e)(R_ESP := regs e R_ESP + 8)\<rparr>) s;
          ctx = regs (env s) R_ESP
      in bind_result (check (gyh_cpu_loop_ctx_to s = 0) (AbAssert ctx_to_null)) (\<lambda>_.
         Inr (s\<lparr>gyh_cpu_loop_ctx_to := ctx\<rparr>)))"

definition gyh_call_grt_x86 :: "('w, 'h) gyh_x86 \<Rightarrow> (gyh_abort, ('w, 'h) gyh_x86) result" where
  "gyh_call_grt_x86 s =
     (let x = regs (env s); rsp = x R_ESP
      in bind_result (check (rsp AND 0xf = 0) (AbAssert ''(rsp & 0xf) == 0'')) (\<lambda>_.
         let s' = s\<lparr>ctxs := (ctxs s)(call_grt_ctx s \<mapsto>
                     CtxCallGrt (rsp - 64) (x R_EDI) (ucast (x R_ESI)) (x R_EDX) (x R_ECX))\<rparr>
         in bind_result (check (gyh_cpu_loop_ctx_to s' = 0) (AbAssert ctx_to_null)) (\<lambda>_.
            Inr (s'\<lparr>gyh_cpu_loop_ctx_to := call_grt_ctx s'\<rparr>))))"

definition arch_x86 :: "'w qemu_x86 \<Rightarrow> ('w cpu_x86, 'h) arch" where
  "arch_x86 Q = \<lparr>a_do_cpu = gyh_do_cpu_x86 Q, a_frame = frame_x86, a_callback = gyh_callback_x86,
     a_resume = gyh_callback_resume_x86, a_call = gyh_call_x86,
     a_callback_return = gyh_callback_return_x86, a_call_grt = gyh_call_grt_x86\<rparr>"

text \<open>The trap handler on the traps a runtime call and an interruption raise.\<close>

lemma trap_x86_simps:
  "trap_x86 Q EXCP_SYSCALL sys s = Inr (syscall_x86 Q sys s)"
  "trap_x86 Q 0x80 sys s = Inr (int80_x86 Q sys s)"
  "trap_x86 Q EXCP_INTERRUPT sys s = Inr (s, sys)"
  by (simp_all add: trap_x86_def EXCP_SYSCALL_def EXCP_INTERRUPT_def EXCP_VSYSCALL_def EXCP00_DIVZ_def
      EXCP01_DB_def EXCP03_INT3_def EXCP04_INTO_def EXCP05_BOUND_def EXCP06_ILLOP_def
      EXCP0B_NOSEG_def EXCP0C_STACK_def EXCP0D_GPF_def EXCP0E_PAGE_def)

lemma syscall_x86_runtime:
  assumes "regs (env s) R_EAX > 50000"
  shows "syscall_x86 Q sys s = (upd_env (\<lambda>e. e\<lparr>orig_ax := regs e R_EAX\<rparr>) s,
    sys\<lparr>num := ucast (regs (env s) R_EAX), arg1 := regs (env s) R_EDI,
      arg2 := regs (env s) R_ESI, arg3 := regs (env s) R_EDX, arg4 := regs (env s) R_ECX,
      arg5 := regs (env s) 8, arg6 := regs (env s) 9\<rparr>)"
proof -
  have "regs (env s) R_EAX \<noteq> 231" using assms by auto
  with assms show ?thesis
    by (simp add: syscall_x86_def Let_def GYH_NR_start_def upd_env_def)
qed

section \<open>The interface holds\<close>

lemma write_ok_or_segv_frame [simp]:
  "cpu_frame s (snd (write_ok_or_segv Q addr len s')) \<longleftrightarrow> cpu_frame s s'"
  by (simp add: write_ok_or_segv_def)

lemma vsyscall_args_ok_frame [simp]:
  "cpu_frame s (snd (vsyscall_args_ok Q nr s')) \<longleftrightarrow> cpu_frame s s'"
  by (simp add: vsyscall_args_ok_def Let_def case_prod_beta)

lemma emulate_vsyscall_frame: "emulate_vsyscall Q s = Inr s' \<Longrightarrow> cpu_frame s s'"
  by (auto simp: emulate_vsyscall_def Let_def case_prod_beta result_simps
      split: option.splits if_splits)

lemma emulate_vsyscall_no_assert: "emulate_vsyscall Q s \<noteq> Inl (AbAssert ctx_to_null)"
  by (auto simp: emulate_vsyscall_def Let_def case_prod_beta result_simps ctx_to_null_def
      split: option.splits if_splits)

lemma syscall_done_x86_frame [simp]: "cpu_frame s (syscall_done_x86 ret s') \<longleftrightarrow> cpu_frame s s'"
  by (simp add: syscall_done_x86_def)

lemma int80_x86_frame: "int80_x86 Q sys s = (s', sys') \<Longrightarrow> cpu_frame s s'"
  by (auto simp: int80_x86_def Let_def case_prod_beta split: if_splits)

lemma syscall_x86_frame: "syscall_x86 Q sys s = (s', sys') \<Longrightarrow> cpu_frame s s'"
  by (auto simp: syscall_x86_def Let_def case_prod_beta split: if_splits)

lemma trap_x86_frame: "trap_x86 Q t sys s = Inr (s', sys') \<Longrightarrow> cpu_frame s s'"
  by (auto simp: trap_x86_def Let_def result_simps maybe_handle_vm86_trap_def split: if_splits
      dest: int80_x86_frame syscall_x86_frame emulate_vsyscall_frame)

lemma trap_x86_no_assert: "trap_x86 Q t sys s \<noteq> Inl (AbAssert ctx_to_null)"
  by (auto simp: trap_x86_def Let_def result_simps maybe_handle_vm86_trap_def
      emulate_vsyscall_no_assert split: if_splits)

lemma do_cpu_x86_frame:
  assumes "gyh_do_cpu_x86 Q sys s = Inr (s', sys')" shows "cpu_frame s s'"
proof -
  from assms obtain s1 where "trap_x86 Q (fst (cpu_run Q s)) sys (snd (cpu_run Q s)) = Inr (s1, sys')"
    and s1: "cpu_frame s1 s'"
    by (auto simp: gyh_do_cpu_x86_def result_simps Let_def case_prod_beta split: if_splits)
  then have "cpu_frame (snd (cpu_run Q s)) s1"
    by (intro trap_x86_frame)
  then have "cpu_frame s s1"
    by (rule cpu_frame_trans [rotated]) simp
  from this s1 show ?thesis
    by (rule cpu_frame_trans)
qed

definition kept_x86 :: "'w cpu_x86 \<times> mem \<Rightarrow> 'w cpu_x86 \<times> mem \<Rightarrow> bool" where
  "kept_x86 c1 c2 \<longleftrightarrow> regs (fst c2) R_ESP = regs (fst c1) R_ESP \<and>
     load64 (snd c2) (regs (fst c1) R_ESP) = load64 (snd c1) (regs (fst c1) R_ESP)"

lemmas x86_defs = arch_x86_def gyh_callback_x86_def gyh_callback_resume_x86_def
  gyh_call_x86_def gyh_callback_return_x86_def gyh_call_grt_x86_def upd_env_def Let_def

interpretation x86: gyh_arch "arch_x86 Q" "\<lambda>e. regs e R_ESP" eip
  "\<lambda>e. [regs e R_EDI, regs e R_ESI, regs e R_EDX, regs e R_ECX]" "\<lambda>_. True" kept_x86
  for Q
proof unfold_locales
  show "cpu_frame s s'" if "a_do_cpu (arch_x86 Q) st s = Inr (s', sys)" for st s s' sys
    using that by (simp add: arch_x86_def do_cpu_x86_frame)
  show "a_do_cpu (arch_x86 Q) st s \<noteq> Inl (AbAssert ctx_to_null)" for st s
    by (auto simp: arch_x86_def gyh_do_cpu_x86_def result_simps Let_def case_prod_beta trap_x86_no_assert)
qed (auto simp: x86_defs reg_defs result_simps cpu_frame_def ctx_to_null_def kept_x86_def)

section \<open>Properties\<close>

lemma arch_x86_sel:
  "a_do_cpu (arch_x86 Q) = gyh_do_cpu_x86 Q" "a_frame (arch_x86 Q) = frame_x86"
  "a_callback (arch_x86 Q) = gyh_callback_x86"
  by (simp_all add: arch_x86_def)

text \<open>An emulator core for concrete runs: started at the callback entry it is interrupted once, and
  then executes the stub's final system call.\<close>

definition sample_qemu_x86 :: "unit qemu_x86" where
  "sample_qemu_x86 =
     \<lparr>cpu_exec = \<lambda>(e, m). if eip e = 0x1000 then (EXCP_INTERRUPT, e\<lparr>eip := 0x1010\<rparr>, m)
        else (EXCP_SYSCALL, e\<lparr>regs := (regs e)(R_EAX := 50906)\<rparr>, m),
      do_syscall = \<lambda>_ c. (0, c), force_sig = \<lambda>_ c. c, force_sig_fault = \<lambda>_ _ _ c. c,
      do_common_semihosting = id, cpu_exec_step_atomic = id, process_pending_signals = id,
      access_ok = \<lambda>_ _ _. True, get_user_u64 = \<lambda>_ _. None\<rparr>"

definition sample_x86 :: "(unit, unit) gyh_x86" where
  "sample_x86 = sample_gyh
     \<lparr>regs = (\<lambda>_. 0)(R_ESP := 0x8000), eip = 0x400, error_code = 0, cr2 = 0, orig_ax = 0,
      world_x86 = ()\<rparr>"

text \<open>C6. On x86-64 a callback returns to the host function that made it: however many iterations
  and nested calls lie between, when the guest comes back to the end of its callback stub with
  the stack pointer it was entered with and its return address still on the stack, the loop resumes the rest of the
  host function, with the guest's stack pointer and program counter of before the callback.\<close>

theorem callback_resumes_host_x86:
  assumes "gyh_callback_x86 al cs f r a h s0 = Inr s1"
    and "rounds (arch_x86 Q) H D ps is s1 = Inr s2"
    and "frames_avoid (arch_x86 Q) H D ps (frame_x86 al) is s1"
    and "frame_x86 al \<noteq> 0" "frame_x86 al \<noteq> call_ctx s0" "frame_x86 al \<noteq> call_grt_ctx s0"
    and "gyh_do_cpu_x86 Q (fst i) s2 = Inr (s3, sys)" "num sys = GYH_NR_gyh_callback_return"
    and "regs (env s3) R_ESP = regs (env s1) R_ESP"
    and "load64 (gmem s3) (regs (env s1) R_ESP) = load64 (gmem s1) (regs (env s1) R_ESP)"
  shows "\<exists>s4 s5. emulate_phase (arch_x86 Q) D ps i s2 = Inr s4 \<and>
    switch_phase (arch_x86 Q) H s4 = run_host (arch_x86 Q) H h s5 \<and> gyh_cpu_loop_ctx_to s5 = 0 \<and>
    regs (env s5) R_ESP = regs (env s0) R_ESP \<and> eip (env s5) = eip (env s0) \<and> gmem s5 = gmem s3"
  using x86.callback_resumes [of Q al cs f r a h s0 s1 H D ps "is" s2 i s3 sys] assms
  by (auto simp: kept_x86_def arch_x86_sel)

theorem callback_resumes_host_x86_witness:
  "\<exists>s1 s2 s4 s5. gyh_callback_x86 0x7000 1 2 3 4 () sample_x86 = Inr s1 \<and>
     rounds (arch_x86 sample_qemu_x86) sample_host sample_dl 4096 [(sample_sys, 5)] s1 = Inr s2 \<and>
     emulate_phase (arch_x86 sample_qemu_x86) sample_dl 4096 (sample_sys, 5) s2 = Inr s4 \<and>
     switch_phase (arch_x86 sample_qemu_x86) sample_host s4 =
       run_host (arch_x86 sample_qemu_x86) sample_host () s5 \<and>
     regs (env s5) R_ESP = 0x8000 \<and> eip (env s5) = 0x400"
proof -
  let ?A = "arch_x86 sample_qemu_x86 :: (unit cpu_x86, unit) arch"
  note defs = sample_x86_def sample_qemu_x86_def sample_gyh_def sample_sys_def frame_x86_def
    gyh_callback_x86_def emulate_phase_def gyh_dispatch_def switch_phase_def arch_x86_def
    gyh_do_cpu_x86_def trap_x86_simps syscall_x86_runtime reg_defs cpu_run_def on_cpu_def upd_env_def
    GYH_NR_start_def init_qtab_def Let_def next_frame_def gyh_nr_defs
  obtain s1 where s1: "gyh_callback_x86 0x7000 1 2 3 4 () sample_x86 = Inr s1"
    by (simp add: defs)
  obtain s2 where s2: "rounds ?A sample_host sample_dl 4096 [(sample_sys, 5)] s1 = Inr s2"
    using s1 by (auto simp: defs)
  have av: "frames_avoid ?A sample_host sample_dl 4096 (frame_x86 0x7000) [(sample_sys, 5)] s1"
    using s1 by (auto simp: defs)
  obtain s3 sys where s3: "gyh_do_cpu_x86 sample_qemu_x86 sample_sys s2 = Inr (s3, sys)"
    "num sys = GYH_NR_gyh_callback_return" "regs (env s3) R_ESP = regs (env s1) R_ESP"
    "load64 (gmem s3) (regs (env s1) R_ESP) = load64 (gmem s1) (regs (env s1) R_ESP)"
    using s1 s2 by (auto simp: defs)
  have ini: "frame_x86 0x7000 \<noteq> 0" "frame_x86 0x7000 \<noteq> call_ctx sample_x86"
    "frame_x86 0x7000 \<noteq> call_grt_ctx sample_x86" "regs (env sample_x86) R_ESP = 0x8000"
    "eip (env sample_x86) = 0x400"
    by (simp_all add: frame_x86_def sample_x86_def sample_gyh_def reg_defs)
  from callback_resumes_host_x86 [OF s1 s2 av ini(1-3), of "(sample_sys, 5)"] s3 ini(4,5) s1 s2
  show ?thesis by auto
qed





end
