(* ===== verification/Plug_Ir.thy ===== *)
theory Plug_Ir
  imports Gyh_Prelude "HOL-Library.AList"
begin

text \<open>
  The part of LLVM IR the compiler plugin of \<open>src/lib/gyhcall\<close> reads and writes: types,
  attributes, values, instructions, functions and modules, as data with the fields the plugin
  looks at.  A pointer to a global value (\<open>llvm::Function*\<close>, \<open>llvm::GlobalValue*\<close>) is its
  address \<open>gvptr\<close>; \<open>std::map\<close> and \<open>llvm::DenseMap\<close> are association lists with distinct
  keys, kept in key order for the former (see \<open>map_insert\<close>) and in any order for the latter.
\<close>

section \<open>Types and attributes\<close>

type_synonym gvptr = nat

text \<open>\<open>llvm::Type\<close>.  Pointers are opaque, so a type is a finite tree; an opaque structure has no
  element list.\<close>

datatype ty =
    HalfTy | BFloatTy | FloatTy | DoubleTy | X86_FP80Ty | FP128Ty | PPC_FP128Ty
  | VoidTy | LabelTy | MetadataTy | X86_MMXTy | X86_AMXTy | TokenTy
  | IntegerTy u32
  | FunctionTy (ret_ty: ty) (params: "ty list") (is_vararg: bool)
  | PointerTy u32
  | StructTy string "ty list option" bool
  | ArrayTy ty u64
  | FixedVectorTy ty u32
  | ScalableVectorTy ty u32
  | TypedPointerTy ty u32
  | TargetExtTy string

text \<open>The kinds of attributes the plugin names, and all the others.\<close>

datatype attr_kind = NoAlias | NoCapture | NoUndef | WriteOnly | ReadOnly | NoInline | OptimizeNone
  | OtherKind nat

text \<open>\<open>llvm::Attribute\<close>: invalid, a bare kind, a kind with an integer, a pair of strings, or a kind
  with a type.\<close>

datatype attribute = InvalidAttr | EnumAttr attr_kind | IntAttr attr_kind u64 | StringAttr string string
  | TypeAttr attr_kind ty

text \<open>\<open>llvm::AttributeSet\<close> and \<open>llvm::AttributeList\<close>: the sets of the function, of the return
  value and of the arguments, in this order, up to the last one that is not empty.\<close>

type_synonym attr_set = "attribute list"
type_synonym attr_list = "attr_set list"

section \<open>Values\<close>

datatype aggr = AStruct | AArray | AVector

text \<open>\<open>llvm::Value\<close>: a global value, an argument of the current function, the result of an
  instruction, a basic block, the constants, inline assembly, and metadata used as a value.\<close>

datatype val =
    VGlobal gvptr
  | VArg nat ty
  | VInst nat ty
  | VBlock nat
  | VInt u32 u64
  | VNull
  | VUndef ty
  | VPoison ty
  | VData string
  | VConst ty nat
  | VAggr aggr ty "val list"
  | VExpr nat ty "val list"
  | VOtherConst ty "val list"
  | VAsm string
  | VMeta md
and md = MDConst val | MDLocal val | MDArgList "val list" | MDOther nat

definition ptrTy :: ty where
  "ptrTy = PointerTy 0"

fun val_ty :: "val \<Rightarrow> ty" where
  "val_ty (VGlobal p) = ptrTy"
| "val_ty (VArg i t) = t"
| "val_ty (VInst i t) = t"
| "val_ty (VBlock b) = LabelTy"
| "val_ty (VInt w n) = IntegerTy w"
| "val_ty VNull = ptrTy"
| "val_ty (VUndef t) = t"
| "val_ty (VPoison t) = t"
| "val_ty (VData s) = ArrayTy (IntegerTy 8) (of_nat (length s))"
| "val_ty (VConst t n) = t"
| "val_ty (VAggr k t vs) = t"
| "val_ty (VExpr k t vs) = t"
| "val_ty (VOtherConst t vs) = t"
| "val_ty (VAsm s) = ptrTy"
| "val_ty (VMeta m) = MetadataTy"

section \<open>Instructions, functions, modules\<close>

datatype opcode =
    IndirectBr | Invoke | Resume | CatchSwitch | CatchReturn | CleanupReturn | LandingPad | CatchPad
  | CleanupPad | Call | CallBr | PHI | Ret | Br | CondBr | Load | Store | Alloca | GEP | InsertValue nat
  | ExtractValue nat | InsertElement nat | Xor | ICmpEQ | IntToPtr | BitCast | StackSave | StackRestore
  | OtherOp nat

text \<open>\<open>llvm::Instruction\<close>.  \<open>i_ops\<close> are the operands, and for a call its arguments only: the
  called operand, the function type, the operand bundles and the attributes of a call have fields
  of their own.\<close>

record instr =
  i_id :: nat
  i_name :: string
  i_op :: opcode
  i_ty :: ty
  i_ops :: "val list"
  i_callee :: val
  i_fty :: ty
  i_bundles :: "val list"
  i_attrs :: attr_list

record block =
  b_id :: nat
  b_name :: string
  b_ins :: "instr list"

datatype linkage = ExternalLinkage | InternalLinkage | WeakAnyLinkage | OtherLinkage nat

text \<open>\<open>llvm::Function\<close>; a function with no block is a declaration.  \<open>f_intrinsic\<close> is
  \<open>getIntrinsicID()\<close>, with 0 for \<open>not_intrinsic\<close>.\<close>

record func =
  f_name :: string
  f_fty :: ty
  f_linkage :: linkage
  f_attrs :: attr_list
  f_blocks :: "block list"
  f_intrinsic :: u32
  f_prefix :: "val option"
  f_dso_local :: bool

record gvar =
  g_name :: string
  g_ty :: ty
  g_const :: bool
  g_linkage :: linkage
  g_init :: "val option"
  g_dso_local :: bool

text \<open>\<open>llvm::Module\<close>: its functions, variables and other named values (aliases), and the flags
  metadata.\<close>

record modul =
  m_id :: string
  m_funcs :: "(gvptr \<times> func) list"
  m_gvars :: "(gvptr \<times> gvar) list"
  m_aliases :: "(gvptr \<times> string) list"
  m_layout :: string
  m_flags :: "nat list"

definition is_call :: "instr \<Rightarrow> bool" where
  "is_call i = (i_op i \<in> {Call, Invoke, CallBr})"

definition isDeclaration :: "func \<Rightarrow> bool" where
  "isDeclaration f = (f_blocks f = [])"

definition isIntrinsic :: "func \<Rightarrow> bool" where
  "isIntrinsic f = (f_intrinsic f \<noteq> 0)"

definition isVarArg :: "func \<Rightarrow> bool" where
  "isVarArg f = (case f_fty f of FunctionTy r ps va \<Rightarrow> va | _ \<Rightarrow> False)"

definition all_ins :: "func \<Rightarrow> instr list" where
  "all_ins f = concat (map b_ins (f_blocks f))"

text \<open>The global values of a module with their names, and the symbol table: a value without a name
  has the empty one and no entry.\<close>

definition all_values :: "modul \<Rightarrow> (string \<times> gvptr) list" where
  "all_values m = map (\<lambda>(p, f). (f_name f, p)) (m_funcs m) @
     map (\<lambda>(p, g). (g_name g, p)) (m_gvars m) @ map (\<lambda>(p, n). (n, p)) (m_aliases m)"

definition named_values :: "modul \<Rightarrow> (string \<times> gvptr) list" where
  "named_values m = filter (\<lambda>(n, p). n \<noteq> []) (all_values m)"

definition getNamedValue :: "modul \<Rightarrow> string \<Rightarrow> gvptr option" where
  "getNamedValue m n = map_of (named_values m) n"

text \<open>\<open>getFunction\<close>: the named value, when it is a function.\<close>

definition getFunction :: "modul \<Rightarrow> string \<Rightarrow> gvptr option" where
  "getFunction m n = (case getNamedValue m n of
     None \<Rightarrow> None | Some p \<Rightarrow> if map_of (m_funcs m) p = None then None else Some p)"

definition func_name :: "modul \<Rightarrow> gvptr \<Rightarrow> string" where
  "func_name m p = (case map_of (m_funcs m) p of None \<Rightarrow> [] | Some f \<Rightarrow> f_name f)"

definition gv_name :: "modul \<Rightarrow> gvptr \<Rightarrow> string" where
  "gv_name m p = (case map_of (map (\<lambda>(n, q). (q, n)) (all_values m)) p of None \<Rightarrow> [] | Some n \<Rightarrow> n)"

text \<open>A module: no two global values share an address or a name.\<close>

definition mod_wf :: "modul \<Rightarrow> bool" where
  "mod_wf m \<longleftrightarrow> distinct (map snd (all_values m)) \<and> distinct (map fst (named_values m))"

lemma mod_wf_funcs: "mod_wf m \<Longrightarrow> distinct (map fst (m_funcs m))"
  by (simp add: mod_wf_def all_values_def case_prod_unfold comp_def)

lemma getFunction_iff:
  assumes "mod_wf m"
  shows "getFunction m n = Some p \<longleftrightarrow> n \<noteq> [] \<and> (\<exists>f. (p, f) \<in> set (m_funcs m) \<and> f_name f = n)"
proof
  assume g: "getFunction m n = Some p"
  then obtain f where nv: "getNamedValue m n = Some p" and f: "map_of (m_funcs m) p = Some f"
    by (auto simp: getFunction_def split: option.splits if_splits)
  from f have fin: "(p, f) \<in> set (m_funcs m)" by (rule map_of_SomeD)
  from nv have "(n, p) \<in> set (named_values m)" by (auto simp: getNamedValue_def dest: map_of_SomeD)
  then have np: "n \<noteq> []" "(n, p) \<in> set (all_values m)" by (auto simp: named_values_def)
  have "(f_name f, p) \<in> set (all_values m)" using fin by (force simp: all_values_def)
  with np(2) assms have "f_name f = n"
    by (fastforce simp: mod_wf_def distinct_map inj_on_def)
  with fin np(1) show "n \<noteq> [] \<and> (\<exists>f. (p, f) \<in> set (m_funcs m) \<and> f_name f = n)" by blast
next
  assume "n \<noteq> [] \<and> (\<exists>f. (p, f) \<in> set (m_funcs m) \<and> f_name f = n)"
  then obtain f where f: "n \<noteq> []" "(p, f) \<in> set (m_funcs m)" "f_name f = n" by blast
  then have "(n, p) \<in> set (named_values m)" by (force simp: named_values_def all_values_def)
  with assms have "getNamedValue m n = Some p" by (simp add: getNamedValue_def mod_wf_def)
  moreover have "map_of (m_funcs m) p = Some f" using f mod_wf_funcs [OF assms] by simp
  ultimately show "getFunction m n = Some p" by (simp add: getFunction_def)
qed

lemma func_name_eq: "mod_wf m \<Longrightarrow> (p, f) \<in> set (m_funcs m) \<Longrightarrow> func_name m p = f_name f"
  using mod_wf_funcs [of m] by (simp add: func_name_def)

lemma getFunction_name: "mod_wf m \<Longrightarrow> getFunction m n = Some p \<Longrightarrow> func_name m p = n"
  by (auto simp: getFunction_iff func_name_eq)

text \<open>Ways in which the plugin stops the compiler: a failed cast or assertion, \<open>abort()\<close>, \<open>at()\<close> on a
  key that is not there, a write past the end of a vector, a null pointer where LLVM wants a
  constant, a null pointer followed, and a recursion without end.\<close>

datatype plug_abort = CastFailure | AssertFailed | AbortCalled | KeyMissing | OutOfBounds | NullElement
  | NullPointer | StackOverflow

section \<open>Ordered maps\<close>

text \<open>\<open>std::map\<close>: insertion keeps the keys sorted and never replaces an entry
  (\<open>try_emplace\<close>, \<open>emplace\<close> and node insertion); the result says whether the key was new.\<close>

fun map_insert :: "'k::linorder \<Rightarrow> 'v \<Rightarrow> ('k \<times> 'v) list \<Rightarrow> ('k \<times> 'v) list" where
  "map_insert k v [] = [(k, v)]"
| "map_insert k v ((k', v') # m) =
     (if k < k' then (k, v) # (k', v') # m
      else if k = k' then (k', v') # m
      else (k', v') # map_insert k v m)"

definition map_sorted :: "('k::linorder \<times> 'v) list \<Rightarrow> bool" where
  "map_sorted m = sorted_wrt (<) (map fst m)"

lemma map_insert_keys [simp]: "fst ` set (map_insert k v m) = insert k (fst ` set m)"
  by (induction k v m rule: map_insert.induct) auto

lemma map_sorted_Cons:
  "map_sorted ((k, v) # m) \<longleftrightarrow> (\<forall>x \<in> fst ` set m. k < x) \<and> map_sorted m"
  by (auto simp: map_sorted_def)

lemma map_sorted_Nil [simp]: "map_sorted []"
  by (simp add: map_sorted_def)

lemma map_sorted_distinct: "map_sorted m \<Longrightarrow> distinct (map fst m)"
  by (simp add: map_sorted_def strict_sorted_iff)

lemma map_insert_sorted: "map_sorted m \<Longrightarrow> map_sorted (map_insert k v m)"
proof (induction k v m rule: map_insert.induct)
  case (2 k v k' v' m)
  then show ?case by (auto simp: map_sorted_Cons)
qed (simp add: map_sorted_def)

lemma map_of_map_insert:
  "map_sorted m \<Longrightarrow>
   map_of (map_insert k v m) = (if k \<in> fst ` set m then map_of m else (map_of m)(k \<mapsto> v))"
proof (induction k v m rule: map_insert.induct)
  case (2 k v k' v' m)
  show ?case
  proof (cases "k < k'")
    case True
    then show ?thesis using 2(2) by (auto simp: map_sorted_Cons)
  next
    case False
    then show ?thesis using 2 by (auto simp: map_sorted_Cons fun_upd_twist)
  qed
qed simp

lemma length_map_insert:
  "map_sorted m \<Longrightarrow>
   length (map_insert k v m) = (if k \<in> fst ` set m then length m else Suc (length m))"
  by (induction k v m rule: map_insert.induct) (auto simp: map_sorted_Cons)

lemma set_map_insert:
  "map_sorted m \<Longrightarrow>
   set (map_insert k v m) = (if k \<in> fst ` set m then set m else insert (k, v) (set m))"
proof (induction k v m rule: map_insert.induct)
  case (2 k v k' v' m)
  then show ?case by (cases "k < k'") (auto simp: map_sorted_Cons)
qed simp

end
