(* ===== verification/Plug_Json.thy ===== *)
theory Plug_Json
  imports Plug_Ir
begin

text \<open>
  The JSON values the plugin reads and writes, the conversions of \<open>src/lib/gyhcall/util.cpp\<close>
  and its file functions.  \<open>llvm::json::Object\<close> is an association list with distinct keys (its
  iteration order is the list's); printing, parsing and the file system belong to LLVM and the
  operating system and are arguments.
\<close>

section \<open>Values and errors\<close>

text \<open>A number is an integer, or a floating-point number that is none of the plugin's business.\<close>

datatype json = JNull | JBool bool | JInt int | JDouble int int | JString string | JArray "json list"
  | JObject "(string \<times> json) list"

type_synonym jobject = "(string \<times> json) list"

text \<open>The errors a loader or a file function returns: \<open>Failure\<close> carries no information, a
  file error names the path, the others wrap a message that is not modelled.\<close>

datatype gyh_error = Failure | FileError string | ParseError | StringError gyh_error | NotAHexNumber
  | BadIr

fun getAsObject :: "json \<Rightarrow> jobject option" where
  "getAsObject (JObject kvs) = Some kvs"
| "getAsObject _ = None"

fun getAsArray :: "json \<Rightarrow> json list option" where
  "getAsArray (JArray vs) = Some vs"
| "getAsArray _ = None"

fun getAsBoolean :: "json \<Rightarrow> bool option" where
  "getAsBoolean (JBool b) = Some b"
| "getAsBoolean _ = None"

fun getAsString :: "json \<Rightarrow> string option" where
  "getAsString (JString s) = Some s"
| "getAsString _ = None"

fun getAsUINT64 :: "json \<Rightarrow> u64 option" where
  "getAsUINT64 (JInt i) = (if 0 \<le> i \<and> i < 2 ^ 64 then Some (word_of_int i) else None)"
| "getAsUINT64 _ = None"

text \<open>\<open>jobj[k] = v\<close> and \<open>jobj.get(k)\<close>.\<close>

definition jset :: "string \<Rightarrow> json \<Rightarrow> jobject \<Rightarrow> jobject" where
  "jset k v o1 = AList.update k v o1"

definition jget :: "jobject \<Rightarrow> string \<Rightarrow> json option" where
  "jget o1 k = map_of o1 k"

definition getObject :: "jobject \<Rightarrow> string \<Rightarrow> jobject option" where
  "getObject o1 k = Option.bind (jget o1 k) getAsObject"

definition getArray :: "jobject \<Rightarrow> string \<Rightarrow> json list option" where
  "getArray o1 k = Option.bind (jget o1 k) getAsArray"

section \<open>Conversions: \<open>fromJSON\<close>\<close>

text \<open>Each conversion returns the value, or nothing after reporting at the path.\<close>

definition fromJSON_u32 :: "json \<Rightarrow> u32 option" where
  "fromJSON_u32 e = (case getAsUINT64 e of
     Some s \<Rightarrow> if s \<le> 0xFFFFFFFF then Some (ucast s) else None | None \<Rightarrow> None)"

definition fromJSON_u8 :: "json \<Rightarrow> u8 option" where
  "fromJSON_u8 e = (case getAsUINT64 e of
     Some s \<Rightarrow> if s \<le> 0xFF then Some (ucast s) else None | None \<Rightarrow> None)"

definition fromJSON_u16 :: "json \<Rightarrow> 16 word option" where
  "fromJSON_u16 e = (case getAsUINT64 e of
     Some s \<Rightarrow> if s \<le> 0xFFFF then Some (ucast s) else None | None \<Rightarrow> None)"

definition fromJSON_i8 :: "json \<Rightarrow> 8 word option" where
  "fromJSON_i8 e = (case getAsUINT64 e of
     Some s \<Rightarrow> if s \<le> 127 then Some (ucast s) else None | None \<Rightarrow> None)"

definition fromJSON_i16 :: "json \<Rightarrow> 16 word option" where
  "fromJSON_i16 e = (case getAsUINT64 e of
     Some s \<Rightarrow> if s \<le> 32767 then Some (ucast s) else None | None \<Rightarrow> None)"

text \<open>LLVM's own conversion of an optional value: null is the empty value.\<close>

definition fromJSON_opt :: "(json \<Rightarrow> 'a option) \<Rightarrow> json \<Rightarrow> 'a option option" where
  "fromJSON_opt f e = (if e = JNull then Some None else map_option Some (f e))"

fun fromJSON_list :: "(json \<Rightarrow> 'a option) \<Rightarrow> json \<Rightarrow> 'a list option" where
  "fromJSON_list f (JArray vs) = those (map f vs)"
| "fromJSON_list f _ = None"

definition json_u32 :: "u32 \<Rightarrow> json" where
  "json_u32 w = JInt (uint w)"

definition json_opt_bool :: "bool option \<Rightarrow> json" where
  "json_opt_bool b = (case b of None \<Rightarrow> JNull | Some x \<Rightarrow> JBool x)"

section \<open>Object mapping\<close>

text \<open>\<open>ObjectMapper\<close>: it is valid on an object; \<open>map\<close> needs the key, \<open>mapOptional\<close> leaves the
  field as it is when the key is missing.\<close>

definition omapper :: "json \<Rightarrow> (gyh_error, jobject) result" where
  "omapper j = (case getAsObject j of None \<Rightarrow> Inl Failure | Some o1 \<Rightarrow> Inr o1)"

definition omap :: "jobject \<Rightarrow> string \<Rightarrow> (json \<Rightarrow> 'a option) \<Rightarrow> (gyh_error, 'a) result" where
  "omap o1 k f = (case jget o1 k of None \<Rightarrow> Inl Failure
     | Some e \<Rightarrow> (case f e of None \<Rightarrow> Inl Failure | Some x \<Rightarrow> Inr x))"

definition omapOptional :: "jobject \<Rightarrow> string \<Rightarrow> (json \<Rightarrow> 'a option) \<Rightarrow> 'a \<Rightarrow> (gyh_error, 'a) result" where
  "omapOptional o1 k f x0 = (case jget o1 k of None \<Rightarrow> Inr x0
     | Some e \<Rightarrow> (case f e of None \<Rightarrow> Inl Failure | Some x \<Rightarrow> Inr x))"

text \<open>A range-for loop over the entries of an object or an array whose body may return an
  error.\<close>

fun for_each :: "('b \<Rightarrow> 'a \<Rightarrow> (gyh_error, 'a) result) \<Rightarrow> 'b list \<Rightarrow> 'a \<Rightarrow> (gyh_error, 'a) result" where
  "for_each f [] s = Inr s"
| "for_each f (x # xs) s = bind_result (f x s) (for_each f xs)"

section \<open>Files\<close>

text \<open>The files of the file system: their contents, and which paths can be opened for writing.\<close>

record files =
  content :: "string \<Rightarrow> string option"
  can_open :: "string \<Rightarrow> bool"

text \<open>LLVM's printer and parser.\<close>

record json_io =
  print :: "json \<Rightarrow> string"
  parse :: "string \<Rightarrow> json option"

definition dump_json_file :: "json_io \<Rightarrow> json \<Rightarrow> string \<Rightarrow> files \<Rightarrow> (gyh_error, files) result" where
  "dump_json_file io jval path fs =
     (if \<not> can_open fs path then Inl (FileError path)
      else Inr (fs\<lparr>content := (content fs)(path \<mapsto> print io jval)\<rparr>))"

definition load_json_file ::
  "json_io \<Rightarrow> string \<Rightarrow> (json \<Rightarrow> (gyh_error, 'a) result) \<Rightarrow> files \<Rightarrow> (gyh_error, 'a) result" where
  "load_json_file io path loader fs = (case content fs path of
     None \<Rightarrow> Inl (FileError path)
   | Some buf \<Rightarrow> (case parse io buf of
       None \<Rightarrow> Inl ParseError
     | Some jval \<Rightarrow> (case loader jval of
         Inl err \<Rightarrow> Inl (StringError err)
       | Inr x \<Rightarrow> Inr x)))"

section \<open>Lemmas\<close>

lemma fromJSON_u32_json_u32 [simp]: "fromJSON_u32 (json_u32 w) = Some w"
proof -
  have u: "uint w < 2 ^ 32" using uint_lt2p [of w] by simp
  then have e: "uint (ucast w :: u64) = uint w"
    by (simp add: unsigned_ucast_eq take_bit_int_eq_self_iff)
  then have "(ucast w :: u64) \<le> 0xFFFFFFFF"
    using u by (simp add: word_le_def)
  moreover have "ucast (ucast w :: u64) = w"
    by (rule word_uint_eqI) (simp add: unsigned_ucast_eq e take_bit_word_eq_self)
  ultimately show ?thesis
    using u by (simp add: fromJSON_u32_def json_u32_def)
qed

lemma fromJSON_opt_json_opt_bool [simp]: "fromJSON_opt getAsBoolean (json_opt_bool b) = Some b"
  by (cases b) (simp_all add: fromJSON_opt_def json_opt_bool_def)

lemma jget_jset [simp]: "jget (jset k v o1) k' = (if k = k' then Some v else jget o1 k')"
  by (simp add: jset_def jget_def update_conv')

lemma jget_Nil [simp]: "jget [] k = None"
  by (simp add: jget_def)

lemma omapper_JObject [simp]: "omapper (JObject o1) = Inr o1"
  by (simp add: omapper_def)

lemma omap_jset [simp]:
  "omap (jset k v o1) k' f = (if k = k' then (case f v of None \<Rightarrow> Inl Failure | Some x \<Rightarrow> Inr x)
     else omap o1 k' f)"
  by (simp add: omap_def)

lemma omapOptional_jset [simp]:
  "omapOptional (jset k v o1) k' f x0 = (if k = k' then (case f v of None \<Rightarrow> Inl Failure | Some x \<Rightarrow> Inr x)
     else omapOptional o1 k' f x0)"
  by (simp add: omapOptional_def)

lemma getObject_jset [simp]:
  "getObject (jset k v o1) k' = (if k = k' then getAsObject v else getObject o1 k')"
  by (simp add: getObject_def)

lemma getArray_jset [simp]:
  "getArray (jset k v o1) k' = (if k = k' then getAsArray v else getArray o1 k')"
  by (simp add: getArray_def)

lemma those_map_Some [simp]: "those (map (\<lambda>x. Some (f x)) xs) = Some (map f xs)"
  by (induction xs) auto

text \<open>Loops that fill a map key by key.\<close>

lemma update_new: "k \<notin> fst ` set m \<Longrightarrow> AList.update k v m = m @ [(k, v)]"
  by (induction m) auto

lemma fold_update_append:
  "distinct (map fst (m @ kvs)) \<Longrightarrow> fold (\<lambda>(k, v). AList.update k v) kvs m = m @ kvs"
proof (induction kvs arbitrary: m)
  case (Cons kv kvs)
  then show ?case by (cases kv) (auto simp: update_new)
qed simp

lemma for_each_update:
  assumes "\<And>x s. x \<in> set xs \<Longrightarrow> f x s = Inr (AList.update (k x) (v x) s)"
      and "distinct (map fst m @ map k xs)"
  shows "for_each f xs m = Inr (m @ map (\<lambda>x. (k x, v x)) xs)"
  using assms
proof (induction xs arbitrary: m)
  case (Cons x xs)
  then have "k x \<notin> fst ` set m" by auto
  with Cons show ?case by (auto simp: update_new)
qed simp

lemma fold_jset:
  "distinct (map fst m @ map k xs) \<Longrightarrow>
   fold (\<lambda>x. jset (k x) (v x)) xs m = m @ map (\<lambda>x. (k x, v x)) xs"
proof (induction xs arbitrary: m)
  case (Cons x xs)
  then have "k x \<notin> fst ` set m" by auto
  with Cons show ?case by (auto simp: update_new jset_def)
qed simp

section \<open>Equality of JSON values\<close>

text \<open>Objects are equal when they map the same keys to equal values: the order of the entries is no
  part of the value, and printing sorts them.\<close>

inductive jeq :: "json \<Rightarrow> json \<Rightarrow> bool" where
  jeq_null: "jeq JNull JNull"
| jeq_bool: "jeq (JBool b) (JBool b)"
| jeq_int: "jeq (JInt i) (JInt i)"
| jeq_double: "jeq (JDouble i j) (JDouble i j)"
| jeq_string: "jeq (JString s) (JString s)"
| jeq_array: "list_all2 jeq vs ws \<Longrightarrow> jeq (JArray vs) (JArray ws)"
| jeq_object: "distinct (map fst a) \<Longrightarrow> distinct (map fst b) \<Longrightarrow>
    (\<forall>k. rel_option jeq (map_of a k) (map_of b k)) \<Longrightarrow> jeq (JObject a) (JObject b)"

inductive_simps jeq_simps [simp]:
  "jeq JNull w" "jeq (JBool b) w" "jeq (JInt i) w" "jeq (JDouble i j) w" "jeq (JString s) w"
  "jeq (JArray vs) w"

inductive_cases jeq_objectE: "jeq (JObject a) w"

lemma jeq_getAs:
  assumes "jeq v w"
  shows "getAsBoolean w = getAsBoolean v" "getAsString w = getAsString v" "getAsUINT64 w = getAsUINT64 v"
    "(w = JNull) = (v = JNull)"
  using assms by (cases; simp)+

lemma jeq_fromJSON:
  assumes "jeq v w"
  shows "fromJSON_u32 w = fromJSON_u32 v"
    "fromJSON_opt getAsBoolean w = fromJSON_opt getAsBoolean v"
  using jeq_getAs [OF assms] by (simp_all add: fromJSON_u32_def fromJSON_opt_def)

lemma jeq_strings:
  assumes "list_all2 jeq vs ws"
  shows "map getAsString ws = map getAsString vs"
  using assms by (induction rule: list_all2_induct) (simp_all add: jeq_getAs)

lemma jeq_fromJSON_list:
  "jeq v w \<Longrightarrow> fromJSON_list getAsString w = fromJSON_list getAsString v"
  by (erule jeq.cases) (simp_all add: jeq_strings)

lemma jeq_omap:
  assumes "jeq (JObject a) (JObject b)" "\<And>v w. jeq v w \<Longrightarrow> f w = f v"
  shows "omap b k f = omap a k f" "omapOptional b k f x0 = omapOptional a k f x0"
proof -
  have "rel_option jeq (jget a k) (jget b k)"
    using assms(1) by (auto elim: jeq_objectE simp: jget_def)
  then show "omap b k f = omap a k f" "omapOptional b k f x0 = omapOptional a k f x0"
    using assms(2) by (cases; simp add: omap_def omapOptional_def)+
qed

lemma jeq_getObject:
  "jeq (JObject a) (JObject b) \<Longrightarrow> rel_option (\<lambda>x y. jeq (JObject x) (JObject y)) (getObject a k) (getObject b k)"
proof -
  assume "jeq (JObject a) (JObject b)"
  then have "rel_option jeq (jget a k) (jget b k)"
    by (auto elim: jeq_objectE simp: jget_def)
  then show ?thesis
    by cases (auto simp: getObject_def elim!: jeq.cases intro: jeq_object)
qed

lemma jeq_getArray:
  "jeq (JObject a) (JObject b) \<Longrightarrow> rel_option (list_all2 jeq) (getArray a k) (getArray b k)"
proof -
  assume "jeq (JObject a) (JObject b)"
  then have "rel_option jeq (jget a k) (jget b k)"
    by (auto elim: jeq_objectE simp: jget_def)
  then show ?thesis
    by cases (auto simp: getArray_def elim!: jeq.cases)
qed

text \<open>Every value whose objects have distinct keys equals itself.\<close>

fun jwf :: "json \<Rightarrow> bool" where
  "jwf (JArray vs) = (\<forall>v \<in> set vs. jwf v)"
| "jwf (JObject kvs) = (distinct (map fst kvs) \<and> (\<forall>kv \<in> set kvs. jwf (snd kv)))"
| "jwf _ = True"

lemma jeq_refl: "jwf j \<Longrightarrow> jeq j j"
proof (induction j rule: jwf.induct)
  case (1 vs)
  then show ?case by (auto intro!: list.rel_refl_strong)
next
  case (2 kvs)
  have "rel_option jeq (map_of kvs k) (map_of kvs k)" for k
    using 2 by (cases "map_of kvs k") (force dest: map_of_SomeD)+
  with 2 show ?case by (auto intro: jeq_object)
qed simp_all

section \<open>Codecs\<close>

text \<open>What a pair \<open>dump_json\<close>, \<open>load_json\<close> promises: loading any value equal to a dumped one
  gives back the object, up to an equivalence \<open>eqv\<close> that ignores the order of maps.\<close>

locale json_codec =
  fixes dump :: "'a \<Rightarrow> json"
    and load :: "json \<Rightarrow> (gyh_error, 'a) result"
    and eqv :: "'a \<Rightarrow> 'a \<Rightarrow> bool"
    and valid :: "'a \<Rightarrow> bool"
  assumes load_dump: "valid x \<Longrightarrow> jeq (dump x) j \<Longrightarrow> \<exists>y. load j = Inr y \<and> eqv x y"
begin

lemma file_roundtrip:
  assumes "parse io (print io (dump x)) = Some j" "jeq (dump x) j" "valid x"
    and "dump_json_file io (dump x) path fs = Inr fs'"
  shows "\<exists>y. load_json_file io path load fs' = Inr y \<and> eqv x y"
proof -
  from load_dump [OF assms(3,2)] obtain y where "load j = Inr y" "eqv x y" by blast
  then show ?thesis
    using assms(1,4) by (auto simp: dump_json_file_def load_json_file_def split: if_splits)
qed

end

end
