(* ===== verification/Plug_BwList.thy ===== *)
theory Plug_BwList
  imports Plug_Json
begin

text \<open>
  The black and white lists: \<open>BwList::FuncBw\<close> and \<open>BwList\<close> of \<open>src/lib/gyhcall/BwList.cpp\<close>,
  whose keys are functions of a module, and \<open>PickUp::Config\<close> of \<open>PickUp.cpp\<close>, whose keys are
  names.  Each has its conversions to and from JSON, which are codecs.
\<close>

section \<open>\<open>FuncBw\<close>\<close>

text \<open>Per stage: forbidden, required, or left to the stage.\<close>

record FuncBw =
  mOutline :: "bool option"
  mAnalyze :: "bool option"
  mChopOff :: "bool option"
  mTakeOut :: "bool option"

definition FuncBw_default :: FuncBw where
  "FuncBw_default = \<lparr>mOutline = None, mAnalyze = None, mChopOff = None, mTakeOut = None\<rparr>"

definition FuncBw_dump_json :: "FuncBw \<Rightarrow> jobject" where
  "FuncBw_dump_json b =
     jset ''take-out'' (json_opt_bool (mTakeOut b))
       (jset ''chop-off'' (json_opt_bool (mChopOff b))
         (jset ''analyze'' (json_opt_bool (mAnalyze b))
           (jset ''outline'' (json_opt_bool (mOutline b)) [])))"

definition FuncBw_load_json :: "FuncBw \<Rightarrow> json \<Rightarrow> (gyh_error, FuncBw) result" where
  "FuncBw_load_json b jval =
     bind_result (omapper jval) (\<lambda>om.
     bind_result (omapOptional om ''outline'' (fromJSON_opt getAsBoolean) (mOutline b)) (\<lambda>ol.
     bind_result (omapOptional om ''analyze'' (fromJSON_opt getAsBoolean) (mAnalyze b)) (\<lambda>an.
     bind_result (omapOptional om ''chop-off'' (fromJSON_opt getAsBoolean) (mChopOff b)) (\<lambda>co.
     bind_result (omapOptional om ''take-out'' (fromJSON_opt getAsBoolean) (mTakeOut b)) (\<lambda>tk.
     Inr (b\<lparr>mOutline := ol, mAnalyze := an, mChopOff := co, mTakeOut := tk\<rparr>))))))"

lemma FuncBw_load_jeq:
  assumes "jeq v w"
  shows "FuncBw_load_json b w = FuncBw_load_json b v"
proof (cases v)
  case (JObject a)
  with assms obtain a' where a': "w = JObject a'" "jeq (JObject a) (JObject a')"
    by (auto elim: jeq_objectE)
  show ?thesis
    unfolding JObject a'(1) FuncBw_load_json_def
    by (simp add: jeq_omap [OF a'(2)] jeq_fromJSON)
qed (use assms in \<open>auto simp: FuncBw_load_json_def omapper_def\<close>)

lemma FuncBw_load_dump [simp]: "FuncBw_load_json b (JObject (FuncBw_dump_json x)) = Inr x"
  by (simp add: FuncBw_load_json_def FuncBw_dump_json_def)

interpretation funcbw: json_codec "\<lambda>x. JObject (FuncBw_dump_json x)" "FuncBw_load_json FuncBw_default"
  "(=)" "\<lambda>_. True"
  by unfold_locales (simp add: FuncBw_load_jeq)

section \<open>Loading a map, entry by entry\<close>

text \<open>The body of the loops that fill a map: convert the value, then \<open>m[k] = x\<close>.\<close>

definition load_entry ::
  "(json \<Rightarrow> (gyh_error, 'a) result) \<Rightarrow> string \<times> json \<Rightarrow> (string \<times> 'a) list \<Rightarrow> (gyh_error, (string \<times> 'a) list) result"
where
  "load_entry g kv m = bind_result (g (snd kv)) (\<lambda>x. Inr (AList.update (fst kv) x m))"

text \<open>The same where the key is looked up in the module first, and an unknown one skipped.\<close>

definition load_func_entry ::
  "modul \<Rightarrow> (json \<Rightarrow> (gyh_error, 'a) result) \<Rightarrow> string \<times> json \<Rightarrow> (gvptr \<times> 'a) list \<Rightarrow>
   (gyh_error, (gvptr \<times> 'a) list) result"
where
  "load_func_entry m g kv s = (case getFunction m (fst kv) of
     None \<Rightarrow> Inr s
   | Some p \<Rightarrow> bind_result (g (snd kv)) (\<lambda>x. Inr (AList.update p x s)))"

definition load_bool :: "json \<Rightarrow> (gyh_error, bool) result" where
  "load_bool jval = (case getAsBoolean jval of None \<Rightarrow> Inl Failure | Some b \<Rightarrow> Inr b)"

lemma load_bool_jeq: "jeq v w \<Longrightarrow> load_bool w = load_bool v"
  by (simp add: load_bool_def jeq_getAs)

lemma load_bool_JBool [simp]: "load_bool (JBool b) = Inr b"
  by (simp add: load_bool_def)

section \<open>\<open>BwList\<close>\<close>

record BwList =
  mFuncs :: "(gvptr \<times> FuncBw) list"
  mCallees :: "(gvptr \<times> bool) list"
  mFCPcmChop :: "gvptr list"
  mFCPcmChopOthers :: bool

definition kNULL :: BwList where
  "kNULL = \<lparr>mFuncs = [], mCallees = [], mFCPcmChop = [], mFCPcmChopOthers = False\<rparr>"

definition BwList_dump_json :: "modul \<Rightarrow> BwList \<Rightarrow> jobject" where
  "BwList_dump_json m bw =
     (let funcs = fold (\<lambda>(p, anno). jset (func_name m p) (JObject (FuncBw_dump_json anno))) (mFuncs bw) [];
          callees = fold (\<lambda>(p, b). jset (func_name m p) (JBool b)) (mCallees bw) [];
          fcpcmChop = map (\<lambda>p. JString (func_name m p)) (mFCPcmChop bw) in
      jset ''FCPcmChopOthers'' (JBool (mFCPcmChopOthers bw))
        (jset ''FCPcmChop'' (JArray fcpcmChop)
          (jset ''Callees'' (JObject callees)
            (jset ''Funcs'' (JObject funcs) []))))"

text \<open>The element of the third loop: a name, inserted in the set when the module has the function.\<close>

definition load_chop :: "modul \<Rightarrow> json \<Rightarrow> gvptr list \<Rightarrow> (gyh_error, gvptr list) result" where
  "load_chop m jval s = (case getAsString jval of
     None \<Rightarrow> Inl Failure
   | Some name \<Rightarrow> (case getFunction m name of None \<Rightarrow> Inr s | Some p \<Rightarrow> Inr (if p \<in> set s then s else s @ [p])))"

definition BwList_load_json :: "modul \<Rightarrow> BwList \<Rightarrow> json \<Rightarrow> (gyh_error, BwList) result" where
  "BwList_load_json m bw jval =
     bind_result (omapper jval) (\<lambda>jobj. case getObject jobj ''Funcs'' of
       None \<Rightarrow> Inl Failure
     | Some funcs \<Rightarrow>
     bind_result (for_each (load_func_entry m (\<lambda>v. bind_result (omapper v) (\<lambda>_. FuncBw_load_json FuncBw_default v)))
       funcs (mFuncs bw)) (\<lambda>fs. case getObject jobj ''Callees'' of
       None \<Rightarrow> Inl Failure
     | Some callees \<Rightarrow>
     bind_result (for_each (load_func_entry m load_bool) callees (mCallees bw)) (\<lambda>cs. case getArray jobj ''FCPcmChop'' of
       None \<Rightarrow> Inl Failure
     | Some chop \<Rightarrow>
     bind_result (for_each (load_chop m) chop (mFCPcmChop bw)) (\<lambda>ch.
     bind_result (omap jobj ''FCPcmChopOthers'' getAsBoolean) (\<lambda>others.
     Inr (bw\<lparr>mFuncs := fs, mCallees := cs, mFCPcmChop := ch, mFCPcmChopOthers := others\<rparr>))))))"

definition BwList_to_file :: "json_io \<Rightarrow> modul \<Rightarrow> BwList \<Rightarrow> string \<Rightarrow> files \<Rightarrow> (gyh_error, files) result" where
  "BwList_to_file io m bw path fs = dump_json_file io (JObject (BwList_dump_json m bw)) path fs"

definition BwList_from_file :: "json_io \<Rightarrow> modul \<Rightarrow> string \<Rightarrow> files \<Rightarrow> (gyh_error, BwList) result" where
  "BwList_from_file io m path fs = load_json_file io path (BwList_load_json m kNULL) fs"

section \<open>\<open>PickUp::Config\<close>\<close>

record PickUp_Config =
  cFuncs :: "(string \<times> FuncBw) list"
  cCallees :: "(string \<times> bool) list"
  cFCPcmChop :: "string list"
  cFCPcmChopOthers :: bool

definition PickUp_Config_default :: PickUp_Config where
  "PickUp_Config_default = \<lparr>cFuncs = [], cCallees = [], cFCPcmChop = [], cFCPcmChopOthers = False\<rparr>"

definition PickUp_Config_dump_json :: "PickUp_Config \<Rightarrow> jobject" where
  "PickUp_Config_dump_json c =
     (let funcs = fold (\<lambda>(name, anno). jset name (JObject (FuncBw_dump_json anno))) (cFuncs c) [];
          callees = fold (\<lambda>(name, b). jset name (JBool b)) (cCallees c) [];
          fpcmChop = map JString (cFCPcmChop c) in
      jset ''FCPcmChopOthers'' (JBool (cFCPcmChopOthers c))
        (jset ''FCPcmChop'' (JArray fpcmChop)
          (jset ''Callees'' (JObject callees)
            (jset ''Funcs'' (JObject funcs) []))))"

definition PickUp_Config_load_json :: "PickUp_Config \<Rightarrow> json \<Rightarrow> (gyh_error, PickUp_Config) result" where
  "PickUp_Config_load_json c jval =
     bind_result (omapper jval) (\<lambda>jobj. case getObject jobj ''Funcs'' of
       None \<Rightarrow> Inl Failure
     | Some funcs \<Rightarrow>
     bind_result (for_each (load_entry (FuncBw_load_json FuncBw_default)) funcs (cFuncs c)) (\<lambda>fs.
     case getObject jobj ''Callees'' of
       None \<Rightarrow> Inl Failure
     | Some callees \<Rightarrow>
     bind_result (for_each (load_entry load_bool) callees (cCallees c)) (\<lambda>cs.
     bind_result (omap jobj ''FCPcmChop'' (fromJSON_list getAsString)) (\<lambda>ch.
     bind_result (omap jobj ''FCPcmChopOthers'' getAsBoolean) (\<lambda>others.
     Inr (c\<lparr>cFuncs := fs, cCallees := cs, cFCPcmChop := ch, cFCPcmChopOthers := others\<rparr>))))))"

definition PickUp_Config_to_file :: "json_io \<Rightarrow> PickUp_Config \<Rightarrow> string \<Rightarrow> files \<Rightarrow> (gyh_error, files) result" where
  "PickUp_Config_to_file io c path fs = dump_json_file io (JObject (PickUp_Config_dump_json c)) path fs"

definition PickUp_Config_from_file :: "json_io \<Rightarrow> string \<Rightarrow> files \<Rightarrow> (gyh_error, PickUp_Config) result" where
  "PickUp_Config_from_file io path fs = load_json_file io path (PickUp_Config_load_json PickUp_Config_default) fs"

section \<open>The codecs\<close>

lemma map_of_graph: "map_of (map (\<lambda>x. (k x, f (k x))) xs) y = (if y \<in> k ` set xs then Some (f y) else None)"
  by (induction xs) auto

lemma map_of_restrict:
  assumes "A = fst ` set xs"
  shows "(if k \<in> A then Some (the (map_of xs k)) else None) = map_of xs k"
proof (cases "map_of xs k")
  case None
  then have "k \<notin> A" using assms map_of_eq_None_iff [of xs k] by simp
  with None show ?thesis by simp
next
  case (Some x)
  then show ?thesis using assms by (auto dest: map_of_SomeD intro: rev_image_eqI)
qed

text \<open>A loop over the entries of an object loads the map that was dumped, whatever their order.\<close>

lemma jeq_map_entry:
  assumes "jeq (JObject (map (\<lambda>(k, x). (k, d x)) xs)) (JObject b)" "(k, v) \<in> set b"
  shows "\<exists>x. map_of xs k = Some x \<and> jeq (d x) v"
proof -
  from assms(1) have r: "rel_option jeq (map_of (map (\<lambda>(k, x). (k, d x)) xs) k) (map_of b k)"
    and "distinct (map fst b)"
    by (auto elim: jeq_objectE)
  with assms(2) have "map_of b k = Some v" by simp
  with r show ?thesis
    by (auto simp: map_of_map option_rel_Some2)
qed

lemma jeq_map_keys:
  assumes "jeq (JObject (map (\<lambda>(k, x). (k, d x)) xs)) (JObject b)"
  shows "fst ` set b = fst ` set xs" "distinct (map fst b)" "distinct (map fst xs)"
proof -
  have r: "rel_option jeq (map_of (map (\<lambda>(k, x). (k, d x)) xs) k) (map_of b k)" for k
    using assms by (auto elim: jeq_objectE)
  have "(map_of xs k = None) = (map_of b k = None)" for k
    using r [of k] by (cases "map_of b k") (auto simp: map_of_map option_rel_Some2)
  then show "fst ` set b = fst ` set xs"
    by (metis (no_types, lifting) map_of_eq_None_iff subsetI subset_antisym)
  show "distinct (map fst b)" "distinct (map fst xs)"
    using assms by (auto elim!: jeq_objectE simp: comp_def case_prod_unfold)
qed

lemma load_map:
  assumes j: "jeq (JObject (map (\<lambda>(k, x). (k, d x)) xs)) (JObject b)"
    and g: "\<And>x v. jeq (d x) v \<Longrightarrow> g v = Inr x"
  shows "\<exists>m. for_each (load_entry g) b [] = Inr m \<and> map_of m = map_of xs"
proof -
  note keys = jeq_map_keys [OF j]
  have e: "g v = Inr (the (map_of xs k))" if "(k, v) \<in> set b" for k v
    using jeq_map_entry [OF j that] g by auto
  have "for_each (load_entry g) b [] = Inr ([] @ map (\<lambda>kv. (fst kv, the (map_of xs (fst kv)))) b)"
    by (rule for_each_update) (use e keys in \<open>auto simp: load_entry_def\<close>)
  moreover have "map_of (map (\<lambda>kv. (fst kv, the (map_of xs (fst kv)))) b) k = map_of xs k" for k
    unfolding map_of_graph [of fst "\<lambda>k. the (map_of xs k)" b]
    by (rule map_of_restrict) (simp add: keys(1))
  ultimately show ?thesis by auto
qed

lemma load_func_map:
  assumes j: "jeq (JObject (map (\<lambda>(p, x). (name p, d x)) xs)) (JObject b)"
    and g: "\<And>x v. jeq (d x) v \<Longrightarrow> g v = Inr x"
    and name: "\<forall>p \<in> fst ` set xs. getFunction m (name p) = Some p"
  shows "\<exists>s. for_each (load_func_entry m g) b [] = Inr s \<and> map_of s = map_of xs"
proof -
  have eq: "map (\<lambda>(k, x). (k, d x)) (map (\<lambda>(p, x). (name p, x)) xs) = map (\<lambda>(p, x). (name p, d x)) xs"
    by auto
  have j': "jeq (JObject (map (\<lambda>(k, x). (k, d x)) (map (\<lambda>(p, x). (name p, x)) xs))) (JObject b)"
    unfolding eq by (rule j)
  note keys = jeq_map_keys [OF j']
  have dx: "distinct (map fst xs)"
    using keys(3) distinct_map [of name "map fst xs"] by (simp add: comp_def case_prod_unfold)
  let ?p = "\<lambda>kv. the (getFunction m (fst kv))"
  have e: "getFunction m k = Some (the (getFunction m k)) \<and>
      g v = Inr (the (map_of xs (the (getFunction m k))))" if "(k, v) \<in> set b" for k v
  proof -
    from jeq_map_entry [OF j' that] obtain x where
      x: "map_of (map (\<lambda>(p, x). (name p, x)) xs) k = Some x" "jeq (d x) v" by blast
    from map_of_SomeD [OF x(1)] obtain p where p: "k = name p" "(p, x) \<in> set xs" by auto
    then have "getFunction m k = Some p" using name by force
    with p x dx g show ?thesis by simp
  qed
  have img: "?p ` set b = fst ` set xs"
  proof -
    have "?p ` set b = (\<lambda>k. the (getFunction m k)) ` (fst ` set b)" by (simp add: image_image)
    also have "\<dots> = (\<lambda>p. the (getFunction m (name p))) ` fst ` set xs"
      unfolding keys(1) by (simp add: image_image case_prod_unfold)
    also have "\<dots> = fst ` set xs" using name by force
    finally show ?thesis .
  qed
  have "distinct (map ?p b)"
  proof -
    have "length b = length xs"
      using keys distinct_card [of "map fst b"] distinct_card [of "map fst (map (\<lambda>(p, x). (name p, x)) xs)"]
      by (simp add: image_image)
    moreover have "card (set (map ?p b)) = length xs"
      using img dx distinct_card [of "map fst xs"] by simp
    ultimately show ?thesis by (intro card_distinct) simp
  qed
  moreover have "load_func_entry m g kv s = Inr (AList.update (?p kv) (the (map_of xs (?p kv))) s)"
    if "kv \<in> set b" for kv s
    using e [of "fst kv" "snd kv"] that by (auto simp: load_func_entry_def split: option.splits)
  ultimately have "for_each (load_func_entry m g) b [] =
      Inr ([] @ map (\<lambda>kv. (?p kv, the (map_of xs (?p kv)))) b)"
    by (intro for_each_update) simp_all
  moreover have "map_of (map (\<lambda>kv. (?p kv, the (map_of xs (?p kv)))) b) p = map_of xs p" for p
    unfolding map_of_graph [of ?p "\<lambda>p. the (map_of xs p)" b]
    by (rule map_of_restrict) (rule img)
  ultimately show ?thesis by auto
qed

text \<open>\<open>PickUp::Config\<close>, up to the order of its maps.\<close>

definition PickUp_Config_eq :: "PickUp_Config \<Rightarrow> PickUp_Config \<Rightarrow> bool" where
  "PickUp_Config_eq c c' \<longleftrightarrow> map_of (cFuncs c') = map_of (cFuncs c) \<and> map_of (cCallees c') = map_of (cCallees c) \<and>
     cFCPcmChop c' = cFCPcmChop c \<and> cFCPcmChopOthers c' = cFCPcmChopOthers c"

definition PickUp_Config_valid :: "PickUp_Config \<Rightarrow> bool" where
  "PickUp_Config_valid c \<longleftrightarrow> distinct (map fst (cFuncs c)) \<and> distinct (map fst (cCallees c))"

lemma fold_jset_pair:
  "distinct (map (k \<circ> fst) xs) \<Longrightarrow>
   fold (\<lambda>(x, y). jset (k x) (d y)) xs [] = map (\<lambda>(x, y). (k x, d y)) xs"
  using fold_jset [of "[]" "k \<circ> fst" xs "d \<circ> snd"] by (simp add: case_prod_unfold comp_def)

lemma PickUp_Config_codec:
  assumes "PickUp_Config_valid c" "jeq (JObject (PickUp_Config_dump_json c)) j"
  shows "\<exists>c'. PickUp_Config_load_json PickUp_Config_default j = Inr c' \<and> PickUp_Config_eq c c'"
proof -
  let ?d = "PickUp_Config_dump_json c"
  let ?fs = "map (\<lambda>(k, x). (k, JObject (FuncBw_dump_json x))) (cFuncs c)"
  let ?cs = "map (\<lambda>(k, x). (k, JBool x)) (cCallees c)"
  have f: "fold (\<lambda>(k, x). jset k (JObject (FuncBw_dump_json x))) (cFuncs c) [] = ?fs"
    "fold (\<lambda>(k, x). jset k (JBool x)) (cCallees c) [] = ?cs"
    using assms(1) fold_jset_pair [of "\<lambda>x. x" "cFuncs c" "\<lambda>x. JObject (FuncBw_dump_json x)"]
      fold_jset_pair [of "\<lambda>x. x" "cCallees c" JBool]
    by (simp_all add: PickUp_Config_valid_def comp_def)
  from assms(2) obtain a where a: "j = JObject a" "jeq (JObject ?d) (JObject a)"
    by (auto elim: jeq_objectE)
  have d: "getObject ?d ''Funcs'' = Some ?fs" "getObject ?d ''Callees'' = Some ?cs"
    "omap ?d ''FCPcmChop'' (fromJSON_list getAsString) = Inr (cFCPcmChop c)"
    "omap ?d ''FCPcmChopOthers'' getAsBoolean = Inr (cFCPcmChopOthers c)"
    by (simp_all add: PickUp_Config_dump_json_def Let_def f comp_def)
  obtain fs cs where o: "getObject a ''Funcs'' = Some fs" "jeq (JObject ?fs) (JObject fs)"
    "getObject a ''Callees'' = Some cs" "jeq (JObject ?cs) (JObject cs)"
    using jeq_getObject [OF a(2), of "''Funcs''"] jeq_getObject [OF a(2), of "''Callees''"]
    by (auto simp: d option_rel_Some1)
  obtain m where m: "for_each (load_entry (FuncBw_load_json FuncBw_default)) fs [] = Inr m"
    "map_of m = map_of (cFuncs c)"
    using load_map [OF o(2)] by (metis FuncBw_load_dump FuncBw_load_jeq)
  obtain n where n: "for_each (load_entry load_bool) cs [] = Inr n" "map_of n = map_of (cCallees c)"
    using load_map [OF o(4), of load_bool] by (auto simp: load_bool_def)
  have "omap a ''FCPcmChop'' (fromJSON_list getAsString) = Inr (cFCPcmChop c)"
    "omap a ''FCPcmChopOthers'' getAsBoolean = Inr (cFCPcmChopOthers c)"
    by (simp_all add: d jeq_omap(1) [OF a(2)] jeq_fromJSON_list jeq_getAs)
  with m n o show ?thesis
    by (simp add: PickUp_Config_load_json_def a(1) PickUp_Config_default_def PickUp_Config_eq_def)
qed

interpretation pickup_config: json_codec "\<lambda>c. JObject (PickUp_Config_dump_json c)"
  "PickUp_Config_load_json PickUp_Config_default" PickUp_Config_eq PickUp_Config_valid
  by unfold_locales (rule PickUp_Config_codec)

text \<open>\<open>BwList\<close>, for a module in which the name of each listed function leads back to it.\<close>

definition BwList_eq :: "BwList \<Rightarrow> BwList \<Rightarrow> bool" where
  "BwList_eq b b' \<longleftrightarrow> map_of (mFuncs b') = map_of (mFuncs b) \<and> map_of (mCallees b') = map_of (mCallees b) \<and>
     mFCPcmChop b' = mFCPcmChop b \<and> mFCPcmChopOthers b' = mFCPcmChopOthers b"

definition BwList_valid :: "modul \<Rightarrow> BwList \<Rightarrow> bool" where
  "BwList_valid m b \<longleftrightarrow> distinct (map fst (mFuncs b)) \<and> distinct (map fst (mCallees b)) \<and> distinct (mFCPcmChop b) \<and>
     (\<forall>p \<in> fst ` set (mFuncs b) \<union> fst ` set (mCallees b) \<union> set (mFCPcmChop b).
        getFunction m (func_name m p) = Some p)"

lemma load_chop_map:
  assumes "map getAsString vs = map (\<lambda>p. Some (func_name m p)) ps" "distinct (s @ ps)"
    "\<forall>p \<in> set ps. getFunction m (func_name m p) = Some p"
  shows "for_each (load_chop m) vs s = Inr (s @ ps)"
  using assms
proof (induction vs arbitrary: s ps)
  case (Cons v vs)
  then obtain p ps' where "ps = p # ps'" by (cases ps) auto
  with Cons show ?case by (auto simp: load_chop_def)
qed simp

lemma distinct_names:
  assumes "distinct (map fst xs)" "\<forall>p \<in> fst ` set xs. getFunction m (func_name m p) = Some p"
  shows "distinct (map (func_name m \<circ> fst) xs)"
proof -
  have "inj_on (func_name m) (fst ` set xs)"
    by (rule inj_on_inverseI [of _ "\<lambda>n. the (getFunction m n)"]) (use assms(2) in auto)
  with assms(1) show ?thesis
    by (simp add: distinct_map flip: map_map)
qed

lemma BwList_codec:
  assumes "BwList_valid m b" "jeq (JObject (BwList_dump_json m b)) j"
  shows "\<exists>b'. BwList_load_json m kNULL j = Inr b' \<and> BwList_eq b b'"
proof -
  let ?d = "BwList_dump_json m b"
  let ?fs = "map (\<lambda>(k, x). (func_name m k, JObject (FuncBw_dump_json x))) (mFuncs b)"
  let ?cs = "map (\<lambda>(k, x). (func_name m k, JBool x)) (mCallees b)"
  let ?ch = "map (\<lambda>p. JString (func_name m p)) (mFCPcmChop b)"
  have f: "fold (\<lambda>(k, x). jset (func_name m k) (JObject (FuncBw_dump_json x))) (mFuncs b) [] = ?fs"
    "fold (\<lambda>(k, x). jset (func_name m k) (JBool x)) (mCallees b) [] = ?cs"
    using assms(1) by (simp_all add: BwList_valid_def distinct_names fold_jset_pair)
  from assms(2) obtain a where a: "j = JObject a" "jeq (JObject ?d) (JObject a)"
    by (auto elim: jeq_objectE)
  have d: "getObject ?d ''Funcs'' = Some ?fs" "getObject ?d ''Callees'' = Some ?cs"
    "getArray ?d ''FCPcmChop'' = Some ?ch" "omap ?d ''FCPcmChopOthers'' getAsBoolean = Inr (mFCPcmChopOthers b)"
    by (simp_all add: BwList_dump_json_def Let_def f)
  obtain fs cs ch where o: "getObject a ''Funcs'' = Some fs" "jeq (JObject ?fs) (JObject fs)"
    "getObject a ''Callees'' = Some cs" "jeq (JObject ?cs) (JObject cs)"
    "getArray a ''FCPcmChop'' = Some ch" "list_all2 jeq ?ch ch"
    using jeq_getObject [OF a(2), of "''Funcs''"] jeq_getObject [OF a(2), of "''Callees''"]
      jeq_getArray [OF a(2), of "''FCPcmChop''"]
    by (auto simp: d option_rel_Some1)
  have load: "bind_result (omapper v) (\<lambda>_. FuncBw_load_json FuncBw_default v) = Inr x"
    if "jeq (JObject (FuncBw_dump_json x)) v" for x v
    using that FuncBw_load_jeq [OF that, of FuncBw_default] by (auto elim!: jeq_objectE)
  obtain s where s: "for_each (load_func_entry m (\<lambda>v. bind_result (omapper v) (\<lambda>_. FuncBw_load_json FuncBw_default v)))
      fs [] = Inr s" "map_of s = map_of (mFuncs b)"
    using load_func_map [OF o(2), of "\<lambda>v. bind_result (omapper v) (\<lambda>_. FuncBw_load_json FuncBw_default v)" m, OF load]
      assms(1) by (auto simp: BwList_valid_def)
  obtain n where n: "for_each (load_func_entry m load_bool) cs [] = Inr n" "map_of n = map_of (mCallees b)"
    using load_func_map [OF o(4), of load_bool m] assms(1) by (auto simp: load_bool_def BwList_valid_def)
  have "for_each (load_chop m) ch [] = Inr ([] @ mFCPcmChop b)"
    by (rule load_chop_map) (use assms(1) jeq_strings [OF o(6)] in \<open>auto simp: BwList_valid_def\<close>)
  moreover have "omap a ''FCPcmChopOthers'' getAsBoolean = Inr (mFCPcmChopOthers b)"
    by (simp add: d jeq_omap(1) [OF a(2)] jeq_getAs)
  ultimately show ?thesis
    using s n o by (simp add: BwList_load_json_def a(1) kNULL_def BwList_eq_def)
qed

interpretation bwlist: json_codec "\<lambda>b. JObject (BwList_dump_json m b)" "BwList_load_json m kNULL"
  BwList_eq "BwList_valid m" for m
  by unfold_locales (rule BwList_codec)

end
