(* ===== verification/Plug_PickUp.thy ===== *)
theory Plug_PickUp
  imports Plug_BwList "HOL-Library.Multiset"
begin

text \<open>
  The first stage of the plugin, \<open>PickUp\<close> of \<open>src/lib/gyhcall/PickUp.cpp\<close>: it fills the black
  and white lists of a module from source annotations, from the built-in list of intrinsics the
  host side has too, and from the configuration.
\<close>

section \<open>The intrinsics the host side has\<close>

definition whites_codegen :: "string list" where
  "whites_codegen =
    [''stacksave'', ''stackrestore'']"

definition whites_library :: "string list" where
  "whites_library =
    [''abs'', ''smax'', ''smin'', ''umax'', ''umin'', ''memcpy'', ''memcpy_inline'', ''memmove'',
     ''memset'', ''memset_inline'', ''sqrt'', ''powi'', ''sin'', ''cos'', ''pow'', ''exp'', ''exp2'',
     ''exp10'', ''ldexp'', ''frexp'', ''log'', ''log10'', ''log2'', ''fma'', ''fabs'']"

definition whites_fp :: "string list" where
  "whites_fp =
    [''minnum'', ''maxnum'', ''minimum'', ''maximum'', ''copysign'', ''floor'', ''ceil'', ''trunc'',
     ''rint'', ''nearbyint'', ''round'', ''roundeven'', ''lround'', ''llround'', ''lrint'',
     ''llrint'']"

definition whites_constrained :: "string list" where
  "whites_constrained =
    [''experimental_constrained_fadd'', ''experimental_constrained_fsub'',
     ''experimental_constrained_fmul'', ''experimental_constrained_fdiv'',
     ''experimental_constrained_frem'', ''experimental_constrained_fma'',
     ''experimental_constrained_fptoui'', ''experimental_constrained_fptosi'',
     ''experimental_constrained_uitofp'', ''experimental_constrained_sitofp'',
     ''experimental_constrained_fptrunc'', ''experimental_constrained_fpext'',
     ''experimental_constrained_fcmp'', ''experimental_constrained_fcmps'',
     ''experimental_constrained_fmuladd'']"

definition whites_constrained_libm :: "string list" where
  "whites_constrained_libm =
    [''experimental_constrained_sqrt'', ''experimental_constrained_pow'',
     ''experimental_constrained_powi'', ''experimental_constrained_ldexp'',
     ''experimental_constrained_sin'', ''experimental_constrained_cos'',
     ''experimental_constrained_exp'', ''experimental_constrained_exp2'',
     ''experimental_constrained_log'', ''experimental_constrained_log10'',
     ''experimental_constrained_log2'', ''experimental_constrained_rint'',
     ''experimental_constrained_lrint'', ''experimental_constrained_llrint'',
     ''experimental_constrained_nearbyint'', ''experimental_constrained_maxnum'',
     ''experimental_constrained_minnum'', ''experimental_constrained_maximum'',
     ''experimental_constrained_minimum'', ''experimental_constrained_ceil'',
     ''experimental_constrained_floor'', ''experimental_constrained_round'',
     ''experimental_constrained_roundeven'', ''experimental_constrained_lround'',
     ''experimental_constrained_llround'', ''experimental_constrained_trunc'',
     ''experimental_noalias_scope_decl'']"

definition whites_arith :: "string list" where
  "whites_arith =
    [''bitreverse'', ''bswap'', ''ctpop'', ''ctlz'', ''cttz'', ''fshl'', ''fshr'',
     ''sadd_with_overflow'', ''uadd_with_overflow'', ''ssub_with_overflow'', ''usub_with_overflow'',
     ''smul_with_overflow'', ''umul_with_overflow'', ''sadd_sat'', ''uadd_sat'', ''ssub_sat'',
     ''usub_sat'', ''sshl_sat'', ''ushl_sat'', ''smul_fix'', ''umul_fix'', ''smul_fix_sat'',
     ''umul_fix_sat'', ''sdiv_fix'', ''udiv_fix'', ''sdiv_fix_sat'', ''udiv_fix_sat'',
     ''canonicalize'', ''fmuladd'']"

definition whites_vector :: "string list" where
  "whites_vector =
    [''vector_reduce_add'', ''vector_reduce_fadd'', ''vector_reduce_mul'', ''vector_reduce_fmul'',
     ''vector_reduce_and'', ''vector_reduce_or'', ''vector_reduce_xor'', ''vector_reduce_smax'',
     ''vector_reduce_smin'', ''vector_reduce_umax'', ''vector_reduce_umin'', ''vector_reduce_fmax'',
     ''vector_reduce_fmin'', ''vector_reduce_fmaximum'', ''vector_reduce_fminimum'',
     ''vector_insert'', ''vector_extract'', ''matrix_transpose'', ''matrix_multiply'',
     ''matrix_column_major_load'', ''matrix_column_major_store'', ''fptoui_sat'', ''fptosi_sat'',
     ''fptrunc_round'']"

definition whites_debug :: "string list" where
  "whites_debug =
    [''dbg_assign'', ''dbg_declare'', ''dbg_label'', ''dbg_value'']"

definition whites_vp :: "string list" where
  "whites_vp =
    [''vp_select'', ''vp_merge'', ''vp_add'', ''vp_sub'', ''vp_mul'', ''vp_sdiv'', ''vp_udiv'',
     ''vp_srem'', ''vp_urem'', ''vp_ashr'', ''vp_lshr'', ''vp_shl'', ''vp_or'', ''vp_and'',
     ''vp_xor'', ''vp_abs'', ''vp_smax'', ''vp_smin'', ''vp_umax'', ''vp_umin'', ''vp_copysign'',
     ''vp_minnum'', ''vp_maxnum'', ''vp_minimum'', ''vp_maximum'', ''vp_fadd'', ''vp_fsub'',
     ''vp_fmul'', ''vp_fdiv'', ''vp_frem'', ''vp_fneg'', ''vp_fabs'', ''vp_sqrt'', ''vp_fma'',
     ''vp_fmuladd'', ''vp_reduce_add'', ''vp_reduce_fadd'', ''vp_reduce_mul'', ''vp_reduce_fmul'',
     ''vp_reduce_and'', ''vp_reduce_or'', ''vp_reduce_xor'', ''vp_reduce_smax'', ''vp_reduce_smin'',
     ''vp_reduce_umax'', ''vp_reduce_umin'', ''vp_reduce_fmax'', ''vp_reduce_fmin'',
     ''get_active_lane_mask'', ''experimental_vp_splice'', ''experimental_vp_reverse'', ''vp_load'',
     ''vp_store'', ''experimental_vp_strided_load'', ''experimental_vp_strided_store'',
     ''vp_gather'', ''vp_scatter'', ''vp_trunc'', ''vp_zext'', ''vp_sext'', ''vp_fptrunc'',
     ''vp_fpext'', ''vp_fptoui'', ''vp_fptosi'', ''vp_uitofp'', ''vp_sitofp'', ''vp_ptrtoint'',
     ''vp_inttoptr'', ''vp_fcmp'', ''vp_icmp'', ''vp_ceil'', ''vp_floor'', ''vp_rint'',
     ''vp_nearbyint'', ''vp_round'', ''vp_roundeven'', ''vp_roundtozero'', ''vp_bitreverse'',
     ''vp_bswap'', ''vp_ctpop'', ''vp_ctlz'', ''vp_cttz'', ''vp_fshl'', ''vp_fshr'',
     ''vp_is_fpclass'']"

definition whites_masked :: "string list" where
  "whites_masked =
    [''masked_load'', ''masked_store'', ''masked_gather'', ''masked_scatter'', ''masked_expandload'',
     ''masked_compressstore'']"

definition whites_general :: "string list" where
  "whites_general =
    [''lifetime_start'', ''lifetime_end'', ''invariant_start'', ''invariant_end'',
     ''launder_invariant_group'', ''strip_invariant_group'', ''is_fpclass'', ''var_annotation'',
     ''ptr_annotation'', ''annotation'', ''objectsize'', ''expect'', ''expect_with_probability'',
     ''assume'', ''donothing'', ''is_constant'', ''ptrmask'']"

definition kWhites :: "string list" where
  "kWhites = whites_codegen @ whites_library @ whites_fp @ whites_constrained @ whites_constrained_libm @
     whites_arith @ whites_vector @ whites_debug @ whites_vp @ whites_masked @ whites_general"

text \<open>The sort that runs at compile time, loop by loop: \<open>bubble_inner\<close> from \<open>j = 1\<close> to \<open>j < i\<close>,
  \<open>bubble_outer\<close> from \<open>i = size\<close> down to 1.\<close>

function bubble_inner :: "nat \<Rightarrow> nat \<Rightarrow> 'a::linorder list \<Rightarrow> 'a list" where
  "bubble_inner j i ret =
     (if j < i
      then bubble_inner (Suc j) i
        (if ret ! (j - 1) > ret ! j then ret[j - 1 := ret ! j, j := ret ! (j - 1)] else ret)
      else ret)"
  by pat_completeness auto
termination by (relation "measure (\<lambda>(j, i, ret). i - j)") auto

declare bubble_inner.simps [simp del]

fun bubble_outer :: "nat \<Rightarrow> 'a::linorder list \<Rightarrow> 'a list" where
  "bubble_outer 0 ret = ret"
| "bubble_outer (Suc i) ret = bubble_outer i (bubble_inner 1 (Suc i) ret)"

text \<open>The sorted array of identifiers, closed by the guard \<open>UINT_MAX\<close>.  The numbers of the
  intrinsics are LLVM's.\<close>

definition kSortedWhites :: "(string \<Rightarrow> u32) \<Rightarrow> u32 list" where
  "kSortedWhites iid = (let ret = map iid kWhites @ [0xFFFFFFFF] in bubble_outer (length ret) ret)"

text \<open>\<open>*llvm::lower_bound(xs, v)\<close>: the first element of a sorted range that is not below \<open>v\<close>;
  past the end there is none.\<close>

definition lower_bound :: "'a::linorder list \<Rightarrow> 'a \<Rightarrow> 'a option" where
  "lower_bound xs v = (case dropWhile (\<lambda>x. x < v) xs of [] \<Rightarrow> None | x # _ \<Rightarrow> Some x)"

section \<open>The three sources of the lists\<close>

definition getGlobalVariable :: "modul \<Rightarrow> string \<Rightarrow> gvar option" where
  "getGlobalVariable m n = (case getNamedValue m n of None \<Rightarrow> None
     | Some p \<Rightarrow> (case map_of (m_gvars m) p of None \<Rightarrow> None
       | Some g \<Rightarrow> if g_linkage g = InternalLinkage then None else Some g))"

definition getAsCString :: "string \<Rightarrow> string option" where
  "getAsCString s = (if s \<noteq> [] \<and> last s = CHR 0x00 \<and> CHR 0x00 \<notin> set (butlast s)
     then Some (butlast s) else None)"

text \<open>The annotation a string stands for.\<close>

definition annotate :: "string \<Rightarrow> FuncBw \<Rightarrow> FuncBw option" where
  "annotate info anno =
     (if info = ''gyhcall:outline'' then Some (anno\<lparr>mOutline := Some True\<rparr>)
      else if info = ''gyhcall:no-outline'' then Some (anno\<lparr>mOutline := Some False\<rparr>)
      else if info = ''gyhcall:analyze'' then Some (anno\<lparr>mAnalyze := Some True\<rparr>)
      else if info = ''gyhcall:no-analyze'' then Some (anno\<lparr>mAnalyze := Some False\<rparr>)
      else if info = ''gyhcall:chop-off'' then Some (anno\<lparr>mChopOff := Some True\<rparr>)
      else if info = ''gyhcall:no-chop-off'' then Some (anno\<lparr>mChopOff := Some False\<rparr>)
      else if info = ''gyhcall:take-out'' then Some (anno\<lparr>mTakeOut := Some True\<rparr>)
      else if info = ''gyhcall:no-take-out'' then Some (anno\<lparr>mTakeOut := Some False\<rparr>)
      else None)"

text \<open>The casts: a global value, the constant string a variable holds, the first two operands of a
  constant structure.\<close>

fun as_global :: "val \<Rightarrow> gvptr option" where
  "as_global (VGlobal p) = Some p"
| "as_global _ = None"

fun as_data :: "val \<Rightarrow> string option" where
  "as_data (VData s) = Some s"
| "as_data _ = None"

fun struct_pair :: "val \<Rightarrow> (val \<times> val) option" where
  "struct_pair (VAggr AStruct t (f # i # vs)) = Some (f, i)"
| "struct_pair _ = None"

text \<open>The string an annotation entry points to: a variable initialised with a C string.\<close>

definition anno_info :: "modul \<Rightarrow> val \<Rightarrow> (plug_abort, string) result" where
  "anno_info m v = (case Option.bind (as_global v) (map_of (m_gvars m)) of
     None \<Rightarrow> Inl CastFailure
   | Some g \<Rightarrow> (case Option.bind (g_init g) as_data of
       None \<Rightarrow> Inl CastFailure
     | Some s \<Rightarrow> (case getAsCString s of None \<Rightarrow> Inl AssertFailed | Some info \<Rightarrow> Inr info)))"

definition do_annotation_op :: "modul \<Rightarrow> val \<Rightarrow> BwList \<Rightarrow> (plug_abort, BwList) result" where
  "do_annotation_op m op1 bw = (case struct_pair op1 of
     None \<Rightarrow> Inl CastFailure
   | Some (f, i) \<Rightarrow> (case as_global f of
       None \<Rightarrow> Inr bw
     | Some p \<Rightarrow>
         if map_of (m_funcs m) p = None then Inr bw
         else bind_result (anno_info m i) (\<lambda>info.
           let anno = (case map_of (mFuncs bw) p of None \<Rightarrow> FuncBw_default | Some b \<Rightarrow> b) in
           case annotate info anno of
             None \<Rightarrow> Inr bw
           | Some anno' \<Rightarrow> Inr (bw\<lparr>mFuncs := AList.update p anno' (mFuncs bw)\<rparr>))))"

fun do_annotation_ops :: "modul \<Rightarrow> val list \<Rightarrow> BwList \<Rightarrow> (plug_abort, BwList) result" where
  "do_annotation_ops m [] bw = Inr bw"
| "do_annotation_ops m (op1 # ops) bw = bind_result (do_annotation_op m op1 bw) (do_annotation_ops m ops)"

text \<open>The entries of the annotation table, when it is a constant array of structures with two
  elements or more.\<close>

fun anno_entries :: "val \<Rightarrow> val list option" where
  "anno_entries (VAggr AArray (ArrayTy (StructTy n (Some ts) pk) k) ops) =
     (if length ts < 2 then None else Some ops)"
| "anno_entries _ = None"

definition do_annotation :: "modul \<Rightarrow> BwList \<Rightarrow> (plug_abort, BwList) result" where
  "do_annotation m bw = (case getGlobalVariable m ''llvm.global.annotations'' of
     None \<Rightarrow> Inr bw
   | Some gv \<Rightarrow> (case g_init gv of
       None \<Rightarrow> Inl AssertFailed
     | Some v \<Rightarrow> (case anno_entries v of None \<Rightarrow> Inr bw | Some ops \<Rightarrow> do_annotation_ops m ops bw)))"

text \<open>An intrinsic that is not on the list becomes a forbidden callee.  Past the end of the array
  nothing could be read; the guard rules this out.\<close>

definition do_builtins_func :: "(string \<Rightarrow> u32) \<Rightarrow> gvptr \<times> func \<Rightarrow> BwList \<Rightarrow> BwList" where
  "do_builtins_func iid pf bw =
     (if f_intrinsic (snd pf) = 0 then bw
      else if lower_bound (kSortedWhites iid) (f_intrinsic (snd pf)) \<noteq> Some (f_intrinsic (snd pf))
      then bw\<lparr>mCallees := AList.update (fst pf) False (mCallees bw)\<rparr> else bw)"

definition do_builtins :: "(string \<Rightarrow> u32) \<Rightarrow> modul \<Rightarrow> BwList \<Rightarrow> BwList" where
  "do_builtins iid m bw = fold (do_builtins_func iid) (m_funcs m) bw"

text \<open>A loop of \<open>do_config\<close>: look the name up and assign, skipping names the module lacks.\<close>

definition assign_named :: "modul \<Rightarrow> (string \<times> 'a) list \<Rightarrow> (gvptr \<times> 'a) list \<Rightarrow> (gvptr \<times> 'a) list" where
  "assign_named m kvs s = fold (\<lambda>(name, x) s. case getFunction m name of None \<Rightarrow> s
     | Some p \<Rightarrow> AList.update p x s) kvs s"

definition do_config :: "PickUp_Config \<Rightarrow> modul \<Rightarrow> BwList \<Rightarrow> BwList" where
  "do_config c m bw = bw\<lparr>
     mFuncs := assign_named m (cFuncs c) (mFuncs bw),
     mCallees := assign_named m (map (\<lambda>name. (name, True)) (cFCPcmChop c)) (assign_named m (cCallees c) (mCallees bw)),
     mFCPcmChopOthers := cFCPcmChopOthers c\<rparr>"

definition PickUp :: "(string \<Rightarrow> u32) \<Rightarrow> PickUp_Config \<Rightarrow> modul \<Rightarrow> BwList \<Rightarrow> (plug_abort, BwList) result" where
  "PickUp iid c m bw = bind_result (do_annotation m bw) (\<lambda>bw1. Inr (do_config c m (do_builtins iid m bw1)))"

text \<open>\<open>PickUp::Pass::run\<close> constructs the stage and returns the result it was given, which is
  empty: the stage itself is never called.\<close>

definition PickUp_Pass_run :: "PickUp_Config \<Rightarrow> modul \<Rightarrow> BwList" where
  "PickUp_Pass_run c m = kNULL"

section \<open>The sort\<close>

lemma mset_swap_nth: "i < length xs \<Longrightarrow> j < length xs \<Longrightarrow> mset (xs[i := xs ! j, j := xs ! i]) = mset xs"
  by (cases "i = j") (simp_all add: mset_swap)

text \<open>One pass moves the maximum of the first \<open>i\<close> elements to position \<open>i - 1\<close>.\<close>

lemma bubble_inner_correct:
  assumes "1 \<le> j" "j \<le> i" "i \<le> length ret" "\<forall>k<j. ret ! k \<le> ret ! (j - 1)"
  shows "mset (bubble_inner j i ret) = mset ret \<and> drop i (bubble_inner j i ret) = drop i ret \<and>
    (\<forall>k<i. bubble_inner j i ret ! k \<le> bubble_inner j i ret ! (i - 1))"
  using assms
proof (induction j i ret rule: bubble_inner.induct)
  case (1 j i ret)
  show ?case
  proof (cases "j < i")
    case False
    with 1 show ?thesis by (simp add: bubble_inner.simps)
  next
    case True
    let ?r = "if ret ! (j - 1) > ret ! j then ret[j - 1 := ret ! j, j := ret ! (j - 1)] else ret"
    have len: "length ?r = length ret" by simp
    have "?r ! k \<le> ?r ! j" if "k < Suc j" for k
    proof (cases "k = j \<or> k = j - 1")
      case True
      then show ?thesis using 1(2-5) \<open>j < i\<close> by (auto simp: nth_list_update)
    next
      case False
      with that have "k < j - 1" by auto
      with 1(2-5) \<open>j < i\<close> show ?thesis
        by (auto simp: nth_list_update) (metis le_less_trans less_imp_le_nat less_or_eq_imp_le order_trans not_le_imp_less diff_le_self less_le_trans)
    qed
    with 1 True have "mset (bubble_inner (Suc j) i ?r) = mset ?r \<and>
      drop i (bubble_inner (Suc j) i ?r) = drop i ?r \<and>
      (\<forall>k<i. bubble_inner (Suc j) i ?r ! k \<le> bubble_inner (Suc j) i ?r ! (i - 1))"
      by simp
    moreover have "bubble_inner j i ret = bubble_inner (Suc j) i ?r"
      using True by (simp add: bubble_inner.simps [of j])
    moreover have "mset ?r = mset ret"
      using True 1 mset_swap_nth [of "j - 1" ret j] by simp
    moreover have "drop i ?r = drop i ret" using True by simp
    ultimately show ?thesis by simp
  qed
qed

lemma bubble_outer_correct:
  assumes "i \<le> length ret" "sorted (drop i ret)" "\<forall>x \<in> set (take i ret). \<forall>y \<in> set (drop i ret). x \<le> y"
  shows "sorted (bubble_outer i ret) \<and> mset (bubble_outer i ret) = mset ret"
  using assms
proof (induction i arbitrary: ret)
  case (Suc i)
  let ?r = "bubble_inner 1 (Suc i) ret"
  have r: "mset ?r = mset ret" "drop (Suc i) ?r = drop (Suc i) ret" "\<forall>k<Suc i. ?r ! k \<le> ?r ! i"
    using bubble_inner_correct [of 1 "Suc i" ret] Suc(2) by auto
  then have len: "length ?r = length ret" by (metis size_mset)
  have "mset (take (Suc i) ?r) + mset (drop (Suc i) ?r) = mset (take (Suc i) ret) + mset (drop (Suc i) ret)"
    using r(1) by (metis append_take_drop_id mset_append)
  then have tk: "set (take (Suc i) ?r) = set (take (Suc i) ret)"
    using r(2) by (metis add_right_imp_eq set_mset_mset)
  have d: "drop i ?r = ?r ! i # drop (Suc i) ret"
    using Suc(2) len r(2) by (metis Cons_nth_drop_Suc Suc_le_lessD)
  have mem: "?r ! i \<in> set (take (Suc i) ?r)"
    using Suc(2) len by (auto simp: in_set_conv_nth intro!: exI [of _ i])
  have "sorted (drop i ?r)"
    unfolding d using Suc(3,4) mem tk by auto
  moreover have "x \<le> y" if "x \<in> set (take i ?r)" "y \<in> set (drop i ?r)" for x y
  proof -
    have "x \<in> set (take (Suc i) ?r)"
      using that(1) by (meson in_mono set_take_subset_set_take lessI less_imp_le)
    moreover have "x \<le> ?r ! i"
      using that(1) r(3) by (auto simp: in_set_conv_nth)
    ultimately show ?thesis
      using that(2) [unfolded d] Suc(4) tk by auto
  qed
  ultimately show ?case
    using Suc(1) [of ?r] len Suc(2) r(1) by auto
qed simp

lemma bubble_sorted: "sorted (bubble_outer (length xs) xs)" "set (bubble_outer (length xs) xs) = set xs"
  using bubble_outer_correct [of "length xs" xs] by (auto dest: mset_eq_setD)

text \<open>On a sorted range the search finds exactly the members.\<close>

lemma lower_bound_member: "sorted xs \<Longrightarrow> lower_bound xs v = Some v \<longleftrightarrow> v \<in> set xs"
  by (induction xs) (auto simp: lower_bound_def)

lemma kSortedWhites_member:
  "lower_bound (kSortedWhites iid) v = Some v \<longleftrightarrow> v = 0xFFFFFFFF \<or> v \<in> iid ` set kWhites"
  unfolding kSortedWhites_def Let_def lower_bound_member [OF bubble_sorted(1)] bubble_sorted(2) by auto

section \<open>What the stage computes\<close>

lemma do_builtins_func_simps [simp]:
  "mFuncs (do_builtins_func iid pf bw) = mFuncs bw"
  "mFCPcmChop (do_builtins_func iid pf bw) = mFCPcmChop bw"
  by (simp_all add: do_builtins_func_def)

lemma do_builtins_other [simp]:
  "mFuncs (do_builtins iid m bw) = mFuncs bw" "mFCPcmChop (do_builtins iid m bw) = mFCPcmChop bw"
proof -
  have "mFuncs (fold (do_builtins_func iid) fs bw) = mFuncs bw \<and>
    mFCPcmChop (fold (do_builtins_func iid) fs bw) = mFCPcmChop bw" for fs
    by (induction fs arbitrary: bw) simp_all
  then show "mFuncs (do_builtins iid m bw) = mFuncs bw" "mFCPcmChop (do_builtins iid m bw) = mFCPcmChop bw"
    by (simp_all add: do_builtins_def)
qed






text \<open>A module with an intrinsic and an ordinary function, the latter listed under \<open>FCPcmChop\<close>.\<close>

definition sample_func :: "string \<Rightarrow> u32 \<Rightarrow> func" where
  "sample_func n i = \<lparr>f_name = n, f_fty = FunctionTy VoidTy [] False, f_linkage = ExternalLinkage,
     f_attrs = [], f_blocks = [], f_intrinsic = i, f_prefix = None, f_dso_local = False\<rparr>"

definition sample_mod :: modul where
  "sample_mod = \<lparr>m_id = ''m'', m_funcs = [(1, sample_func ''llvm.trap'' 7), (2, sample_func ''foo'' 0)],
     m_gvars = [], m_aliases = [], m_layout = [], m_flags = []\<rparr>"

definition sample_cfg :: PickUp_Config where
  "sample_cfg = PickUp_Config_default\<lparr>cFCPcmChop := [''foo'']\<rparr>"


section \<open>The lists can be saved and reloaded\<close>

text \<open>The lists hold each function once, and only functions of the module.\<close>

definition lists_of :: "modul \<Rightarrow> BwList \<Rightarrow> bool" where
  "lists_of m bw \<longleftrightarrow> distinct (map fst (mFuncs bw)) \<and> distinct (map fst (mCallees bw)) \<and> mFCPcmChop bw = [] \<and>
     fst ` set (mFuncs bw) \<union> fst ` set (mCallees bw) \<subseteq> fst ` set (m_funcs m)"

lemma keys_update: "fst ` set (AList.update k v xs) = insert k (fst ` set xs)"
  using dom_update [of k v xs] by (simp flip: dom_map_of_conv_image_fst)

lemma do_annotation_op_cases:
  assumes "do_annotation_op m op1 bw = Inr bw'"
  obtains "bw' = bw"
  | p f anno where "map_of (m_funcs m) p = Some f" "bw' = bw\<lparr>mFuncs := AList.update p anno (mFuncs bw)\<rparr>"
  using assms
  by (auto simp: do_annotation_op_def Let_def result_simps
      split: prod.splits if_splits option.splits)

lemma do_annotation_cases:
  "do_annotation m bw = Inr bw' \<Longrightarrow> bw' = bw \<or> (\<exists>ops. do_annotation_ops m ops bw = Inr bw')"
  unfolding do_annotation_def by (simp split: option.splits) metis

lemma lists_of_annotation_op:
  assumes "lists_of m bw" "do_annotation_op m op1 bw = Inr bw'"
  shows "lists_of m bw'"
  using assms(2)
proof (cases rule: do_annotation_op_cases)
  case (2 p f anno)
  from map_of_SomeD [OF 2(1)] have "p \<in> fst ` set (m_funcs m)" by force
  with assms(1) 2(2) show ?thesis by (simp add: lists_of_def keys_update distinct_update)
qed (use assms(1) in simp)

lemma lists_of_annotation_ops: "lists_of m bw \<Longrightarrow> do_annotation_ops m ops bw = Inr bw' \<Longrightarrow> lists_of m bw'"
  by (induction m ops bw rule: do_annotation_ops.induct) (auto simp: result_simps dest: lists_of_annotation_op)

lemma lists_of_annotation: "lists_of m bw \<Longrightarrow> do_annotation m bw = Inr bw' \<Longrightarrow> lists_of m bw'"
  by (drule do_annotation_cases) (auto intro: lists_of_annotation_ops)

lemma lists_of_builtins_func:
  assumes "lists_of m bw" "pf \<in> set (m_funcs m)"
  shows "lists_of m (do_builtins_func iid pf bw)"
proof -
  have "fst pf \<in> fst ` set (m_funcs m)" using assms(2) by (rule imageI)
  with assms(1) show ?thesis
    by (simp add: do_builtins_func_def lists_of_def keys_update distinct_update)
qed

lemma lists_of_builtins:
  assumes "lists_of m bw"
  shows "lists_of m (do_builtins iid m bw)"
proof -
  have "lists_of m (fold (do_builtins_func iid) fs bw)" if "lists_of m bw" "set fs \<subseteq> set (m_funcs m)" for fs bw
    using that by (induction fs arbitrary: bw) (simp_all add: lists_of_builtins_func)
  with assms show ?thesis by (simp add: do_builtins_def)
qed

lemma assign_named_keys:
  assumes "distinct (map fst s)" "fst ` set s \<subseteq> fst ` set (m_funcs m)"
  shows "distinct (map fst (assign_named m kvs s)) \<and> fst ` set (assign_named m kvs s) \<subseteq> fst ` set (m_funcs m)"
  using assms
proof (induction kvs arbitrary: s)
  case (Cons kv kvs)
  have "p \<in> fst ` set (m_funcs m)" if "getFunction m n = Some p" for n p
    using that map_of_SomeD [of "m_funcs m" p]
    by (force simp: getFunction_def split: option.splits if_splits)
  with Cons show ?case
    by (cases kv) (auto simp: assign_named_def keys_update distinct_update split: option.splits)
qed (simp add: assign_named_def)

lemma lists_of_config:
  assumes "lists_of m bw"
  shows "lists_of m (do_config c m bw)"
  using assms assign_named_keys [of "mFuncs bw" m "cFuncs c"] assign_named_keys [of "mCallees bw" m "cCallees c"]
    assign_named_keys [of "assign_named m (cCallees c) (mCallees bw)" m "map (\<lambda>name. (name, True)) (cFCPcmChop c)"]
  by (simp add: lists_of_def do_config_def)

lemma lists_of_PickUp:
  assumes "lists_of m bw" "PickUp iid c m bw = Inr bw'"
  shows "lists_of m bw'"
proof -
  from assms(2) obtain bw1 where "do_annotation m bw = Inr bw1" and b: "bw' = do_config c m (do_builtins iid m bw1)"
    unfolding PickUp_def by (cases "do_annotation m bw") simp_all
  then have "lists_of m bw1" using lists_of_annotation [OF assms(1)] by simp
  then show ?thesis unfolding b by (intro lists_of_config lists_of_builtins)
qed

lemma lists_of_valid:
  assumes "mod_wf m" "\<forall>(p, f) \<in> set (m_funcs m). f_name f \<noteq> []" "lists_of m bw"
  shows "BwList_valid m bw"
proof -
  have "getFunction m (func_name m p) = Some p" if p: "p \<in> fst ` set (m_funcs m)" for p
  proof -
    from p obtain f where f: "(p, f) \<in> set (m_funcs m)" by auto
    then have "func_name m p = f_name f" by (rule func_name_eq [OF assms(1)])
    moreover have "f_name f \<noteq> []" using assms(2) f by auto
    ultimately show ?thesis using f by (auto simp: getFunction_iff [OF assms(1)])
  qed
  moreover have "fst ` set (mFuncs bw) \<union> fst ` set (mCallees bw) \<union> set (mFCPcmChop bw) \<subseteq> fst ` set (m_funcs m)"
    using assms(3) by (simp add: lists_of_def)
  ultimately have "\<forall>p \<in> fst ` set (mFuncs bw) \<union> fst ` set (mCallees bw) \<union> set (mFCPcmChop bw).
      getFunction m (func_name m p) = Some p"
    by (meson subsetD)
  then show ?thesis
    using assms(3) by (simp only: BwList_valid_def lists_of_def) simp
qed

text \<open>C22. In a module all of whose functions are named, the lists \<open>PickUp\<close> computes survive being
  written to \<open>bw-list.json\<close> and read back by the next tool.\<close>

theorem pickup_result_reloads:
  assumes "mod_wf m" "\<forall>(p, f) \<in> set (m_funcs m). f_name f \<noteq> []" "PickUp iid c m kNULL = Inr bw"
    and "parse io (print io (JObject (BwList_dump_json m bw))) = Some j" "jeq (JObject (BwList_dump_json m bw)) j"
    and "BwList_to_file io m bw path fs = Inr fs'"
  shows "\<exists>bw'. BwList_from_file io m path fs' = Inr bw' \<and> BwList_eq bw bw'"
proof -
  have "lists_of m kNULL" by (simp add: lists_of_def kNULL_def)
  then have "BwList_valid m bw" by (rule lists_of_valid [OF assms(1,2) lists_of_PickUp [OF _ assms(3)]])
  from bwlist.file_roundtrip [OF assms(4,5) this] assms(6) show ?thesis
    by (simp add: BwList_to_file_def BwList_from_file_def)
qed

theorem pickup_result_reloads_witness:
  "\<exists>bw io fs' bw'. PickUp (\<lambda>_. 1) sample_cfg sample_mod kNULL = Inr bw \<and>
     BwList_to_file io sample_mod bw ''bw'' \<lparr>content = Map.empty, can_open = (\<lambda>_. True)\<rparr> = Inr fs' \<and>
     BwList_from_file io sample_mod ''bw'' fs' = Inr bw' \<and> map_of (mCallees bw') 2 = Some True"
proof -
  have wf: "mod_wf sample_mod" "\<forall>(p, f) \<in> set (m_funcs sample_mod). f_name f \<noteq> []"
    by (simp_all add: mod_wf_def sample_mod_def all_values_def named_values_def sample_func_def)
  have an: "do_annotation sample_mod kNULL = Inr kNULL"
    by (simp add: do_annotation_def getGlobalVariable_def getNamedValue_def sample_mod_def all_values_def
        named_values_def sample_func_def)
  let ?bw = "\<lparr>mFuncs = [], mCallees = [(1, False), (2, True)], mFCPcmChop = [], mFCPcmChopOthers = False\<rparr>"
  have run: "PickUp (\<lambda>_. 1) sample_cfg sample_mod kNULL = Inr ?bw"
    by (simp add: PickUp_def an)
      (simp add: do_builtins_def do_builtins_func_def kSortedWhites_member sample_mod_def sample_func_def kNULL_def
        do_config_def sample_cfg_def PickUp_Config_default_def assign_named_def getFunction_def getNamedValue_def
        named_values_def all_values_def image_iff)
  let ?j = "JObject (BwList_dump_json sample_mod ?bw)"
  let ?io = "\<lparr>print = (\<lambda>v. ''{}''), parse = (\<lambda>s. Some ?j)\<rparr>"
  have e: "jeq ?j ?j"
    by (rule jeq_refl) (simp add: BwList_dump_json_def Let_def jset_def func_name_def sample_mod_def sample_func_def)
  obtain fs' where f: "BwList_to_file ?io sample_mod ?bw ''bw'' \<lparr>content = Map.empty, can_open = (\<lambda>_. True)\<rparr> = Inr fs'"
    by (simp add: BwList_to_file_def dump_json_file_def)
  from pickup_result_reloads [OF wf run _ e f] obtain bw' where
    b: "BwList_from_file ?io sample_mod ''bw'' fs' = Inr bw'" "BwList_eq ?bw bw'" by auto
  then have "map_of (mCallees bw') 2 = Some True" by (simp add: BwList_eq_def)
  with run f b(1) show ?thesis by blast
qed

end
