(* ===== verification/Plug_Build.thy ===== *)
theory Plug_Build
  imports Plug_Ir
begin

text \<open>
  What the plugin uses of LLVM to write code: the part of \<open>llvm::IRBuilder\<close> it calls, with the
  folding of constants the builder does, and the creation of functions and global variables in a
  module.  Names of local values have no meaning and are left empty.
\<close>

section \<open>The builder\<close>

text \<open>The number of the next instruction and the instructions so far.\<close>

type_synonym builder = "nat \<times> instr list"

definition new_ins :: "nat \<Rightarrow> opcode \<Rightarrow> ty \<Rightarrow> val list \<Rightarrow> instr" where
  "new_ins n op1 t vs = \<lparr>i_id = n, i_name = [], i_op = op1, i_ty = t, i_ops = vs, i_callee = VNull, i_fty = VoidTy,
     i_bundles = [], i_attrs = []\<rparr>"

definition emit :: "instr \<Rightarrow> builder \<Rightarrow> val \<times> builder" where
  "emit i b = (VInst (fst b) (i_ty i), (Suc (fst b), snd b @ [i\<lparr>i_id := fst b\<rparr>]))"

definition CreateAlloca :: "ty \<Rightarrow> builder \<Rightarrow> val \<times> builder" where
  "CreateAlloca t = emit ((new_ins 0 Alloca ptrTy [])\<lparr>i_fty := t\<rparr>)"

definition CreateStore :: "val \<Rightarrow> val \<Rightarrow> builder \<Rightarrow> builder" where
  "CreateStore v p b = snd (emit (new_ins 0 Store VoidTy [v, p]) b)"

definition CreateLoad :: "ty \<Rightarrow> val \<Rightarrow> builder \<Rightarrow> val \<times> builder" where
  "CreateLoad t p = emit (new_ins 0 Load t [p])"

text \<open>The types of the elements of an aggregate.\<close>

fun elem_tys :: "ty \<Rightarrow> ty list" where
  "elem_tys (StructTy n (Some ts) p) = ts"
| "elem_tys (ArrayTy t n) = replicate (unat n) t"
| "elem_tys (FixedVectorTy t n) = replicate (unat n) t"
| "elem_tys t = []"

fun is_const :: "val \<Rightarrow> bool" where
  "is_const (VArg i t) = False"
| "is_const (VInst i t) = False"
| "is_const (VBlock b) = False"
| "is_const (VAsm s) = False"
| "is_const (VMeta m) = False"
| "is_const v = True"

definition aggr_kind :: "ty \<Rightarrow> aggr" where
  "aggr_kind t = (case t of ArrayTy _ _ \<Rightarrow> AArray | FixedVectorTy _ _ \<Rightarrow> AVector | _ \<Rightarrow> AStruct)"

text \<open>Inserting a constant into a constant aggregate gives a constant; the plugin starts from
  \<open>UndefValue\<close>.\<close>

fun fold_insert :: "val \<Rightarrow> val \<Rightarrow> nat \<Rightarrow> val option" where
  "fold_insert (VUndef t) v k = (if k < length (elem_tys t)
     then Some (VAggr (aggr_kind t) t ((map VUndef (elem_tys t))[k := v])) else None)"
| "fold_insert (VAggr c t vs) v k = (if k < length vs then Some (VAggr c t (vs[k := v])) else None)"
| "fold_insert a v k = None"

definition CreateInsertValue :: "val \<Rightarrow> val \<Rightarrow> nat \<Rightarrow> builder \<Rightarrow> val \<times> builder" where
  "CreateInsertValue a v k b =
     (case (if is_const v then fold_insert a v k else None) of
       Some c \<Rightarrow> (c, b)
     | None \<Rightarrow> emit (new_ins 0 (InsertValue k) (val_ty a) [a, v]) b)"

definition CreateInsertElement :: "val \<Rightarrow> val \<Rightarrow> nat \<Rightarrow> builder \<Rightarrow> val \<times> builder" where
  "CreateInsertElement a v k b =
     (case (if is_const v then fold_insert a v k else None) of
       Some c \<Rightarrow> (c, b)
     | None \<Rightarrow> emit (new_ins 0 (InsertElement k) (val_ty a) [a, v]) b)"

definition CreateExtractValue :: "val \<Rightarrow> nat \<Rightarrow> builder \<Rightarrow> val \<times> builder" where
  "CreateExtractValue a k = emit (new_ins 0 (ExtractValue k) (elem_tys (val_ty a) ! k) [a])"

definition CreateGEP :: "val \<Rightarrow> u64 \<Rightarrow> builder \<Rightarrow> val \<times> builder" where
  "CreateGEP p k = emit (new_ins 0 GEP ptrTy [p, VInt 64 k])"

definition CreateCall :: "ty \<Rightarrow> val \<Rightarrow> val list \<Rightarrow> attr_list \<Rightarrow> builder \<Rightarrow> val \<times> builder" where
  "CreateCall fty f vs attrs = emit ((new_ins 0 Call (ret_ty fty) vs)\<lparr>i_callee := f, i_fty := fty, i_attrs := attrs\<rparr>)"

definition CreateRet :: "val option \<Rightarrow> builder \<Rightarrow> builder" where
  "CreateRet v b = snd (emit (new_ins 0 Ret VoidTy (case v of None \<Rightarrow> [] | Some x \<Rightarrow> [x])) b)"

definition CreateBr :: "nat \<Rightarrow> builder \<Rightarrow> builder" where
  "CreateBr l b = snd (emit (new_ins 0 Br VoidTy [VBlock l]) b)"

definition CreateCondBr :: "val \<Rightarrow> nat \<Rightarrow> nat \<Rightarrow> builder \<Rightarrow> builder" where
  "CreateCondBr v l r b = snd (emit (new_ins 0 CondBr VoidTy [v, VBlock l, VBlock r]) b)"

definition CreateXor :: "val \<Rightarrow> val \<Rightarrow> builder \<Rightarrow> val \<times> builder" where
  "CreateXor v w = emit (new_ins 0 Xor (val_ty v) [v, w])"

definition CreateICmpEQ :: "val \<Rightarrow> val \<Rightarrow> builder \<Rightarrow> val \<times> builder" where
  "CreateICmpEQ v w = emit (new_ins 0 ICmpEQ (IntegerTy 1) [v, w])"

definition CreateIntToPtr :: "val \<Rightarrow> builder \<Rightarrow> val \<times> builder" where
  "CreateIntToPtr v = emit (new_ins 0 IntToPtr ptrTy [v])"

definition CreateStackSave :: "builder \<Rightarrow> val \<times> builder" where
  "CreateStackSave = emit (new_ins 0 StackSave ptrTy [])"

definition CreateStackRestore :: "val \<Rightarrow> builder \<Rightarrow> builder" where
  "CreateStackRestore v b = snd (emit (new_ins 0 StackRestore VoidTy [v]) b)"

text \<open>The loop \<open>for (auto&& [i, v] : enumerate(vs)) a = irb.CreateInsertValue(a, v, i)\<close>.\<close>

fun insert_values :: "val \<Rightarrow> nat \<Rightarrow> val list \<Rightarrow> builder \<Rightarrow> val \<times> builder" where
  "insert_values a k [] b = (a, b)"
| "insert_values a k (v # vs) b = (let r = CreateInsertValue a v k b in insert_values (fst r) (Suc k) vs (snd r))"

fun insert_elements :: "val \<Rightarrow> nat \<Rightarrow> val list \<Rightarrow> builder \<Rightarrow> val \<times> builder" where
  "insert_elements a k [] b = (a, b)"
| "insert_elements a k (v # vs) b = (let r = CreateInsertElement a v k b in insert_elements (fst r) (Suc k) vs (snd r))"

text \<open>The loop that extracts the first \<open>n\<close> elements.\<close>

fun extract_values :: "val \<Rightarrow> nat \<Rightarrow> nat \<Rightarrow> builder \<Rightarrow> val list \<times> builder" where
  "extract_values a k 0 b = ([], b)"
| "extract_values a k (Suc n) b =
     (let r = CreateExtractValue a k b; rs = extract_values a (Suc k) n (snd r) in (fst r # fst rs, snd rs))"

section \<open>New functions and variables\<close>

text \<open>A module under construction and the address of the next object the compiler allocates.  A new
  value whose name is taken gets another one, chosen by LLVM: the parameter \<open>U\<close>.\<close>

type_synonym modstate = "modul \<times> gvptr"
type_synonym uniquer = "string list \<Rightarrow> string \<Rightarrow> string"

definition value_names :: "modul \<Rightarrow> string list" where
  "value_names m = map fst (named_values m)"

definition new_function :: "uniquer \<Rightarrow> ty \<Rightarrow> linkage \<Rightarrow> string \<Rightarrow> modstate \<Rightarrow> gvptr \<times> modstate" where
  "new_function U fty l n s =
     (snd s, (fst s)\<lparr>m_funcs := m_funcs (fst s) @ [(snd s,
        \<lparr>f_name = U (value_names (fst s)) n, f_fty = fty, f_linkage = l, f_attrs = [], f_blocks = [], f_intrinsic = 0,
         f_prefix = None, f_dso_local = False\<rparr>)]\<rparr>, Suc (snd s))"

definition new_gvar :: "uniquer \<Rightarrow> ty \<Rightarrow> bool \<Rightarrow> linkage \<Rightarrow> val \<Rightarrow> string \<Rightarrow> modstate \<Rightarrow> gvptr \<times> modstate" where
  "new_gvar U t const l init n s =
     (snd s, (fst s)\<lparr>m_gvars := m_gvars (fst s) @ [(snd s,
        \<lparr>g_name = U (value_names (fst s)) n, g_ty = t, g_const = const, g_linkage = l, g_init = Some init,
         g_dso_local = False\<rparr>)]\<rparr>, Suc (snd s))"

definition upd_func :: "gvptr \<Rightarrow> (func \<Rightarrow> func) \<Rightarrow> modstate \<Rightarrow> modstate" where
  "upd_func p g s = ((fst s)\<lparr>m_funcs := map (\<lambda>(q, f). if q = p then (q, g f) else (q, f)) (m_funcs (fst s))\<rparr>, snd s)"

definition upd_gvar :: "gvptr \<Rightarrow> (gvar \<Rightarrow> gvar) \<Rightarrow> modstate \<Rightarrow> modstate" where
  "upd_gvar p g s = ((fst s)\<lparr>m_gvars := map (\<lambda>(q, x). if q = p then (q, g x) else (q, x)) (m_gvars (fst s))\<rparr>, snd s)"

definition setBody :: "instr list \<Rightarrow> func \<Rightarrow> func" where
  "setBody is f = f\<lparr>f_blocks := [\<lparr>b_id = 0, b_name = ''entry'', b_ins = is\<rparr>]\<rparr>"

text \<open>A C string as the initialiser of a variable, with its final zero.\<close>

definition cstring :: "string \<Rightarrow> val" where
  "cstring s = VData (s @ [CHR 0x00])"

definition structTy :: "ty list \<Rightarrow> ty" where
  "structTy ts = StructTy [] (Some ts) False"

definition ptrArrayTy :: "nat \<Rightarrow> ty" where
  "ptrArrayTy n = ArrayTy ptrTy (of_nat n)"

text \<open>A vector of \<open>n\<close> null pointers whose elements are then set by number; an element that stays null
  cannot be part of a constant array.\<close>

definition fill_table :: "nat \<Rightarrow> (nat \<times> val) list \<Rightarrow> (plug_abort, val list) result" where
  "fill_table n ks =
     (if \<exists>k \<in> set ks. n \<le> fst k then Inl OutOfBounds
      else case those (fold (\<lambda>(i, v) xs. xs[i := Some v]) ks (replicate n None)) of
        None \<Rightarrow> Inl NullElement | Some vs \<Rightarrow> Inr vs)"

section \<open>Facts about growing modules\<close>

definition addrs :: "modul \<Rightarrow> gvptr set" where
  "addrs m = fst ` set (m_funcs m) \<union> fst ` set (m_gvars m) \<union> fst ` set (m_aliases m)"

lemma addrs_all_values: "addrs m = snd ` set (all_values m)"
  by (force simp: addrs_def all_values_def)

text \<open>What LLVM promises about new names.\<close>

definition uniq_ok :: "uniquer \<Rightarrow> bool" where
  "uniq_ok U \<longleftrightarrow> (\<forall>ns n. U ns n \<notin> set ns) \<and> (\<forall>ns n. n \<notin> set ns \<longrightarrow> U ns n = n)"

text \<open>A module whose values have addresses of their own, below the next one to be used, and names of their
  own.\<close>

definition ms_ok :: "modstate \<Rightarrow> bool" where
  "ms_ok s \<longleftrightarrow> mod_wf (fst s) \<and> (\<forall>p \<in> addrs (fst s). p < snd s)"

text \<open>Going from one module to another without touching what is there.\<close>

definition grows :: "modstate \<Rightarrow> modstate \<Rightarrow> bool" where
  "grows s s' \<longleftrightarrow> snd s \<le> snd s' \<and> m_aliases (fst s') = m_aliases (fst s) \<and>
     (\<forall>p < snd s. map_of (m_funcs (fst s')) p = map_of (m_funcs (fst s)) p \<and> map_of (m_gvars (fst s')) p = map_of (m_gvars (fst s)) p) \<and>
     (\<forall>n p. getNamedValue (fst s) n = Some p \<longrightarrow> getNamedValue (fst s') n = Some p)"

lemma grows_refl [simp]: "grows s s"
  by (simp add: grows_def)

lemma grows_trans: "grows s s1 \<Longrightarrow> grows s1 s2 \<Longrightarrow> grows s s2"
  by (auto simp: grows_def)

lemma ms_ok_fresh: "ms_ok s \<Longrightarrow> map_of (m_funcs (fst s)) (snd s) = None \<and> map_of (m_gvars (fst s)) (snd s) = None"
  by (auto simp: ms_ok_def addrs_def map_of_eq_None_iff)

lemma ms_ok_bound: "ms_ok s \<Longrightarrow> map_of (m_funcs (fst s)) p = Some f \<Longrightarrow> p < snd s"
  by (force simp: ms_ok_def addrs_def dest: map_of_SomeD)

lemma getFunction_grows:
  assumes "grows s s'" "ms_ok s" "getFunction (fst s) n = Some p"
  shows "getFunction (fst s') n = Some p"
proof -
  from assms(3) have g: "getNamedValue (fst s) n = Some p" and f: "map_of (m_funcs (fst s)) p \<noteq> None"
    by (auto simp: getFunction_def split: option.splits if_splits)
  from f have "p \<in> addrs (fst s)" unfolding addrs_def by (simp add: map_of_eq_None_iff)
  then have "p < snd s" using assms(2) by (auto simp: ms_ok_def)
  then show ?thesis using g f assms(1) by (auto simp: grows_def getFunction_def)
qed

text \<open>Adding a value with a name of its own.\<close>

lemma add_value_ok:
  assumes "all_values m = A @ Z" "all_values m' = A @ (n, p) # Z" "mod_wf m" "p \<notin> addrs m" "n \<notin> set (value_names m)"
  shows "mod_wf m'" "getNamedValue m k = Some q \<Longrightarrow> getNamedValue m' k = Some q"
proof -
  let ?f = "filter (\<lambda>(n, p). n \<noteq> [])"
  have nv: "named_values m = ?f A @ ?f Z" "named_values m' = ?f A @ (if n \<noteq> [] then [(n, p)] else []) @ ?f Z"
    by (simp_all add: named_values_def assms(1,2))
  show "mod_wf m'"
    using assms(3-5) unfolding mod_wf_def addrs_all_values value_names_def nv assms(1,2) by auto
  assume k: "getNamedValue m k = Some q"
  then have "(k, q) \<in> set (named_values m)" by (simp add: getNamedValue_def map_of_SomeD)
  then have "k \<noteq> n" using assms(5) by (force simp: value_names_def)
  with k show "getNamedValue m' k = Some q"
    unfolding getNamedValue_def nv by (auto simp: map_add_def split: option.splits)
qed

lemma uniq_new: "uniq_ok U \<Longrightarrow> U ns n \<notin> set ns"
  by (simp add: uniq_ok_def)

lemma new_gvar_ok:
  assumes "ms_ok s" "uniq_ok U" "new_gvar U t c l i n s = (p, s')"
  shows "ms_ok s'" "grows s s'" "p = snd s" "snd s' = Suc (snd s)" "m_funcs (fst s') = m_funcs (fst s)"
    "map_of (m_gvars (fst s')) p = Some \<lparr>g_name = U (value_names (fst s)) n, g_ty = t, g_const = c, g_linkage = l, g_init = Some i, g_dso_local = False\<rparr>"
proof -
  let ?n = "U (value_names (fst s)) n" and ?m = "fst s"
  let ?g = "\<lparr>g_name = ?n, g_ty = t, g_const = c, g_linkage = l, g_init = Some i, g_dso_local = False\<rparr>"
  have s': "p = snd s" "s' = (?m\<lparr>m_gvars := m_gvars ?m @ [(snd s, ?g)]\<rparr>, Suc (snd s))"
    using assms(3) by (auto simp: new_gvar_def)
  have av: "all_values ?m = (map (\<lambda>(p, f). (f_name f, p)) (m_funcs ?m) @ map (\<lambda>(p, g). (g_name g, p)) (m_gvars ?m)) @ map (\<lambda>(p, n). (n, p)) (m_aliases ?m)"
    "all_values (fst s') = (map (\<lambda>(p, f). (f_name f, p)) (m_funcs ?m) @ map (\<lambda>(p, g). (g_name g, p)) (m_gvars ?m)) @ (?n, snd s) # map (\<lambda>(p, n). (n, p)) (m_aliases ?m)"
    by (simp_all add: s' all_values_def)
  have "mod_wf ?m" "snd s \<notin> addrs ?m" using assms(1) by (auto simp: ms_ok_def)
  note add = add_value_ok [OF av this uniq_new [OF assms(2)]]
  have "addrs (fst s') = insert (snd s) (addrs ?m)" by (auto simp: addrs_def s')
  then show "ms_ok s'" using assms(1) add(1) by (auto simp: ms_ok_def s' less_Suc_eq)
  show "grows s s'" using add(2) by (auto simp: grows_def s' map_add_def split: option.splits)
  show "map_of (m_gvars (fst s')) p = Some ?g"
    using ms_ok_fresh [OF assms(1)] by (simp add: s' map_add_def)
qed (use assms(3) in \<open>auto simp: new_gvar_def\<close>)

lemma new_function_ok:
  assumes "ms_ok s" "uniq_ok U" "new_function U t l n s = (p, s')"
  shows "ms_ok s'" "grows s s'" "p = snd s" "snd s' = Suc (snd s)" "m_gvars (fst s') = m_gvars (fst s)"
    "map_of (m_funcs (fst s')) p = Some \<lparr>f_name = U (value_names (fst s)) n, f_fty = t, f_linkage = l, f_attrs = [], f_blocks = [], f_intrinsic = 0,
         f_prefix = None, f_dso_local = False\<rparr>"
proof -
  let ?n = "U (value_names (fst s)) n" and ?m = "fst s"
  let ?f = "\<lparr>f_name = ?n, f_fty = t, f_linkage = l, f_attrs = [], f_blocks = [], f_intrinsic = 0, f_prefix = None, f_dso_local = False\<rparr>"
  have s': "p = snd s" "s' = (?m\<lparr>m_funcs := m_funcs ?m @ [(snd s, ?f)]\<rparr>, Suc (snd s))"
    using assms(3) by (auto simp: new_function_def)
  have av: "all_values ?m = map (\<lambda>(p, f). (f_name f, p)) (m_funcs ?m) @ (map (\<lambda>(p, g). (g_name g, p)) (m_gvars ?m) @ map (\<lambda>(p, n). (n, p)) (m_aliases ?m))"
    "all_values (fst s') = map (\<lambda>(p, f). (f_name f, p)) (m_funcs ?m) @ (?n, snd s) # (map (\<lambda>(p, g). (g_name g, p)) (m_gvars ?m) @ map (\<lambda>(p, n). (n, p)) (m_aliases ?m))"
    by (simp_all add: s' all_values_def)
  have "mod_wf ?m" "snd s \<notin> addrs ?m" using assms(1) by (auto simp: ms_ok_def)
  note add = add_value_ok [OF av this uniq_new [OF assms(2)]]
  have "addrs (fst s') = insert (snd s) (addrs ?m)" by (auto simp: addrs_def s')
  then show "ms_ok s'" using assms(1) add(1) by (auto simp: ms_ok_def s' less_Suc_eq)
  show "grows s s'" using add(2) by (auto simp: grows_def s' map_add_def split: option.splits)
  show "map_of (m_funcs (fst s')) p = Some ?f"
    using ms_ok_fresh [OF assms(1)] by (simp add: s' map_add_def)
qed (use assms(3) in \<open>auto simp: new_function_def\<close>)

text \<open>Changing a function without changing its name.\<close>

lemma upd_func_values: "(\<And>f. f_name (g f) = f_name f) \<Longrightarrow> all_values (fst (upd_func p g s)) = all_values (fst s)"
  by (simp add: upd_func_def all_values_def case_prod_beta if_distrib cong: if_cong)

lemma upd_gvar_values: "(\<And>x. g_name (g x) = g_name x) \<Longrightarrow> all_values (fst (upd_gvar p g s)) = all_values (fst s)"
  by (simp add: upd_gvar_def all_values_def case_prod_beta if_distrib cong: if_cong)

lemma ms_ok_same_values: "all_values (fst s') = all_values (fst s) \<Longrightarrow> snd s' = snd s \<Longrightarrow> ms_ok s' = ms_ok s"
  by (simp add: ms_ok_def mod_wf_def addrs_all_values named_values_def)

lemma map_of_upd_func:
  "map_of (m_funcs (fst (upd_func p g s))) q = (if q = p then map_option g (map_of (m_funcs (fst s)) p) else map_of (m_funcs (fst s)) q)"
proof -
  have "map_of (map (\<lambda>(q, f). if q = p then (q, g f) else (q, f)) xs) q = (if q = p then map_option g (map_of xs p) else map_of xs q)" for xs
    by (induction xs) auto
  then show ?thesis by (simp add: upd_func_def)
qed

lemma map_of_upd_gvar:
  "map_of (m_gvars (fst (upd_gvar p g s))) q = (if q = p then map_option g (map_of (m_gvars (fst s)) p) else map_of (m_gvars (fst s)) q)"
proof -
  have "map_of (map (\<lambda>(q, f). if q = p then (q, g f) else (q, f)) xs) q = (if q = p then map_option g (map_of xs p) else map_of xs q)" for xs
    by (induction xs) auto
  then show ?thesis by (simp add: upd_gvar_def)
qed

lemma upd_sel [simp]:
  "snd (upd_func p g s) = snd s" "m_gvars (fst (upd_func p g s)) = m_gvars (fst s)" "m_aliases (fst (upd_func p g s)) = m_aliases (fst s)"
  "snd (upd_gvar p h s) = snd s" "m_funcs (fst (upd_gvar p h s)) = m_funcs (fst s)" "m_aliases (fst (upd_gvar p h s)) = m_aliases (fst s)"
  by (simp_all add: upd_func_def upd_gvar_def)

lemma getNamedValue_same_values: "all_values m' = all_values m \<Longrightarrow> getNamedValue m' = getNamedValue m"
  by (rule ext) (simp add: getNamedValue_def named_values_def)

lemma upd_func_ok:
  assumes "\<And>f. f_name (g f) = f_name f"
  shows "ms_ok (upd_func p g s) = ms_ok s" "snd s0 \<le> p \<Longrightarrow> grows s0 s \<Longrightarrow> grows s0 (upd_func p g s)"
    "getFunction (fst (upd_func p g s)) n = getFunction (fst s) n"
proof -
  note v = upd_func_values [OF assms, of p s]
  show "ms_ok (upd_func p g s) = ms_ok s" using ms_ok_same_values [OF v] by simp
  show "snd s0 \<le> p \<Longrightarrow> grows s0 s \<Longrightarrow> grows s0 (upd_func p g s)"
    using getNamedValue_same_values [OF v] by (auto simp: grows_def map_of_upd_func)
  show "getFunction (fst (upd_func p g s)) n = getFunction (fst s) n"
    unfolding getFunction_def getNamedValue_same_values [OF v] by (auto simp: map_of_upd_func split: option.splits)
qed

lemma upd_gvar_ok:
  assumes "\<And>x. g_name (g x) = g_name x"
  shows "ms_ok (upd_gvar p g s) = ms_ok s" "snd s0 \<le> p \<Longrightarrow> grows s0 s \<Longrightarrow> grows s0 (upd_gvar p g s)"
proof -
  note v = upd_gvar_values [OF assms, of p s]
  show "ms_ok (upd_gvar p g s) = ms_ok s" using ms_ok_same_values [OF v] by simp
  show "snd s0 \<le> p \<Longrightarrow> grows s0 s \<Longrightarrow> grows s0 (upd_gvar p g s)"
    using getNamedValue_same_values [OF v] by (auto simp: grows_def map_of_upd_gvar)
qed

lemma setBody_name [simp]: "f_name (setBody is f) = f_name f"
  by (simp add: setBody_def)

end
