(* ===== verification/Plug_Exec.thy ===== *)
theory Plug_Exec
  imports Plug_Build
begin

text \<open>
  The meaning of the instructions the plugin generates, after the LLVM language reference, on a
  memory of typed objects; and, for each call of the builder, what the instructions it adds do.
\<close>

section \<open>The meaning of the instructions\<close>

text \<open>Objects: a global value, a cell of the stack, and the prefix data in front of a function.  A
  pointer is an object and an offset in words; an integer turned into a pointer is \<open>SAddr\<close>.  The
  value of a constant expression is a term, \<open>SExpr\<close>: nothing is assumed of the operation but that its
  result depends on its operands only.\<close>

datatype obj = OGlob gvptr | OLoc nat | OPre gvptr

datatype sval = SPtr obj int | SAddr u64 | SNull | SInt u64 | SAgg "sval list" | SStack nat | SUndef
  | SConst ty nat | SData string | SExpr nat ty "sval list" | SOp nat ty

text \<open>The type and the value last stored.\<close>

type_synonym smem = "obj \<Rightarrow> (ty \<times> sval) option"

record sstate =
  locals :: "nat \<Rightarrow> sval option"
  nloc :: nat
  smem :: smem

datatype outcome = Cont sstate | Returned sval smem | Jump nat sstate | Stuck

text \<open>What a call does, given the called value, the arguments, the next free cell of the stack and the
  memory; \<open>None\<close> when it does not return.  The instructions the plugin copies and never generates are
  given their meaning in the same way, as calls of \<open>SOp\<close>.\<close>

type_synonym calls = "sval \<Rightarrow> sval list \<Rightarrow> nat \<Rightarrow> smem \<Rightarrow> (sval \<times> smem) option"

fun undef_of :: "ty \<Rightarrow> sval" where
  "undef_of (StructTy n (Some ts) p) = SAgg (map undef_of ts)"
| "undef_of (ArrayTy t n) = SAgg (replicate (unat n) (undef_of t))"
| "undef_of (FixedVectorTy t n) = SAgg (replicate (unat n) (undef_of t))"
| "undef_of t = SUndef"

fun eval :: "sval list \<Rightarrow> (nat \<Rightarrow> sval option) \<Rightarrow> val \<Rightarrow> sval option" where
  "eval as l (VGlobal p) = Some (SPtr (OGlob p) 0)"
| "eval as l (VArg i t) = (if i < length as then Some (as ! i) else None)"
| "eval as l (VInst i t) = l i"
| "eval as l (VInt w n) = Some (SInt n)"
| "eval as l VNull = Some SNull"
| "eval as l (VUndef t) = Some (undef_of t)"
| "eval as l (VAggr c t vs) = map_option SAgg (those (map (eval as l) vs))"
| "eval as l (VPoison t) = Some (undef_of t)"
| "eval as l (VData s) = Some (SData s)"
| "eval as l (VConst t n) = Some (SConst t n)"
| "eval as l (VExpr k t vs) = map_option (SExpr k t) (those (map (eval as l) vs))"
| "eval as l v = None"

text \<open>Loading with the type of what was stored gives it back; loading with another type reads an
  element of an array.\<close>

definition load_cell :: "ty \<Rightarrow> (ty \<times> sval) option \<Rightarrow> int \<Rightarrow> sval option" where
  "load_cell t c k = (case c of
     None \<Rightarrow> None
   | Some (t', v) \<Rightarrow>
       if t' = t then (if k = 0 then Some v else None)
       else case v of
         SAgg vs \<Rightarrow> if elem_tys t' = replicate (length vs) t \<and> 0 \<le> k \<and> k < int (length vs) then Some (vs ! nat k) else None
       | _ \<Rightarrow> None)"

text \<open>The two words in front of a function are its prefix data.\<close>

fun resolve :: "obj \<Rightarrow> int \<Rightarrow> obj \<times> int" where
  "resolve (OGlob p) k = (if k < 0 then (OPre p, k + 2) else (OGlob p, k))"
| "resolve ob k = (ob, k)"

fun load_at :: "ty \<Rightarrow> smem \<Rightarrow> sval \<Rightarrow> sval option" where
  "load_at t m (SPtr ob k) = (let (ob', k') = resolve ob k in load_cell t (m ob') k')"
| "load_at t m v = None"

fun store_at :: "ty \<Rightarrow> sval \<Rightarrow> sval \<Rightarrow> smem \<Rightarrow> smem option" where
  "store_at t v (SPtr ob k) m = (if k = 0 \<and> m ob \<noteq> None then Some (m(ob \<mapsto> (t, v))) else None)"
| "store_at t v p m = None"

text \<open>Leaving a function, or restoring the stack pointer, frees the cells from \<open>n\<close> on.\<close>

definition pop_frame :: "nat \<Rightarrow> smem \<Rightarrow> smem" where
  "pop_frame n m = (\<lambda>ob. case ob of OLoc k \<Rightarrow> if k < n then m ob else None | _ \<Rightarrow> m ob)"

definition bind_local :: "instr \<Rightarrow> sval \<Rightarrow> sstate \<Rightarrow> outcome" where
  "bind_local i v st = Cont (st\<lparr>locals := (locals st)(i_id i \<mapsto> v)\<rparr>)"

definition bind_opt :: "instr \<Rightarrow> sval option \<Rightarrow> sstate \<Rightarrow> outcome" where
  "bind_opt i v st = (case v of None \<Rightarrow> Stuck | Some x \<Rightarrow> bind_local i x st)"

text \<open>Terminators that name blocks; the other instructions, on the values of their operands.\<close>

definition exec_branch :: "(val \<Rightarrow> sval option) \<Rightarrow> instr \<Rightarrow> sstate \<Rightarrow> outcome" where
  "exec_branch ev i st = (case i_ops i of
     [VBlock l] \<Rightarrow> if i_op i = Br then Jump l st else Stuck
   | [c, VBlock l, VBlock r] \<Rightarrow>
       if i_op i = CondBr then (case ev c of Some (SInt n) \<Rightarrow> Jump (if n = 1 then l else r) st | _ \<Rightarrow> Stuck) else Stuck
   | _ \<Rightarrow> Stuck)"

definition exec_call :: "calls \<Rightarrow> sval option \<Rightarrow> sval list \<Rightarrow> instr \<Rightarrow> sstate \<Rightarrow> outcome" where
  "exec_call K f xs i st = (case f of
     None \<Rightarrow> Stuck
   | Some g \<Rightarrow> (case K g xs (nloc st) (smem st) of
       None \<Rightarrow> Stuck | Some (r, m) \<Rightarrow> bind_local i r (st\<lparr>smem := m\<rparr>)))"

definition exec_op :: "sval list \<Rightarrow> instr \<Rightarrow> sstate \<Rightarrow> outcome" where
  "exec_op xs i st = (case i_op i of
     Alloca \<Rightarrow> bind_local i (SPtr (OLoc (nloc st)) 0)
       (st\<lparr>nloc := Suc (nloc st), smem := (smem st)(OLoc (nloc st) \<mapsto> (i_fty i, undef_of (i_fty i)))\<rparr>)
   | Store \<Rightarrow> (case xs of [v, p] \<Rightarrow> (case store_at (val_ty (hd (i_ops i))) v p (smem st) of
       None \<Rightarrow> Stuck | Some m \<Rightarrow> Cont (st\<lparr>smem := m\<rparr>)) | _ \<Rightarrow> Stuck)
   | Load \<Rightarrow> (case xs of [p] \<Rightarrow> bind_opt i (load_at (i_ty i) (smem st) p) st | _ \<Rightarrow> Stuck)
   | InsertValue k \<Rightarrow> (case xs of [SAgg vs, v] \<Rightarrow> if k < length vs then bind_local i (SAgg (vs[k := v])) st else Stuck | _ \<Rightarrow> Stuck)
   | InsertElement k \<Rightarrow> (case xs of [SAgg vs, v] \<Rightarrow> if k < length vs then bind_local i (SAgg (vs[k := v])) st else Stuck | _ \<Rightarrow> Stuck)
   | ExtractValue k \<Rightarrow> (case xs of [SAgg vs] \<Rightarrow> if k < length vs then bind_local i (vs ! k) st else Stuck | _ \<Rightarrow> Stuck)
   | GEP \<Rightarrow> (case xs of [SPtr ob k, SInt j] \<Rightarrow> bind_local i (SPtr ob (k + sint j)) st | _ \<Rightarrow> Stuck)
   | Ret \<Rightarrow> Returned (case xs of [] \<Rightarrow> SUndef | v # _ \<Rightarrow> v) (smem st)
   | Xor \<Rightarrow> (case xs of [SInt a, SInt b] \<Rightarrow> bind_local i (SInt (a XOR b)) st | _ \<Rightarrow> Stuck)
   | ICmpEQ \<Rightarrow> (case xs of [SInt a, SInt b] \<Rightarrow> bind_local i (SInt (if a = b then 1 else 0)) st | _ \<Rightarrow> Stuck)
   | IntToPtr \<Rightarrow> (case xs of [SInt a] \<Rightarrow> bind_local i (SAddr a) st | _ \<Rightarrow> Stuck)
   | StackSave \<Rightarrow> bind_local i (SStack (nloc st)) st
   | StackRestore \<Rightarrow> (case xs of [SStack n] \<Rightarrow> Cont (st\<lparr>nloc := n, smem := pop_frame n (smem st)\<rparr>) | _ \<Rightarrow> Stuck)
   | _ \<Rightarrow> Stuck)"

definition exec_ins :: "calls \<Rightarrow> sval list \<Rightarrow> instr \<Rightarrow> sstate \<Rightarrow> outcome" where
  "exec_ins K as i st =
     (let ev = eval as (locals st) in
      case those (map ev (i_ops i)) of
        None \<Rightarrow> exec_branch ev i st
      | Some xs \<Rightarrow> (case i_op i of
          Call \<Rightarrow> exec_call K (ev (i_callee i)) xs i st
        | OtherOp k \<Rightarrow> exec_call K (Some (SOp k (i_ty i))) xs i st
        | _ \<Rightarrow> exec_op xs i st))"

fun exec_list :: "calls \<Rightarrow> sval list \<Rightarrow> instr list \<Rightarrow> sstate \<Rightarrow> outcome" where
  "exec_list K as [] st = Cont st"
| "exec_list K as (i # is) st = (case exec_ins K as i st of Cont st' \<Rightarrow> exec_list K as is st' | r \<Rightarrow> r)"

text \<open>Calling a function of one block: its cells are freed when it returns.\<close>

definition call_func :: "calls \<Rightarrow> func \<Rightarrow> sval list \<Rightarrow> nat \<Rightarrow> smem \<Rightarrow> (sval \<times> smem) option" where
  "call_func K f as n m = (case f_blocks f of
     [bb] \<Rightarrow> (case exec_list K as (b_ins bb) \<lparr>locals = (\<lambda>_. None), nloc = n, smem = m\<rparr> of
        Returned v m' \<Rightarrow> Some (v, pop_frame n m') | _ \<Rightarrow> None)
   | _ \<Rightarrow> None)"

text \<open>Functions of several blocks.  The operands of a \<open>phi\<close> are values, each followed by the block the
  control comes from; all of them are read before any is set.  A run follows at most \<open>k\<close> jumps.\<close>

definition is_phi :: "instr \<Rightarrow> bool" where
  "is_phi i = (i_op i = PHI)"

fun phi_operand :: "nat \<Rightarrow> val list \<Rightarrow> val option" where
  "phi_operand prev (v # VBlock l # r) = (if l = prev then Some v else phi_operand prev r)"
| "phi_operand prev vs = None"

definition exec_phis :: "sval list \<Rightarrow> nat \<Rightarrow> instr list \<Rightarrow> sstate \<Rightarrow> sstate option" where
  "exec_phis as prev is st =
     map_option (\<lambda>vs. st\<lparr>locals := (locals st)(map i_id is [\<mapsto>] vs)\<rparr>)
       (those (map (\<lambda>i. Option.bind (phi_operand prev (i_ops i)) (eval as (locals st))) is))"

definition exec_block :: "calls \<Rightarrow> sval list \<Rightarrow> nat \<Rightarrow> instr list \<Rightarrow> sstate \<Rightarrow> outcome" where
  "exec_block K as prev is st = (case exec_phis as prev (takeWhile is_phi is) st of
     None \<Rightarrow> Stuck | Some st' \<Rightarrow> exec_list K as (dropWhile is_phi is) st')"

definition get_block :: "block list \<Rightarrow> nat \<Rightarrow> instr list option" where
  "get_block bs l = map_of (map (\<lambda>b. (b_id b, b_ins b)) bs) l"

fun run_blocks :: "calls \<Rightarrow> sval list \<Rightarrow> block list \<Rightarrow> nat \<Rightarrow> nat \<Rightarrow> nat \<Rightarrow> sstate \<Rightarrow> (sval \<times> smem) option" where
  "run_blocks K as bs 0 prev l st = None"
| "run_blocks K as bs (Suc k) prev l st = (case get_block bs l of
     None \<Rightarrow> None
   | Some is \<Rightarrow> (case exec_block K as prev is st of
       Returned v m \<Rightarrow> Some (v, m) | Jump l' st' \<Rightarrow> run_blocks K as bs k l l' st' | _ \<Rightarrow> None))"

definition run_func :: "calls \<Rightarrow> nat \<Rightarrow> func \<Rightarrow> sval list \<Rightarrow> nat \<Rightarrow> smem \<Rightarrow> (sval \<times> smem) option" where
  "run_func K k f as n m = (case f_blocks f of
     [] \<Rightarrow> None
   | bb # bbs \<Rightarrow> map_option (\<lambda>(v, m'). (v, pop_frame n m'))
       (run_blocks K as (bb # bbs) k (b_id bb) (b_id bb) \<lparr>locals = (\<lambda>_. None), nloc = n, smem = m\<rparr>))"

section \<open>Facts about generated code\<close>

lemma exec_list_append:
  "exec_list K as (xs @ ys) st = (case exec_list K as xs st of Cont st' \<Rightarrow> exec_list K as ys st' | r \<Rightarrow> r)"
proof (induction xs arbitrary: st)
  case (Cons i xs)
  then show ?case by (cases "exec_ins K as i st") simp_all
qed simp

text \<open>The numbers of the instructions a value mentions are below \<open>n\<close>.\<close>

fun below :: "nat \<Rightarrow> val \<Rightarrow> bool" where
  "below n (VInst i t) = (i < n)"
| "below n (VAggr c t vs) = (\<forall>v \<in> set vs. below n v)"
| "below n (VExpr k t vs) = (\<forall>v \<in> set vs. below n v)"
| "below n v = True"

lemma below_mono: "below n v \<Longrightarrow> n \<le> n' \<Longrightarrow> below n' v"
  by (induction n v rule: below.induct) auto

lemma eval_cong: "below n v \<Longrightarrow> (\<And>i. i < n \<Longrightarrow> l' i = l i) \<Longrightarrow> eval as l' v = eval as l v"
proof (induction as l v rule: eval.induct)
  case (7 as l c t vs)
  then have "map (eval as l') vs = map (eval as l) vs" by simp
  then show ?case by (simp only: eval.simps)
next
  case (11 as l k t vs)
  then have "map (eval as l') vs = map (eval as l) vs" by simp
  then show ?case by (simp only: eval.simps)
qed simp_all

text \<open>Generating code: the builder goes from \<open>b\<close> to \<open>b'\<close>, and the instructions added take the
  state \<open>st\<close> to \<open>st'\<close> without touching the values computed before.\<close>

definition emits :: "calls \<Rightarrow> sval list \<Rightarrow> builder \<Rightarrow> sstate \<Rightarrow> builder \<Rightarrow> sstate \<Rightarrow> bool" where
  "emits K as b st b' st' \<longleftrightarrow> fst b \<le> fst b' \<and> (\<forall>i < fst b. locals st' i = locals st i) \<and>
     (\<exists>is. snd b' = snd b @ is \<and> exec_list K as is st = Cont st')"

lemma emits_refl [simp]: "emits K as b st b st"
  by (simp add: emits_def)

lemma emits_trans:
  assumes "emits K as b st b1 st1" "emits K as b1 st1 b2 st2"
  shows "emits K as b st b2 st2"
proof -
  from assms obtain xs ys where "snd b1 = snd b @ xs" "exec_list K as xs st = Cont st1"
      "snd b2 = snd b1 @ ys" "exec_list K as ys st1 = Cont st2"
    by (auto simp: emits_def)
  then have "snd b2 = snd b @ (xs @ ys) \<and> exec_list K as (xs @ ys) st = Cont st2"
    by (simp add: exec_list_append)
  then show ?thesis using assms by (auto simp: emits_def)
qed

lemma emits_eval: "emits K as b st b' st' \<Longrightarrow> below (fst b) v \<Longrightarrow> eval as (locals st') v = eval as (locals st) v"
  by (rule eval_cong) (auto simp: emits_def)

lemma emits_below: "emits K as b st b' st' \<Longrightarrow> below (fst b) v \<Longrightarrow> below (fst b') v"
  by (auto simp: emits_def intro: below_mono)

lemma emit_emits:
  assumes "exec_ins K as (i\<lparr>i_id := fst b\<rparr>) st = Cont st'" "\<And>k. k < fst b \<Longrightarrow> locals st' k = locals st k"
  shows "emits K as b st (snd (emit i b)) st'"
  using assms by (auto simp: emits_def emit_def)

lemma emit_value [simp]: "fst (emit i b) = VInst (fst b) (i_ty i)" "fst (snd (emit i b)) = Suc (fst b)"
  by (simp_all add: emit_def)

lemmas exec_simps = exec_ins_def exec_op_def new_ins_def bind_local_def bind_opt_def Let_def

lemma CreateAlloca_emits:
  "emits K as b st (snd (CreateAlloca t b))
     (st\<lparr>locals := (locals st)(fst b \<mapsto> SPtr (OLoc (nloc st)) 0), nloc := Suc (nloc st),
        smem := (smem st)(OLoc (nloc st) \<mapsto> (t, undef_of t))\<rparr>)"
  unfolding CreateAlloca_def by (rule emit_emits) (simp_all add: exec_simps)

lemma CreateAlloca_value [simp]: "fst (CreateAlloca t b) = VInst (fst b) ptrTy" "fst (snd (CreateAlloca t b)) = Suc (fst b)"
  by (simp_all add: CreateAlloca_def new_ins_def)

lemma CreateStore_emits:
  assumes "eval as (locals st) v = Some x" "eval as (locals st) p = Some (SPtr ob 0)" "smem st ob \<noteq> None"
  shows "emits K as b st (CreateStore v p b) (st\<lparr>smem := (smem st)(ob \<mapsto> (val_ty v, x))\<rparr>)"
  unfolding CreateStore_def by (rule emit_emits) (use assms in \<open>simp_all add: exec_simps\<close>)

lemma CreateLoad_emits:
  assumes "eval as (locals st) p = Some q" "load_at t (smem st) q = Some x"
  shows "emits K as b st (snd (CreateLoad t p b)) (st\<lparr>locals := (locals st)(fst b \<mapsto> x)\<rparr>)"
  unfolding CreateLoad_def by (rule emit_emits) (use assms in \<open>simp_all add: exec_simps\<close>)

lemma CreateLoad_value [simp]: "fst (CreateLoad t p b) = VInst (fst b) t" "fst (snd (CreateLoad t p b)) = Suc (fst b)"
  by (simp_all add: CreateLoad_def new_ins_def)

lemma CreateExtractValue_emits:
  assumes "eval as (locals st) a = Some (SAgg xs)" "k < length xs"
  shows "emits K as b st (snd (CreateExtractValue a k b)) (st\<lparr>locals := (locals st)(fst b \<mapsto> xs ! k)\<rparr>)"
  unfolding CreateExtractValue_def by (rule emit_emits) (use assms in \<open>simp_all add: exec_simps\<close>)

lemma CreateExtractValue_value [simp]:
  "fst (CreateExtractValue a k b) = VInst (fst b) (elem_tys (val_ty a) ! k)" "fst (snd (CreateExtractValue a k b)) = Suc (fst b)"
  by (simp_all add: CreateExtractValue_def new_ins_def)

lemma CreateGEP_emits:
  assumes "eval as (locals st) p = Some (SPtr ob k)"
  shows "emits K as b st (snd (CreateGEP p j b)) (st\<lparr>locals := (locals st)(fst b \<mapsto> SPtr ob (k + sint j))\<rparr>)"
  unfolding CreateGEP_def by (rule emit_emits) (use assms in \<open>simp_all add: exec_simps\<close>)

lemma CreateGEP_value [simp]: "fst (CreateGEP p j b) = VInst (fst b) ptrTy" "fst (snd (CreateGEP p j b)) = Suc (fst b)"
  by (simp_all add: CreateGEP_def new_ins_def)

lemma CreateCall_emits:
  assumes "eval as (locals st) f = Some g" "those (map (eval as (locals st)) vs) = Some xs"
    and "K g xs (nloc st) (smem st) = Some (r, m)"
  shows "emits K as b st (snd (CreateCall fty f vs al b)) (st\<lparr>locals := (locals st)(fst b \<mapsto> r), smem := m\<rparr>)"
  unfolding CreateCall_def by (rule emit_emits) (use assms in \<open>simp_all add: exec_simps exec_call_def\<close>)

lemma CreateCall_value [simp]: "fst (CreateCall fty f vs al b) = VInst (fst b) (ret_ty fty)" "fst (snd (CreateCall fty f vs al b)) = Suc (fst b)"
  by (simp_all add: CreateCall_def new_ins_def)

lemma CreateStackSave_emits:
  "emits K as b st (snd (CreateStackSave b)) (st\<lparr>locals := (locals st)(fst b \<mapsto> SStack (nloc st))\<rparr>)"
  unfolding CreateStackSave_def by (rule emit_emits) (simp_all add: exec_simps)

lemma CreateStackSave_value [simp]: "fst (CreateStackSave b) = VInst (fst b) ptrTy" "fst (snd (CreateStackSave b)) = Suc (fst b)"
  by (simp_all add: CreateStackSave_def new_ins_def)

lemma CreateXor_emits:
  assumes "eval as (locals st) v = Some (SInt x)" "eval as (locals st) w = Some (SInt y)"
  shows "emits K as b st (snd (CreateXor v w b)) (st\<lparr>locals := (locals st)(fst b \<mapsto> SInt (x XOR y))\<rparr>)"
  unfolding CreateXor_def by (rule emit_emits) (use assms in \<open>simp_all add: exec_simps\<close>)

lemma CreateXor_value [simp]: "fst (CreateXor v w b) = VInst (fst b) (val_ty v)" "fst (snd (CreateXor v w b)) = Suc (fst b)"
  by (simp_all add: CreateXor_def new_ins_def)

lemma CreateICmpEQ_emits:
  assumes "eval as (locals st) v = Some (SInt x)" "eval as (locals st) w = Some (SInt y)"
  shows "emits K as b st (snd (CreateICmpEQ v w b)) (st\<lparr>locals := (locals st)(fst b \<mapsto> SInt (if x = y then 1 else 0))\<rparr>)"
  unfolding CreateICmpEQ_def by (rule emit_emits) (use assms in \<open>simp_all add: exec_simps\<close>)

lemma CreateICmpEQ_value [simp]: "fst (CreateICmpEQ v w b) = VInst (fst b) (IntegerTy 1)" "fst (snd (CreateICmpEQ v w b)) = Suc (fst b)"
  by (simp_all add: CreateICmpEQ_def new_ins_def)

lemma CreateIntToPtr_emits:
  assumes "eval as (locals st) v = Some (SInt x)"
  shows "emits K as b st (snd (CreateIntToPtr v b)) (st\<lparr>locals := (locals st)(fst b \<mapsto> SAddr x)\<rparr>)"
  unfolding CreateIntToPtr_def by (rule emit_emits) (use assms in \<open>simp_all add: exec_simps\<close>)

lemma CreateIntToPtr_value [simp]: "fst (CreateIntToPtr v b) = VInst (fst b) ptrTy" "fst (snd (CreateIntToPtr v b)) = Suc (fst b)"
  by (simp_all add: CreateIntToPtr_def new_ins_def)

lemma CreateStackRestore_emits:
  assumes "eval as (locals st) v = Some (SStack n)"
  shows "emits K as b st (CreateStackRestore v b) (st\<lparr>nloc := n, smem := pop_frame n (smem st)\<rparr>)"
  unfolding CreateStackRestore_def by (rule emit_emits) (use assms in \<open>simp_all add: exec_simps\<close>)


lemma undef_of_aggregate: "elem_tys t \<noteq> [] \<Longrightarrow> undef_of t = SAgg (map undef_of (elem_tys t))"
  by (cases t rule: elem_tys.cases) simp_all

lemma those_Somes [simp]: "those (map Some xs) = Some xs"
  by (induction xs) simp_all

lemma those_eq_Some: "those xs = Some ys \<longleftrightarrow> xs = map Some ys"
proof (induction xs arbitrary: ys)
  case (Cons x xs)
  then show ?case by (cases x; cases ys; cases "those xs") auto
qed auto

lemma eval_fold_insert:
  assumes "fold_insert a v k = Some c" "eval as l a = Some (SAgg xs)" "eval as l v = Some y" "below n a" "below n v"
  shows "eval as l c = Some (SAgg (xs[k := y])) \<and> below n c \<and> val_ty c = val_ty a"
proof (cases a)
  case (VUndef t)
  with assms(1) have k: "k < length (elem_tys t)" and
      c: "c = VAggr (aggr_kind t) t ((map VUndef (elem_tys t))[k := v])"
    by (simp_all split: if_splits)
  have "undef_of t = SAgg (map undef_of (elem_tys t))"
    by (rule undef_of_aggregate) (use k in auto)
  then have xs: "xs = map undef_of (elem_tys t)" using assms(2) VUndef by simp
  have "map (eval as l) ((map VUndef (elem_tys t))[k := v]) = map Some (xs[k := y])"
    using assms(3) by (simp add: map_update xs comp_def)
  moreover have "below n w" if "w \<in> set ((map VUndef (elem_tys t))[k := v])" for w
    using that assms(5) by (auto dest!: set_update_subset_insert [THEN subsetD])
  ultimately show ?thesis unfolding c by (simp add: VUndef)
next
  case (VAggr d t vs)
  with assms(1) have k: "k < length vs" and c: "c = VAggr d t (vs[k := v])" by (simp_all split: if_splits)
  from assms(2) VAggr have "map (eval as l) vs = map Some xs" by (auto simp: those_eq_Some)
  then have "map (eval as l) (vs[k := v]) = map Some (xs[k := y])"
    using assms(3) by (simp add: map_update)
  moreover have "below n w" if "w \<in> set (vs[k := v])" for w
    using that assms(4,5) VAggr by (auto dest!: set_update_subset_insert [THEN subsetD])
  ultimately show ?thesis unfolding c by (simp add: VAggr)
qed (use assms(1) in simp_all)

lemma CreateInsertValue_emits:
  assumes "eval as (locals st) a = Some (SAgg xs)" "k < length xs" "eval as (locals st) v = Some y"
    and "below (fst b) a" "below (fst b) v"
  shows "\<exists>st'. emits K as b st (snd (CreateInsertValue a v k b)) st' \<and> smem st' = smem st \<and> nloc st' = nloc st \<and>
    eval as (locals st') (fst (CreateInsertValue a v k b)) = Some (SAgg (xs[k := y])) \<and>
    below (fst (snd (CreateInsertValue a v k b))) (fst (CreateInsertValue a v k b)) \<and>
    val_ty (fst (CreateInsertValue a v k b)) = val_ty a"
proof (cases "if is_const v then fold_insert a v k else None")
  case (Some c)
  then have "fold_insert a v k = Some c" by (simp split: if_splits)
  from eval_fold_insert [OF this assms(1,3,4,5)] Some show ?thesis
    by (intro exI [of _ st]) (simp add: CreateInsertValue_def)
next
  case None
  let ?i = "new_ins 0 (InsertValue k) (val_ty a) [a, v]"
  from None have e: "CreateInsertValue a v k b = emit ?i b" by (simp add: CreateInsertValue_def)
  have "emits K as b st (snd (emit ?i b)) (st\<lparr>locals := (locals st)(fst b \<mapsto> SAgg (xs[k := y]))\<rparr>)"
    by (rule emit_emits) (use assms(1-3) in \<open>simp_all add: exec_simps\<close>)
  then show ?thesis unfolding e by (intro exI [of _ "st\<lparr>locals := (locals st)(fst b \<mapsto> SAgg (xs[k := y]))\<rparr>"]) (simp add: new_ins_def)
qed

lemma insert_values_emits:
  assumes "eval as (locals st) a = Some (SAgg xs)" "k + length vs \<le> length xs" "map (eval as (locals st)) vs = map Some ys"
    and "below (fst b) a" "\<forall>v \<in> set vs. below (fst b) v" "insert_values a k vs b = (a', b')"
  shows "\<exists>st'. emits K as b st b' st' \<and> smem st' = smem st \<and> nloc st' = nloc st \<and> below (fst b') a' \<and> val_ty a' = val_ty a \<and>
    eval as (locals st') a' = Some (SAgg (take k xs @ ys @ drop (k + length ys) xs))"
  using assms
proof (induction vs arbitrary: a k b st xs ys)
  case (Cons v vs)
  from Cons.prems(3) obtain y ys1 where ys: "ys = y # ys1" and y: "eval as (locals st) v = Some y"
      and ys1: "map (eval as (locals st)) vs = map Some ys1"
    by (cases ys) auto
  obtain a1 b1 where ab: "CreateInsertValue a v k b = (a1, b1)" by (cases "CreateInsertValue a v k b")
  have "\<exists>st1. emits K as b st b1 st1 \<and> smem st1 = smem st \<and> nloc st1 = nloc st \<and>
      eval as (locals st1) a1 = Some (SAgg (xs[k := y])) \<and> below (fst b1) a1 \<and> val_ty a1 = val_ty a"
    using CreateInsertValue_emits [of as st a xs k v y b K] Cons.prems y by (simp add: ab)
  then obtain st1 where st1: "emits K as b st b1 st1" "smem st1 = smem st" "nloc st1 = nloc st"
      "eval as (locals st1) a1 = Some (SAgg (xs[k := y]))" "below (fst b1) a1" "val_ty a1 = val_ty a"
    by blast
  have vs: "\<forall>w \<in> set vs. below (fst b1) w" using emits_below [OF st1(1)] Cons.prems(5) by simp
  have "map (eval as (locals st1)) vs = map Some ys1"
    using emits_eval [OF st1(1)] Cons.prems(5) ys1 by (simp cong: map_cong)
  from Cons.IH [OF st1(4) _ this st1(5) vs, of "Suc k"] Cons.prems(2,6) ab
  obtain st' where st': "emits K as b1 st1 b' st'" "smem st' = smem st1" "nloc st' = nloc st1" "below (fst b') a'"
      "val_ty a' = val_ty a1" "eval as (locals st') a' = Some (SAgg (take (Suc k) (xs[k := y]) @ ys1 @ drop (Suc k + length ys1) (xs[k := y])))"
    by (auto simp: Let_def)
  have "take (Suc k) (xs[k := y]) @ ys1 @ drop (Suc k + length ys1) (xs[k := y]) = take k xs @ ys @ drop (k + length ys) xs"
    using Cons.prems(2) by (simp add: ys take_Suc_conv_app_nth)
  then show ?case using st1 st' emits_trans [OF st1(1) st'(1)] by auto
next
  case Nil
  then show ?case by (intro exI [of _ st]) simp
qed

lemma insert_all_emits:
  assumes "length (elem_tys t) = length vs" "vs \<noteq> []" "map (eval as (locals st)) vs = map Some ys"
    and "\<forall>v \<in> set vs. below (fst b) v" "insert_values (VUndef t) 0 vs b = (a, b')"
  shows "\<exists>st'. emits K as b st b' st' \<and> smem st' = smem st \<and> nloc st' = nloc st \<and> below (fst b') a \<and> val_ty a = t \<and>
    eval as (locals st') a = Some (SAgg ys)"
proof -
  have "length vs = length ys" using arg_cong [OF assms(3), of length] by simp
  moreover have "eval as (locals st) (VUndef t) = Some (SAgg (map undef_of (elem_tys t)))"
    using undef_of_aggregate [of t] assms(1,2) by (cases "elem_tys t") simp_all
  ultimately show ?thesis
    using insert_values_emits [OF _ _ assms(3) _ assms(4,5), of "map undef_of (elem_tys t)"] assms(1) by auto
qed

lemma extract_values_emits:
  assumes "eval as (locals st) a = Some (SAgg xs)" "k + n \<le> length xs" "below (fst b) a" "extract_values a k n b = (vs, b')"
  shows "\<exists>st'. emits K as b st b' st' \<and> smem st' = smem st \<and> nloc st' = nloc st \<and> (\<forall>v \<in> set vs. below (fst b') v) \<and>
    map (eval as (locals st')) vs = map Some (take n (drop k xs))"
  using assms
proof (induction n arbitrary: k b st vs)
  case 0
  then show ?case by (intro exI [of _ st]) simp
next
  case (Suc n)
  obtain ws where ws: "vs = fst (CreateExtractValue a k b) # ws" "extract_values a (Suc k) n (snd (CreateExtractValue a k b)) = (ws, b')"
    using Suc.prems(4) by (simp add: Let_def prod_eq_iff)
  let ?b1 = "snd (CreateExtractValue a k b)" and ?st1 = "st\<lparr>locals := (locals st)(fst b \<mapsto> xs ! k)\<rparr>"
  have e1: "emits K as b st ?b1 ?st1"
    by (rule CreateExtractValue_emits) (use Suc.prems in simp_all)
  have ev: "eval as (locals ?st1) a = Some (SAgg xs)"
    using emits_eval [OF e1 Suc.prems(3)] Suc.prems(1) by simp
  from Suc.IH [OF ev _ emits_below [OF e1 Suc.prems(3)] ws(2)] Suc.prems(2)
  obtain st' where st': "emits K as ?b1 ?st1 b' st'" "smem st' = smem st" "nloc st' = nloc st" "\<forall>v \<in> set ws. below (fst b') v"
      "map (eval as (locals st')) ws = map Some (take n (drop (Suc k) xs))"
    by auto
  have v: "below (fst ?b1) (fst (CreateExtractValue a k b))" by simp
  have "eval as (locals st') (fst (CreateExtractValue a k b)) = Some (xs ! k)"
    using emits_eval [OF st'(1) v] by simp
  moreover have "take (Suc n) (drop k xs) = xs ! k # take n (drop (Suc k) xs)"
    using Suc.prems(2) by (simp add: Cons_nth_drop_Suc [symmetric])
  ultimately show ?case
    using emits_trans [OF e1 st'(1)] emits_below [OF st'(1) v] st' by (intro exI [of _ st']) (simp add: ws(1))
qed

lemma extract_values_length: "extract_values a k n b = (vs, b') \<Longrightarrow> length vs = n"
  by (induction a k n b arbitrary: vs b' rule: extract_values.induct) (auto simp: Let_def prod_eq_iff)

text \<open>The end of a block.\<close>

lemma exec_emits_ret:
  assumes "emits K as (n, []) st b st'" "case r of None \<Rightarrow> v = SUndef | Some x \<Rightarrow> eval as (locals st') x = Some v"
  shows "exec_list K as (snd (CreateRet r b)) st = Returned v (smem st')"
proof -
  from assms(1) have "exec_list K as (snd b) st = Cont st'" by (auto simp: emits_def)
  then show ?thesis using assms(2)
    by (cases r) (simp_all add: CreateRet_def emit_def exec_list_append exec_simps)
qed

lemma exec_emits_br: "emits K as (n, []) st b st' \<Longrightarrow> exec_list K as (snd (CreateBr l b)) st = Jump l st'"
  by (auto simp: emits_def CreateBr_def emit_def exec_list_append exec_simps exec_branch_def)

end
