(* ===== verification/Plug_Hash.thy ===== *)
theory Plug_Hash
  imports Plug_Json
begin

text \<open>
  The hashes of signatures of \<open>src/lib/gyhcall/type_hash.cpp\<close>, by which the compiler plugin
  names stubs and matches a call site on one side with a stub on the other.  LLVM's
  \<open>hash_combine\<close>, its type and attribute numbers and its hexadecimal conversions are fields of a
  record \<open>llvm\<close>.
\<close>

section \<open>What LLVM provides\<close>

datatype ty_tag =
    HalfTyID | BFloatTyID | FloatTyID | DoubleTyID | X86_FP80TyID | FP128TyID | PPC_FP128TyID
  | VoidTyID | LabelTyID | MetadataTyID | X86_MMXTyID | X86_AMXTyID | TokenTyID | IntegerTyID
  | FunctionTyID | PointerTyID | StructTyID | ArrayTyID | FixedVectorTyID | ScalableVectorTyID
  | TypedPointerTyID | TargetExtTyID

text \<open>An argument of \<open>hash_combine\<close>: a hash, an unsigned number, a truth value, a string, an
  optional hash, or a type identifier.\<close>

datatype harg = HCode u64 | HUInt u64 | HBool bool | HStr string | HOpt "u64 option" | HTag ty_tag

text \<open>\<open>kind_code\<close> numbers the kinds of attributes, \<open>string_kind\<close> is what \<open>getKindAsEnum()\<close> gives on
  a string attribute (it is documented for the others only), \<open>utohexstr x w\<close> the upper-case hexadecimal form of
  \<open>x\<close> of width \<open>w\<close>, and \<open>getAsInteger16\<close> the conversion of a string back.\<close>

record llvm =
  hash_combine :: "harg list \<Rightarrow> u64"
  type_id :: "ty_tag \<Rightarrow> u64"
  kind_code :: "attr_kind \<Rightarrow> u64"
  string_kind :: "string \<Rightarrow> string \<Rightarrow> u64"
  isSized :: "ty \<Rightarrow> bool"
  utohexstr :: "u64 \<Rightarrow> nat \<Rightarrow> string"
  getAsInteger16 :: "string \<Rightarrow> u64 option"

fun getKindAsEnum :: "llvm \<Rightarrow> attribute \<Rightarrow> u64" where
  "getKindAsEnum H InvalidAttr = 0"
| "getKindAsEnum H (EnumAttr k) = kind_code H k"
| "getKindAsEnum H (IntAttr k v) = kind_code H k"
| "getKindAsEnum H (StringAttr k v) = string_kind H k v"
| "getKindAsEnum H (TypeAttr k t) = kind_code H k"

section \<open>Hashes of types\<close>

text \<open>The loops over parameters and elements: combine the hashes one after another; the first that
  is missing ends the function with no hash.\<close>

fun combine_all :: "llvm \<Rightarrow> (u64 \<Rightarrow> harg) \<Rightarrow> u64 \<Rightarrow> u64 option list \<Rightarrow> u64 option" where
  "combine_all H c ret [] = Some ret"
| "combine_all H c ret (None # hs) = None"
| "combine_all H c ret (Some h # hs) = combine_all H c (hash_combine H [HCode ret, c h]) hs"

definition type_hash_Integer :: "llvm \<Rightarrow> u32 \<Rightarrow> u64 option" where
  "type_hash_Integer H w = Some (hash_combine H [HTag IntegerTyID, HUInt (ucast w)])"

definition type_hash_Pointer :: "llvm \<Rightarrow> u32 \<Rightarrow> u64 option" where
  "type_hash_Pointer H a = Some (hash_combine H [HTag PointerTyID, HUInt (ucast a)])"

text \<open>The overloads for composite types, given the hashes of the components.\<close>

definition type_hash_Function :: "llvm \<Rightarrow> u64 option \<Rightarrow> u64 option list \<Rightarrow> bool \<Rightarrow> u64 option" where
  "type_hash_Function H retHash paramHashes va = (case retHash of
     None \<Rightarrow> None
   | Some r \<Rightarrow> (case combine_all H HCode (hash_combine H [HCode (type_id H FunctionTyID), HCode r]) paramHashes of
       None \<Rightarrow> None
     | Some ret \<Rightarrow> Some (hash_combine H [HCode ret, HBool va])))"

definition type_hash_Struct :: "llvm \<Rightarrow> u64 option list option \<Rightarrow> bool \<Rightarrow> bool \<Rightarrow> u64 option" where
  "type_hash_Struct H elemHashes packed sized = (case elemHashes of
     None \<Rightarrow> None
   | Some hs \<Rightarrow> (case combine_all H (\<lambda>h. HOpt (Some h)) (type_id H StructTyID) hs of
       None \<Rightarrow> None
     | Some ret \<Rightarrow> Some (hash_combine H [HCode ret, HBool packed, HBool sized])))"

definition type_hash_Sequence :: "llvm \<Rightarrow> ty_tag \<Rightarrow> u64 option \<Rightarrow> u64 \<Rightarrow> u64 option" where
  "type_hash_Sequence H tag elemHash n = (case elemHash of
     None \<Rightarrow> None
   | Some h \<Rightarrow> Some (hash_combine H [HCode (type_id H tag), HCode h, HUInt n]))"

fun type_hash :: "llvm \<Rightarrow> ty \<Rightarrow> u64 option" where
  "type_hash H HalfTy = Some (type_id H HalfTyID)"
| "type_hash H BFloatTy = Some (type_id H BFloatTyID)"
| "type_hash H FloatTy = Some (type_id H FloatTyID)"
| "type_hash H DoubleTy = Some (type_id H DoubleTyID)"
| "type_hash H FP128Ty = Some (type_id H FP128TyID)"
| "type_hash H VoidTy = Some (type_id H VoidTyID)"
| "type_hash H LabelTy = Some (type_id H LabelTyID)"
| "type_hash H MetadataTy = Some (type_id H MetadataTyID)"
| "type_hash H TokenTy = Some (type_id H TokenTyID)"
| "type_hash H (IntegerTy w) = type_hash_Integer H w"
| "type_hash H (FunctionTy r ps va) = type_hash_Function H (type_hash H r) (map (type_hash H) ps) va"
| "type_hash H (PointerTy a) = type_hash_Pointer H a"
| "type_hash H (StructTy n es packed) =
     type_hash_Struct H (map_option (map (type_hash H)) es) packed (isSized H (StructTy n es packed))"
| "type_hash H (ArrayTy e n) = type_hash_Sequence H ArrayTyID (type_hash H e) n"
| "type_hash H (FixedVectorTy e n) = type_hash_Sequence H FixedVectorTyID (type_hash H e) (ucast n)"
| "type_hash H (ScalableVectorTy e n) = type_hash_Sequence H ScalableVectorTyID (type_hash H e) (ucast n)"
| "type_hash H X86_FP80Ty = None"
| "type_hash H PPC_FP128Ty = None"
| "type_hash H X86_MMXTy = None"
| "type_hash H X86_AMXTy = None"
| "type_hash H (TypedPointerTy t a) = None"
| "type_hash H (TargetExtTy n) = None"

section \<open>Hashes of attributes and signatures\<close>

definition attribute_hash :: "llvm \<Rightarrow> attribute \<Rightarrow> u64 option" where
  "attribute_hash H attr = (case attr of
     InvalidAttr \<Rightarrow> None
   | EnumAttr k \<Rightarrow> Some (getKindAsEnum H attr)
   | IntAttr k v \<Rightarrow> Some (hash_combine H [HCode (getKindAsEnum H attr), HUInt v])
   | StringAttr k v \<Rightarrow> Some (hash_combine H [HCode (getKindAsEnum H attr), HStr v])
   | TypeAttr k t \<Rightarrow> Some (hash_combine H [HCode (getKindAsEnum H attr), HOpt (type_hash H t)]))"

definition attribute_set_hash :: "llvm \<Rightarrow> attr_set \<Rightarrow> u64 option" where
  "attribute_set_hash H as = combine_all H HCode 200000406 (map (attribute_hash H) as)"

definition attribute_list_hash :: "llvm \<Rightarrow> attr_list \<Rightarrow> u64 option" where
  "attribute_list_hash H al = combine_all H HCode 200000906 (map (attribute_set_hash H) al)"

definition signature_hash :: "llvm \<Rightarrow> ty \<Rightarrow> attr_list \<Rightarrow> u64 option" where
  "signature_hash H fty al = (case type_hash H fty of
     None \<Rightarrow> None
   | Some t \<Rightarrow> (case attribute_list_hash H al of
       None \<Rightarrow> None
     | Some a \<Rightarrow> Some (hash_combine H [HCode (hash_combine H [HCode 20010313, HCode t]), HCode a])))"

definition function_hash :: "llvm \<Rightarrow> func \<Rightarrow> u64 option" where
  "function_hash H f = signature_hash H (f_fty f) (f_attrs f)"

definition call_site_hash :: "llvm \<Rightarrow> instr \<Rightarrow> u64 option" where
  "call_site_hash H i = signature_hash H (i_fty i) (i_attrs i)"

definition hash2str :: "llvm \<Rightarrow> u64 \<Rightarrow> string" where
  "hash2str H hc = utohexstr H hc 16"

definition str2hash :: "llvm \<Rightarrow> string \<Rightarrow> (gyh_error, u64) result" where
  "str2hash H s = (case getAsInteger16 H s of None \<Rightarrow> Inl NotAHexNumber | Some h \<Rightarrow> Inr h)"

section \<open>Collisions\<close>

text \<open>The calls of \<open>hash_combine\<close> made while hashing.  Two hashes can only coincide for different
  signatures when two of these calls collide, or one of them gives a number LLVM or the plugin
  uses as a starting value.\<close>

fun chain_calls :: "llvm \<Rightarrow> (u64 \<Rightarrow> harg) \<Rightarrow> u64 \<Rightarrow> u64 option list \<Rightarrow> harg list set" where
  "chain_calls H c ret [] = {}"
| "chain_calls H c ret (None # hs) = {}"
| "chain_calls H c ret (Some h # hs) =
     insert [HCode ret, c h] (chain_calls H c (hash_combine H [HCode ret, c h]) hs)"

text \<open>How a type gets its hash: as a starting value, or as the result of a last call.\<close>

fun ty_last :: "llvm \<Rightarrow> ty \<Rightarrow> (u64 + harg list) option" where
  "ty_last H (IntegerTy w) = Some (Inr [HTag IntegerTyID, HUInt (ucast w)])"
| "ty_last H (PointerTy a) = Some (Inr [HTag PointerTyID, HUInt (ucast a)])"
| "ty_last H (FunctionTy r ps va) =
     map_option (\<lambda>ret. Inr [HCode ret, HBool va])
       (combine_all H HCode (type_id H FunctionTyID) (type_hash H r # map (type_hash H) ps))"
| "ty_last H (StructTy n es packed) =
     Option.bind es (\<lambda>es'. map_option (\<lambda>ret. Inr [HCode ret, HBool packed, HBool (isSized H (StructTy n es packed))])
       (combine_all H (\<lambda>h. HOpt (Some h)) (type_id H StructTyID) (map (type_hash H) es')))"
| "ty_last H (ArrayTy e n) = map_option (\<lambda>h. Inr [HCode (type_id H ArrayTyID), HCode h, HUInt n]) (type_hash H e)"
| "ty_last H (FixedVectorTy e n) =
     map_option (\<lambda>h. Inr [HCode (type_id H FixedVectorTyID), HCode h, HUInt (ucast n)]) (type_hash H e)"
| "ty_last H (ScalableVectorTy e n) =
     map_option (\<lambda>h. Inr [HCode (type_id H ScalableVectorTyID), HCode h, HUInt (ucast n)]) (type_hash H e)"
| "ty_last H t = map_option Inl (type_hash H t)"

definition hash_of :: "llvm \<Rightarrow> u64 + harg list \<Rightarrow> u64" where
  "hash_of H l = (case l of Inl c \<Rightarrow> c | Inr as \<Rightarrow> hash_combine H as)"

lemma type_hash_last: "type_hash H t = map_option (hash_of H) (ty_last H t)"
  by (cases t) (simp_all add: hash_of_def type_hash_Integer_def type_hash_Pointer_def type_hash_Function_def
      type_hash_Struct_def type_hash_Sequence_def option.map_comp comp_def split: option.split)

fun ty_calls :: "llvm \<Rightarrow> ty \<Rightarrow> harg list set" where
  "ty_calls H (FunctionTy r ps va) = {as. ty_last H (FunctionTy r ps va) = Some (Inr as)} \<union> ty_calls H r \<union>
     (\<Union>p \<in> set ps. ty_calls H p) \<union>
     chain_calls H HCode (type_id H FunctionTyID) (type_hash H r # map (type_hash H) ps)"
| "ty_calls H (StructTy n (Some es) packed) = {as. ty_last H (StructTy n (Some es) packed) = Some (Inr as)} \<union>
     (\<Union>e \<in> set es. ty_calls H e) \<union>
     chain_calls H (\<lambda>h. HOpt (Some h)) (type_id H StructTyID) (map (type_hash H) es)"
| "ty_calls H (ArrayTy e n) = {as. ty_last H (ArrayTy e n) = Some (Inr as)} \<union> ty_calls H e"
| "ty_calls H (FixedVectorTy e n) = {as. ty_last H (FixedVectorTy e n) = Some (Inr as)} \<union> ty_calls H e"
| "ty_calls H (ScalableVectorTy e n) = {as. ty_last H (ScalableVectorTy e n) = Some (Inr as)} \<union> ty_calls H e"
| "ty_calls H t = {as. ty_last H t = Some (Inr as)}"

lemma ty_last_call: "ty_last H t = Some (Inr as) \<Longrightarrow> as \<in> ty_calls H t"
  by (cases "(H, t)" rule: ty_calls.cases) auto

text \<open>No collision among a set of calls, and none of them gives a starting value.\<close>

definition base_codes :: "llvm \<Rightarrow> u64 set" where
  "base_codes H = range (type_id H) \<union> range (getKindAsEnum H) \<union> {200000406, 200000906, 20010313}"

definition collision_free :: "llvm \<Rightarrow> harg list set \<Rightarrow> bool" where
  "collision_free H S \<longleftrightarrow> inj_on (hash_combine H) S \<and> hash_combine H ` S \<inter> base_codes H = {} \<and> inj (type_id H)"

definition chain :: "llvm \<Rightarrow> (u64 \<Rightarrow> harg) \<Rightarrow> u64 \<Rightarrow> u64 list \<Rightarrow> u64" where
  "chain H c = foldl (\<lambda>r k. hash_combine H [HCode r, c k])"

lemma combine_all_chain:
  "combine_all H c s os = Some r \<longleftrightarrow> (\<exists>ks. os = map Some ks \<and> r = chain H c s ks)"
proof (induction H c s os rule: combine_all.induct)
  case (3 H c ret h hs)
  then show ?case by (auto simp: chain_def Cons_eq_map_conv)
qed (auto simp: chain_def)

lemma chain_calls_snoc:
  "chain_calls H c s (map Some (ks @ [k])) = insert [HCode (chain H c s ks), c k] (chain_calls H c s (map Some ks))"
  by (induction ks arbitrary: s) (auto simp: chain_def)

lemma chain_Nil [simp]: "chain H c s [] = s"
  by (simp add: chain_def)

lemma chain_snoc: "chain H c s (ks @ [k]) = hash_combine H [HCode (chain H c s ks), c k]"
  by (simp add: chain_def)

lemma chain_inj:
  assumes cf: "collision_free H S" and s: "s \<in> base_codes H" and c: "inj c"
    and "chain_calls H c s (map Some ks) \<subseteq> S" "chain_calls H c s (map Some ks') \<subseteq> S"
    and "chain H c s ks = chain H c s ks'"
  shows "ks = ks'"
  using assms(4-6)
proof (induction ks arbitrary: ks' rule: rev_induct)
  case Nil
  have "chain H c s ks' \<noteq> s" if "ks' \<noteq> []"
  proof -
    from that obtain a b where "ks' = a @ [b]" by (meson rev_exhaust)
    with Nil(2) cf s show ?thesis by (auto simp: chain_snoc chain_calls_snoc collision_free_def simp del: map_append)
  qed
  with Nil(3) show ?case by (auto simp: chain_def)
next
  case (snoc k ks)
  show ?case
  proof (cases ks' rule: rev_exhaust)
    case Nil
    with snoc(2,4) cf s show ?thesis
      by (auto simp: chain_snoc chain_calls_snoc collision_free_def simp del: map_append)
  next
    case (snoc ls l)
    with \<open>chain_calls H c s (map Some (ks @ [k])) \<subseteq> S\<close> \<open>chain_calls H c s (map Some ks') \<subseteq> S\<close>
      \<open>chain H c s (ks @ [k]) = chain H c s ks'\<close> cf
    have "[HCode (chain H c s ks), c k] = [HCode (chain H c s ls), c l]"
      by (auto simp: chain_snoc chain_calls_snoc collision_free_def dest: inj_onD simp del: map_append)
    with snoc snoc.IH [of ls] \<open>chain_calls H c s (map Some (ks @ [k])) \<subseteq> S\<close>
      \<open>chain_calls H c s (map Some ks') \<subseteq> S\<close> c show ?thesis
      by (auto simp: chain_calls_snoc dest: injD simp del: map_append)
  qed
qed

lemma combine_all_total: "combine_all H c s os = Some r \<Longrightarrow> \<forall>x \<in> set os. x \<noteq> None"
  by (auto simp: combine_all_chain)

lemma combine_all_inj:
  assumes "collision_free H S" "s \<in> base_codes H" "inj c"
    and "chain_calls H c s os \<subseteq> S" "chain_calls H c s os' \<subseteq> S"
    and "combine_all H c s os = Some r" "combine_all H c s os' = Some r"
  shows "os = os'"
  using assms chain_inj [OF assms(1-3)] by (auto simp: combine_all_chain)

text \<open>Types equal up to the names of structures.\<close>

fun ty_norm :: "ty \<Rightarrow> ty" where
  "ty_norm (FunctionTy r ps va) = FunctionTy (ty_norm r) (map ty_norm ps) va"
| "ty_norm (StructTy n es packed) = StructTy [] (map_option (map ty_norm) es) packed"
| "ty_norm (ArrayTy e n) = ArrayTy (ty_norm e) n"
| "ty_norm (FixedVectorTy e n) = FixedVectorTy (ty_norm e) n"
| "ty_norm (ScalableVectorTy e n) = ScalableVectorTy (ty_norm e) n"
| "ty_norm (TypedPointerTy t a) = TypedPointerTy (ty_norm t) a"
| "ty_norm t = t"

lemma last_inj:
  assumes cf: "collision_free H S" and "ty_calls H t \<subseteq> S" "ty_calls H t' \<subseteq> S"
    and "type_hash H t = Some h" "type_hash H t' = Some h"
  shows "\<exists>l. ty_last H t = Some l \<and> ty_last H t' = Some l"
proof -
  from assms(4,5) obtain l l' where l: "ty_last H t = Some l" "ty_last H t' = Some l'" "hash_of H l = hash_of H l'"
    by (auto simp: type_hash_last)
  have base: "c \<in> base_codes H" if "ty_last H u = Some (Inl c)" for u c
    using that by (cases u) (auto simp: base_codes_def bind_eq_Some_conv)
  have call: "as \<in> S" "hash_combine H as \<notin> base_codes H" if "ty_last H t = Some (Inr as) \<or> ty_last H t' = Some (Inr as)" for as
  proof -
    show "as \<in> S" using that assms(2,3) by (auto dest: ty_last_call)
    then show "hash_combine H as \<notin> base_codes H" using cf by (auto simp: collision_free_def)
  qed
  have "l = l'"
  proof (cases l)
    case (Inl c)
    then have "c \<in> base_codes H" using l(1) base by simp
    with Inl l(2,3) call(2) show ?thesis by (cases l') (auto simp: hash_of_def)
  next
    case (Inr as)
    note as = call [of as] l(1) [unfolded Inr]
    show ?thesis
    proof (cases l')
      case (Inl c)
      then have "c \<in> base_codes H" using l(2) base by simp
      with Inl Inr l(3) as show ?thesis by (simp add: hash_of_def)
    next
      case (Inr as')
      then have "as' \<in> S" using call(1) [of as'] l(2) by simp
      moreover have "inj_on (hash_combine H) S" using cf by (simp add: collision_free_def)
      ultimately show ?thesis
        using as l(3) Inr \<open>l = Inr as\<close> by (simp add: hash_of_def inj_on_eq_iff)
    qed
  qed
  with l show ?thesis by blast
qed

lemma map_key_eq:
  assumes "map f xs = map f ys" "\<forall>x \<in> set xs. f x \<noteq> None"
    and "\<And>x y h. x \<in> set xs \<Longrightarrow> y \<in> set ys \<Longrightarrow> f x = Some h \<Longrightarrow> f y = Some h \<Longrightarrow> k x = k y"
  shows "map k xs = map k ys"
proof (rule nth_equalityI)
  show len: "length (map k xs) = length (map k ys)"
    using assms(1) by (metis length_map)
  fix i assume i: "i < length (map k xs)"
  then have "f (xs ! i) = f (ys ! i)"
    using assms(1) len by (metis length_map nth_map)
  moreover obtain h where "f (xs ! i) = Some h" using assms(2) i by fastforce
  ultimately have "k (xs ! i) = k (ys ! i)"
    using i len by (intro assms(3) [of _ _ h]) simp_all
  then show "map k xs ! i = map k ys ! i" using i len by simp
qed

fun composite :: "ty \<Rightarrow> bool" where
  "composite (FunctionTy r ps va) = True"
| "composite (StructTy n es packed) = True"
| "composite (ArrayTy e n) = True"
| "composite (FixedVectorTy e n) = True"
| "composite (ScalableVectorTy e n) = True"
| "composite t = False"

lemma ucast_u32_eq [simp]: "(ucast (a :: u32) :: u64) = ucast b \<longleftrightarrow> a = b"
proof
  assume "(ucast a :: u64) = ucast b"
  then have "unat (ucast a :: u64) = unat (ucast b :: u64)" by simp
  moreover have "unat x < 2 ^ 64" for x :: u32
    by (rule less_le_trans [OF unsigned_less]) simp
  ultimately show "a = b"
    by (simp add: unsigned_ucast_eq take_bit_nat_eq_self word_unat_eq_iff)
qed simp

text \<open>The types whose hash is their number.\<close>

fun simple_tag :: "ty \<Rightarrow> ty_tag option" where
  "simple_tag HalfTy = Some HalfTyID"
| "simple_tag BFloatTy = Some BFloatTyID"
| "simple_tag FloatTy = Some FloatTyID"
| "simple_tag DoubleTy = Some DoubleTyID"
| "simple_tag FP128Ty = Some FP128TyID"
| "simple_tag VoidTy = Some VoidTyID"
| "simple_tag LabelTy = Some LabelTyID"
| "simple_tag MetadataTy = Some MetadataTyID"
| "simple_tag TokenTy = Some TokenTyID"
| "simple_tag t = None"

fun untag :: "ty_tag \<Rightarrow> ty" where
  "untag HalfTyID = HalfTy"
| "untag BFloatTyID = BFloatTy"
| "untag FloatTyID = FloatTy"
| "untag DoubleTyID = DoubleTy"
| "untag FP128TyID = FP128Ty"
| "untag VoidTyID = VoidTy"
| "untag LabelTyID = LabelTy"
| "untag MetadataTyID = MetadataTy"
| "untag t = TokenTy"

lemma untag_simple: "simple_tag t = Some g \<Longrightarrow> untag g = t"
  by (cases t) auto

lemma last_Inl: "ty_last H t = Some (Inl c) \<Longrightarrow> \<exists>g. simple_tag t = Some g \<and> c = type_id H g"
  by (cases t) (auto simp: bind_eq_Some_conv)

lemma last_Integer: "ty_last H t = Some (Inr [HTag IntegerTyID, x]) \<Longrightarrow> \<exists>w. t = IntegerTy w \<and> x = HUInt (ucast w)"
  by (cases t) (auto simp: bind_eq_Some_conv)

lemma last_Pointer: "ty_last H t = Some (Inr [HTag PointerTyID, x]) \<Longrightarrow> \<exists>w. t = PointerTy w \<and> x = HUInt (ucast w)"
  by (cases t) (auto simp: bind_eq_Some_conv)

lemma leaf_last:
  assumes "inj (type_id H)" "\<not> composite t" "ty_last H t = Some l" "ty_last H t' = Some l"
  shows "t' = t"
proof (cases l)
  case (Inl c)
  with assms(3,4) last_Inl [of H t c] last_Inl [of H t' c] obtain g g' where
    "simple_tag t = Some g" "simple_tag t' = Some g'" "type_id H g = type_id H g'" by auto
  with assms(1) untag_simple [of t g] untag_simple [of t' g'] show ?thesis by (simp add: inj_eq)
next
  case (Inr as)
  from assms(2,3) this obtain w where "t = IntegerTy w \<and> as = [HTag IntegerTyID, HUInt (ucast w)] \<or>
      t = PointerTy w \<and> as = [HTag PointerTyID, HUInt (ucast w)]"
    by (cases t) auto
  with assms(4) Inr last_Integer [of H t'] last_Pointer [of H t'] show ?thesis by fastforce
qed

lemma leaf_norm:
  assumes "collision_free H S" "\<not> composite t" "ty_calls H t \<subseteq> S" "ty_calls H t' \<subseteq> S"
    and "type_hash H t = Some h" "type_hash H t' = Some h"
  shows "ty_norm t = ty_norm t'"
proof -
  from last_inj [OF assms(1,3-6)] obtain l where "ty_last H t = Some l" "ty_last H t' = Some l" by blast
  with assms(1,2) leaf_last [of H t l t'] show ?thesis by (simp add: collision_free_def)
qed

lemma type_hash_inj:
  assumes cf: "collision_free H S"
  shows "ty_calls H t \<subseteq> S \<Longrightarrow> ty_calls H t' \<subseteq> S \<Longrightarrow> type_hash H t = Some h \<Longrightarrow> type_hash H t' = Some h \<Longrightarrow>
    ty_norm t = ty_norm t'"
proof (induction t arbitrary: t' h)
  case (FunctionTy r ps va)
  from last_inj [OF cf FunctionTy(3-6)] obtain l where
    l: "ty_last H (FunctionTy r ps va) = Some l" "ty_last H t' = Some l" by blast
  then obtain ret where ret: "l = Inr [HCode ret, HBool va]"
    "combine_all H HCode (type_id H FunctionTyID) (type_hash H r # map (type_hash H) ps) = Some ret" by auto
  from l(2) ret(1) obtain r' ps' where t': "t' = FunctionTy r' ps' va"
    "combine_all H HCode (type_id H FunctionTyID) (type_hash H r' # map (type_hash H) ps') = Some ret"
    by (cases t') (auto simp: bind_eq_Some_conv)
  have "type_hash H r # map (type_hash H) ps = type_hash H r' # map (type_hash H) ps'"
    by (rule combine_all_inj [OF cf _ _ _ _ ret(2) t'(2)])
      (use FunctionTy(3,4) t'(1) in \<open>auto simp: base_codes_def inj_def\<close>)
  moreover have "type_hash H r \<noteq> None" "\<forall>p \<in> set ps. type_hash H p \<noteq> None"
    using combine_all_total [OF ret(2)] by simp_all
  moreover have "ty_calls H x \<subseteq> S" if "x = r \<or> x \<in> set ps \<or> x = r' \<or> x \<in> set ps'" for x
    using that FunctionTy(3,4) t'(1) by auto
  ultimately show ?case
    using FunctionTy(1) [of r'] FunctionTy(2) t'(1) map_key_eq [of "type_hash H" ps ps' ty_norm] by auto
next
  case (StructTy n es pk)
  from last_inj [OF cf StructTy(2-5)] obtain l where
    l: "ty_last H (StructTy n es pk) = Some l" "ty_last H t' = Some l" by blast
  then obtain ret b ts where ret: "l = Inr [HCode ret, HBool pk, HBool b]" "es = Some ts"
    "combine_all H (\<lambda>h. HOpt (Some h)) (type_id H StructTyID) (map (type_hash H) ts) = Some ret"
    by (auto simp: bind_eq_Some_conv)
  from l(2) ret(1) obtain n' ts' where t': "t' = StructTy n' (Some ts') pk"
    "combine_all H (\<lambda>h. HOpt (Some h)) (type_id H StructTyID) (map (type_hash H) ts') = Some ret"
    by (cases t') (auto simp: bind_eq_Some_conv)
  have "map (type_hash H) ts = map (type_hash H) ts'"
    by (rule combine_all_inj [OF cf _ _ _ _ ret(3) t'(2)])
      (use StructTy(2,3) ret(2) t'(1) in \<open>auto simp: base_codes_def inj_def\<close>)
  moreover have "\<forall>p \<in> set ts. type_hash H p \<noteq> None"
    using combine_all_total [OF ret(3)] by simp_all
  moreover have "ty_calls H x \<subseteq> S" if "x \<in> set ts \<or> x \<in> set ts'" for x
    using that StructTy(2,3) t'(1) ret(2) by auto
  ultimately have "map ty_norm ts = map ty_norm ts'"
    using StructTy(1) [of ts] ret(2) by (intro map_key_eq [of "type_hash H" ts ts' ty_norm]) auto
  then show ?case using ret(2) t'(1) by simp
next
  case (ArrayTy e n)
  from last_inj [OF cf ArrayTy(2-5)] obtain l where
    l: "ty_last H (ArrayTy e n) = Some l" "ty_last H t' = Some l" by blast
  then obtain e' k where "t' = ArrayTy e' n" "type_hash H e = Some k" "type_hash H e' = Some k"
    using cf by (cases t') (auto simp: bind_eq_Some_conv collision_free_def inj_eq)
  with ArrayTy show ?case by auto
next
  case (FixedVectorTy e n)
  from last_inj [OF cf FixedVectorTy(2-5)] obtain l where
    l: "ty_last H (FixedVectorTy e n) = Some l" "ty_last H t' = Some l" by blast
  then obtain e' k where "t' = FixedVectorTy e' n" "type_hash H e = Some k" "type_hash H e' = Some k"
    using cf by (cases t') (auto simp: bind_eq_Some_conv collision_free_def inj_eq)
  with FixedVectorTy show ?case by auto
next
  case (ScalableVectorTy e n)
  from last_inj [OF cf ScalableVectorTy(2-5)] obtain l where
    l: "ty_last H (ScalableVectorTy e n) = Some l" "ty_last H t' = Some l" by blast
  then obtain e' k where "t' = ScalableVectorTy e' n" "type_hash H e = Some k" "type_hash H e' = Some k"
    using cf by (cases t') (auto simp: bind_eq_Some_conv collision_free_def inj_eq)
  with ScalableVectorTy show ?case by auto
next
  case (TypedPointerTy e n)
  then show ?case by simp
qed (rule leaf_norm [OF cf], simp, assumption, assumption, assumption, assumption)+

text \<open>What the hash of an attribute distinguishes: its number, and the integer, the string value or
  the type it carries.  Neither the key of a string attribute nor a type without a hash is seen.\<close>

datatype payload = PNone | PInt u64 | PStr string | PType "ty option"

definition attr_key :: "llvm \<Rightarrow> attribute \<Rightarrow> u64 \<times> payload" where
  "attr_key H a = (getKindAsEnum H a, case a of
     IntAttr k v \<Rightarrow> PInt v
   | StringAttr k v \<Rightarrow> PStr v
   | TypeAttr k t \<Rightarrow> PType (if type_hash H t = None then None else Some (ty_norm t))
   | _ \<Rightarrow> PNone)"

definition attr_calls :: "llvm \<Rightarrow> attribute \<Rightarrow> harg list set" where
  "attr_calls H a = (case a of
     IntAttr k v \<Rightarrow> {[HCode (getKindAsEnum H a), HUInt v]}
   | StringAttr k v \<Rightarrow> {[HCode (getKindAsEnum H a), HStr v]}
   | TypeAttr k t \<Rightarrow> insert [HCode (getKindAsEnum H a), HOpt (type_hash H t)] (ty_calls H t)
   | _ \<Rightarrow> {})"

definition attr_set_calls :: "llvm \<Rightarrow> attr_set \<Rightarrow> harg list set" where
  "attr_set_calls H as = chain_calls H HCode 200000406 (map (attribute_hash H) as) \<union> (\<Union>a \<in> set as. attr_calls H a)"

definition attr_list_calls :: "llvm \<Rightarrow> attr_list \<Rightarrow> harg list set" where
  "attr_list_calls H al = chain_calls H HCode 200000906 (map (attribute_set_hash H) al) \<union>
     (\<Union>as \<in> set al. attr_set_calls H as)"

definition sig_calls :: "llvm \<Rightarrow> ty \<Rightarrow> attr_list \<Rightarrow> harg list set" where
  "sig_calls H t al = ty_calls H t \<union> attr_list_calls H al \<union>
     chain_calls H HCode 20010313 [type_hash H t, attribute_list_hash H al]"

lemma attribute_hash_inj:
  assumes cf: "collision_free H S" and "attr_calls H a \<subseteq> S" "attr_calls H b \<subseteq> S"
    and "attribute_hash H a = Some h" "attribute_hash H b = Some h"
  shows "attr_key H a = attr_key H b"
proof -
  have inj: "x = y" if "hash_combine H x = hash_combine H y" "x \<in> S" "y \<in> S" for x y
    using cf that by (auto simp: collision_free_def dest: inj_onD)
  have base: "hash_combine H x \<noteq> kind_code H k" if "x \<in> S" for x k
  proof -
    have "kind_code H k \<in> base_codes H"
      using rangeI [of "getKindAsEnum H" "EnumAttr k"] by (simp add: base_codes_def)
    with cf that show ?thesis by (auto simp: collision_free_def)
  qed
  have ty: "ty_norm t = ty_norm u"
    if "type_hash H t = Some k" "type_hash H u = Some k" "ty_calls H t \<subseteq> S" "ty_calls H u \<subseteq> S" for t u k
    using type_hash_inj [OF cf that(3,4,1,2)] .
  note base' = base [THEN not_sym]
  show ?thesis
  proof (cases a; cases b)
    fix k t k' u assume e: "a = TypeAttr k t" "b = TypeAttr k' u"
    with assms have "[HCode (getKindAsEnum H a), HOpt (type_hash H t)] = [HCode (getKindAsEnum H b), HOpt (type_hash H u)]"
      by (intro inj) (auto simp: attribute_hash_def attr_calls_def)
    with e assms(2,3) ty [of t _ u] show ?thesis
      by (cases "type_hash H t") (auto simp: attr_key_def attr_calls_def)
  next
    fix k v k' w assume e: "a = IntAttr k v" "b = IntAttr k' w"
    with assms have "[HCode (getKindAsEnum H a), HUInt v] = [HCode (getKindAsEnum H b), HUInt w]"
      by (intro inj) (auto simp: attribute_hash_def attr_calls_def)
    with e show ?thesis by (auto simp: attr_key_def)
  next
    fix k v k' w assume e: "a = StringAttr k v" "b = StringAttr k' w"
    with assms have "[HCode (getKindAsEnum H a), HStr v] = [HCode (getKindAsEnum H b), HStr w]"
      by (intro inj) (auto simp: attribute_hash_def attr_calls_def)
    with e show ?thesis by (auto simp: attr_key_def)
  qed (use assms(2-5) inj base base' in \<open>auto simp: attribute_hash_def attr_calls_def attr_key_def\<close>)
qed

lemma attribute_set_hash_inj:
  assumes cf: "collision_free H S" and "attr_set_calls H as \<subseteq> S" "attr_set_calls H bs \<subseteq> S"
    and "attribute_set_hash H as = Some h" "attribute_set_hash H bs = Some h"
  shows "map (attr_key H) as = map (attr_key H) bs"
proof (rule map_key_eq [of "attribute_hash H"])
  show "map (attribute_hash H) as = map (attribute_hash H) bs"
    by (rule combine_all_inj [OF cf, of 200000406 HCode])
      (use assms(2-5) in \<open>auto simp: base_codes_def inj_def attr_set_calls_def attribute_set_hash_def\<close>)
  show "\<forall>x \<in> set as. attribute_hash H x \<noteq> None"
    using combine_all_total [OF assms(4) [unfolded attribute_set_hash_def]] by simp
  show "attr_key H x = attr_key H y" if "x \<in> set as" "y \<in> set bs" "attribute_hash H x = Some h" "attribute_hash H y = Some h"
    for x y h
    by (rule attribute_hash_inj [OF cf _ _ that(3,4)]) (use that assms(2,3) in \<open>auto simp: attr_set_calls_def\<close>)
qed

lemma attribute_list_hash_inj:
  assumes cf: "collision_free H S" and "attr_list_calls H al \<subseteq> S" "attr_list_calls H bl \<subseteq> S"
    and "attribute_list_hash H al = Some h" "attribute_list_hash H bl = Some h"
  shows "map (map (attr_key H)) al = map (map (attr_key H)) bl"
proof (rule map_key_eq [of "attribute_set_hash H"])
  show "map (attribute_set_hash H) al = map (attribute_set_hash H) bl"
    by (rule combine_all_inj [OF cf, of 200000906 HCode])
      (use assms(2-5) in \<open>auto simp: base_codes_def inj_def attr_list_calls_def attribute_list_hash_def\<close>)
  show "\<forall>x \<in> set al. attribute_set_hash H x \<noteq> None"
    using combine_all_total [OF assms(4) [unfolded attribute_list_hash_def]] by simp
  show "map (attr_key H) x = map (attr_key H) y"
    if "x \<in> set al" "y \<in> set bl" "attribute_set_hash H x = Some h" "attribute_set_hash H y = Some h" for x y h
    by (rule attribute_set_hash_inj [OF cf _ _ that(3,4)]) (use that assms(2,3) in \<open>auto simp: attr_list_calls_def\<close>)
qed

lemma signature_hash_chain: "signature_hash H t al = combine_all H HCode 20010313 [type_hash H t, attribute_list_hash H al]"
  by (cases "type_hash H t"; cases "attribute_list_hash H al") (simp_all add: signature_hash_def)

section \<open>Properties\<close>

text \<open>C20. The hash of a signature identifies it: a function and a call site with the same hash have
  the same type up to the names of structures and, set by set, attributes with the same numbers and
  the same contents, unless two of the \<open>hash_combine\<close> calls made for them collide or give a
  starting value.  The stub found by hash for a call therefore passes its arguments the way the
  function takes them.\<close>

theorem same_hash_same_signature:
  assumes "function_hash H f = Some h" "call_site_hash H i = Some h"
    and "collision_free H (sig_calls H (f_fty f) (f_attrs f) \<union> sig_calls H (i_fty i) (i_attrs i))"
  shows "ty_norm (f_fty f) = ty_norm (i_fty i) \<and>
    map (map (attr_key H)) (f_attrs f) = map (map (attr_key H)) (i_attrs i)"
proof -
  let ?S = "sig_calls H (f_fty f) (f_attrs f) \<union> sig_calls H (i_fty i) (i_attrs i)"
  have c: "[type_hash H (f_fty f), attribute_list_hash H (f_attrs f)] =
      [type_hash H (i_fty i), attribute_list_hash H (i_attrs i)]"
    by (rule combine_all_inj [OF assms(3), of 20010313 HCode])
      (use assms(1,2) in \<open>auto simp: base_codes_def inj_def sig_calls_def function_hash_def call_site_hash_def
        simp flip: signature_hash_chain\<close>)
  obtain t a where ta: "type_hash H (f_fty f) = Some t" "attribute_list_hash H (f_attrs f) = Some a"
    using assms(1) by (auto simp: function_hash_def signature_hash_def split: option.splits)
  have "ty_norm (f_fty f) = ty_norm (i_fty i)"
    by (rule type_hash_inj [OF assms(3), of _ _ t]) (use c ta in \<open>auto simp: sig_calls_def\<close>)
  moreover have "map (map (attr_key H)) (f_attrs f) = map (map (attr_key H)) (i_attrs i)"
    by (rule attribute_list_hash_inj [OF assms(3), of _ _ a]) (use c ta in \<open>auto simp: sig_calls_def\<close>)
  ultimately show ?thesis by simp
qed

definition sample_type_id :: "ty_tag \<Rightarrow> u64" where
  "sample_type_id t = (case t of HalfTyID \<Rightarrow> 0 | BFloatTyID \<Rightarrow> 1 | FloatTyID \<Rightarrow> 2 | DoubleTyID \<Rightarrow> 3
     | X86_FP80TyID \<Rightarrow> 4 | FP128TyID \<Rightarrow> 5 | PPC_FP128TyID \<Rightarrow> 6 | VoidTyID \<Rightarrow> 7 | LabelTyID \<Rightarrow> 8
     | MetadataTyID \<Rightarrow> 9 | X86_MMXTyID \<Rightarrow> 10 | X86_AMXTyID \<Rightarrow> 11 | TokenTyID \<Rightarrow> 12 | IntegerTyID \<Rightarrow> 13
     | FunctionTyID \<Rightarrow> 14 | PointerTyID \<Rightarrow> 15 | StructTyID \<Rightarrow> 16 | ArrayTyID \<Rightarrow> 17
     | FixedVectorTyID \<Rightarrow> 18 | ScalableVectorTyID \<Rightarrow> 19 | TypedPointerTyID \<Rightarrow> 20 | TargetExtTyID \<Rightarrow> 21)"

fun sample_combine :: "harg list \<Rightarrow> u64" where
  "sample_combine [HCode a, HCode b] = 0x1000000000 + 3 * a + b"
| "sample_combine [HCode a, HBool b] = 0x2000000000 + a"
| "sample_combine _ = 0x3000000000"

definition sample_llvm :: llvm where
  "sample_llvm = \<lparr>hash_combine = sample_combine, type_id = sample_type_id, kind_code = (\<lambda>_. 1), string_kind = (\<lambda>_ _. 2), isSized = (\<lambda>_. True),
     utohexstr = (\<lambda>x w. replicate (unat x) CHR ''1''), getAsInteger16 = (\<lambda>s. Some (of_nat (length s)))\<rparr>"

lemma sample_type_id_inj: "inj sample_type_id"
  by (rule injI) (auto simp: sample_type_id_def split: ty_tag.splits)

lemma sample_type_id_less: "sample_type_id t < 0x1000000000"
  by (cases t) (simp_all add: sample_type_id_def)

lemma sample_base:
  assumes "c \<in> base_codes sample_llvm"
  shows "c < 0x1000000000"
proof -
  have "getKindAsEnum sample_llvm a < 0x1000000000" for a
    by (cases a) (simp_all add: sample_llvm_def)
  moreover have "type_id sample_llvm t < 0x1000000000" for t
    by (simp add: sample_llvm_def sample_type_id_less)
  ultimately show ?thesis using assms by (auto simp: base_codes_def)
qed

definition sample_call :: instr where
  "sample_call = \<lparr>i_id = 0, i_name = [], i_op = Call, i_ty = VoidTy, i_ops = [], i_callee = VArg 0 ptrTy,
     i_fty = FunctionTy VoidTy [] False, i_bundles = [], i_attrs = []\<rparr>"

definition sample_callee :: func where
  "sample_callee = \<lparr>f_name = ''f'', f_fty = FunctionTy VoidTy [] False, f_linkage = ExternalLinkage,
     f_attrs = [], f_blocks = [], f_intrinsic = 0, f_prefix = None, f_dso_local = False\<rparr>"

theorem same_hash_same_signature_witness:
  "function_hash sample_llvm sample_callee = call_site_hash sample_llvm sample_call \<and>
   ty_norm (f_fty sample_callee) = ty_norm (i_fty sample_call)"
proof -
  let ?t = "FunctionTy VoidTy [] False"
  have h: "function_hash sample_llvm sample_callee = Some 0xD016A7C5AE" "call_site_hash sample_llvm sample_call = Some 0xD016A7C5AE"
    by (simp_all add: function_hash_def call_site_hash_def signature_hash_def sample_callee_def sample_call_def sample_llvm_def
        type_hash_Function_def attribute_list_hash_def sample_type_id_def)
  have calls: "sig_calls sample_llvm ?t [] = {[HCode 14, HCode 7], [HCode 0x1000000031, HBool False],
      [HCode 20010313, HCode 0x3000000031], [HCode 0x400394000C, HCode 200000906]}"
    by (auto simp: sig_calls_def attr_list_calls_def attribute_list_hash_def sample_llvm_def sample_type_id_def
        type_hash_Function_def)
  have e: "hash_combine sample_llvm = sample_combine" "type_id sample_llvm = sample_type_id"
    by (simp_all add: sample_llvm_def)
  have "sample_combine x \<ge> 0x1000000000" if "x \<in> sig_calls sample_llvm ?t []" for x
    using that unfolding calls by (elim insertE emptyE) simp_all
  then have "hash_combine sample_llvm ` sig_calls sample_llvm ?t [] \<inter> base_codes sample_llvm = {}"
    unfolding e using sample_base by fastforce
  moreover have "inj_on (hash_combine sample_llvm) (sig_calls sample_llvm ?t [])"
    unfolding calls e by (simp add: inj_on_def)
  ultimately have "collision_free sample_llvm (sig_calls sample_llvm ?t [] \<union> sig_calls sample_llvm ?t [])"
    unfolding collision_free_def Un_absorb e(2) using sample_type_id_inj by simp
  then show ?thesis
    using same_hash_same_signature [OF h] h by (simp add: sample_callee_def sample_call_def)
qed


end
