(* ===== verification/Plug_Symtbl.thy ===== *)
theory Plug_Symtbl
  imports Plug_Hash
begin

text \<open>
  The symbol table of a module, \<open>Symtbl\<close> of \<open>src/lib/gyhcall/Symtbl.cpp\<close>: the signatures of the
  functions moved to the host (calling stubs) and of the calls back into the guest (callback stubs),
  the functions moved and the global values they use, each numbered; and its conversion to and
  from JSON.
\<close>

section \<open>Data\<close>

text \<open>\<open>sRet\<close> is empty for a function returning nothing, \<open>sArg\<close> (the element types of the structure
  that carries the arguments) for one without parameters.\<close>

record StubInfo =
  sUid :: u32
  sFunc :: ty
  sAttrs :: attr_list
  sRet :: "ty option"
  sArg :: "ty list option"

definition StubInfo_new :: "ty \<Rightarrow> attr_list \<Rightarrow> StubInfo" where
  "StubInfo_new funcTy attrs =
     \<lparr>sUid = 0xFFFFFFFF, sFunc = funcTy, sAttrs = attrs,
      sRet = (if ret_ty funcTy = VoidTy then None else Some (ret_ty funcTy)),
      sArg = (if params funcTy \<noteq> [] then Some (params funcTy) else None)\<rparr>"

text \<open>\<open>mStubType\<close> points to an entry of the calling stubs: it is the key of that entry.\<close>

record FuncInfo =
  mUid :: u32
  mStubType :: u64
  mExtRefArgs :: "gvptr list"
  mCbStubArgs :: "u64 list"

record Symtbl =
  mModUid :: u32
  mCallingStubs :: "(u64 \<times> StubInfo) list"
  mCallbackStubs :: "(u64 \<times> StubInfo) list"
  mFunctbl :: "(gvptr \<times> FuncInfo) list"
  mGreftbl :: "(gvptr \<times> u32) list"

definition Symtbl_new :: Symtbl where
  "Symtbl_new = \<lparr>mModUid = 0xFFFFFFFF, mCallingStubs = [], mCallbackStubs = [], mFunctbl = [], mGreftbl = []\<rparr>"

section \<open>Attributes that matter to the calling convention\<close>

text \<open>\<open>getNumAttrSets\<close>, \<open>getAttributes(i)\<close> and \<open>addAttributesAtIndex\<close>: index 0 is the return
  value, index \<open>i\<close> argument \<open>i - 1\<close>, one place after the set of the function in the list.  Adding
  nothing changes nothing.\<close>

definition getAttributes :: "attr_list \<Rightarrow> nat \<Rightarrow> attr_set" where
  "getAttributes al i = (if Suc i < length al then al ! Suc i else [])"

definition addAttributesAtIndex :: "attr_list \<Rightarrow> nat \<Rightarrow> attr_set \<Rightarrow> attr_list" where
  "addAttributesAtIndex al i as =
     (if as = [] then al
      else (let al' = al @ replicate (Suc (Suc i) - length al) [] in
            al'[Suc i := al' ! Suc i @ filter (\<lambda>a. a \<notin> set (al' ! Suc i)) as]))"

text \<open>The builder collects the attributes of a set.\<close>

definition attr_builder :: "attr_set \<Rightarrow> attr_set" where
  "attr_builder as = fold (\<lambda>a ab. if a \<in> set ab then ab else ab @ [a]) as []"

fun filter_abi_loop :: "attr_list \<Rightarrow> nat \<Rightarrow> nat \<Rightarrow> attr_list \<Rightarrow> attr_list" where
  "filter_abi_loop al i 0 ret = ret"
| "filter_abi_loop al i (Suc n) ret =
     filter_abi_loop al (Suc i) n (addAttributesAtIndex ret i (attr_builder (getAttributes al i)))"

definition filter_abi_attributes :: "attr_list \<Rightarrow> attr_list" where
  "filter_abi_attributes al = (if length al = 0 then [] else filter_abi_loop al 0 (length al - 1) [])"

section \<open>JSON\<close>

text \<open>LLVM's printer of the declaration of a function named \<open>stub\<close> and its parser: no module, or a
  module with or without that function.\<close>

record stub_io =
  print_stub :: "ty \<Rightarrow> attr_list \<Rightarrow> string"
  parse_stub :: "string \<Rightarrow> (ty \<times> attr_list) option option"

definition StubInfo_dump_json :: "stub_io \<Rightarrow> StubInfo \<Rightarrow> jobject" where
  "StubInfo_dump_json L si = jset ''Func'' (JString (print_stub L (sFunc si) (sAttrs si))) (jset ''Uid'' (json_u32 (sUid si)) [])"

definition StubInfo_load_json :: "stub_io \<Rightarrow> json \<Rightarrow> (gyh_error, StubInfo) result" where
  "StubInfo_load_json L jval =
     bind_result (omapper jval) (\<lambda>om.
     bind_result (omap om ''Uid'' fromJSON_u32) (\<lambda>uid.
     bind_result (omap om ''Func'' getAsString) (\<lambda>funcStr.
     case parse_stub L funcStr of
       None \<Rightarrow> Inl BadIr
     | Some None \<Rightarrow> Inl Failure
     | Some (Some (fty, attrs)) \<Rightarrow> Inr ((StubInfo_new fty attrs)\<lparr>sUid := uid\<rparr>))))"

definition FuncInfo_dump_json :: "llvm \<Rightarrow> modul \<Rightarrow> Symtbl \<Rightarrow> FuncInfo \<Rightarrow> (plug_abort, jobject) result" where
  "FuncInfo_dump_json H m st fi =
     (case map_of (mCallingStubs st) (mStubType fi) of
       None \<Rightarrow> Inl KeyMissing
     | Some si \<Rightarrow> (case type_hash H (sFunc si) of
         None \<Rightarrow> Inl AssertFailed
       | Some h \<Rightarrow> Inr (jset ''CbStubArgs'' (JArray (map (\<lambda>hc. JString (hash2str H hc)) (mCbStubArgs fi)))
           (jset ''ExtRefArgs'' (JArray (map (\<lambda>v. JString (gv_name m v)) (mExtRefArgs fi)))
             (jset ''StubInfo'' (JString (hash2str H h))
               (jset ''Uid'' (json_u32 (mUid fi)) []))))))"

text \<open>The loops over the names of external references and over the hashes of callbacks.\<close>

definition load_ext_ref :: "modul \<Rightarrow> json \<Rightarrow> gvptr list \<Rightarrow> (gyh_error, gvptr list) result" where
  "load_ext_ref m j refs = (case getAsString j of
     None \<Rightarrow> Inl Failure
   | Some name \<Rightarrow> (case getNamedValue m name of None \<Rightarrow> Inl Failure | Some p \<Rightarrow> Inr (refs @ [p])))"

definition load_cb_stub :: "llvm \<Rightarrow> json \<Rightarrow> u64 list \<Rightarrow> (gyh_error, u64 list) result" where
  "load_cb_stub H j hs = (case getAsString j of
     None \<Rightarrow> Inl Failure
   | Some name \<Rightarrow> bind_result (str2hash H name) (\<lambda>h. Inr (hs @ [h])))"

definition FuncInfo_load_json :: "llvm \<Rightarrow> modul \<Rightarrow> Symtbl \<Rightarrow> json \<Rightarrow> (gyh_error, FuncInfo) result" where
  "FuncInfo_load_json H m st jval =
     bind_result (omapper jval) (\<lambda>jobj.
     bind_result (omap jobj ''Uid'' fromJSON_u32) (\<lambda>uid.
     bind_result (omap jobj ''StubInfo'' getAsString) (\<lambda>stubTypeStr.
     bind_result (str2hash H stubTypeStr) (\<lambda>h.
     if map_of (mCallingStubs st) h = None then Inl Failure
     else case getArray jobj ''ExtRefArgs'' of
       None \<Rightarrow> Inl Failure
     | Some extRefArgs \<Rightarrow>
     bind_result (for_each (load_ext_ref m) extRefArgs []) (\<lambda>refs.
     case getArray jobj ''CbStubArgs'' of
       None \<Rightarrow> Inl Failure
     | Some cbStubArgs \<Rightarrow>
     bind_result (for_each (load_cb_stub H) cbStubArgs []) (\<lambda>hs.
     Inr \<lparr>mUid = uid, mStubType = h, mExtRefArgs = refs, mCbStubArgs = hs\<rparr>))))))"

definition GrefInfo_dump_json :: "u32 \<Rightarrow> jobject" where
  "GrefInfo_dump_json uid = jset ''Uid'' (json_u32 uid) []"

definition GrefInfo_load_json :: "json \<Rightarrow> (gyh_error, u32) result" where
  "GrefInfo_load_json jval = bind_result (omapper jval) (\<lambda>om. omap om ''Uid'' fromJSON_u32)"

fun dump_functbl :: "llvm \<Rightarrow> modul \<Rightarrow> Symtbl \<Rightarrow> (gvptr \<times> FuncInfo) list \<Rightarrow> jobject \<Rightarrow> (plug_abort, jobject) result" where
  "dump_functbl H m st [] o1 = Inr o1"
| "dump_functbl H m st ((p, fi) # fs) o1 =
     bind_result (FuncInfo_dump_json H m st fi) (\<lambda>v. dump_functbl H m st fs (jset (func_name m p) (JObject v) o1))"

definition Symtbl_dump_json :: "llvm \<Rightarrow> stub_io \<Rightarrow> modul \<Rightarrow> Symtbl \<Rightarrow> (plug_abort, jobject) result" where
  "Symtbl_dump_json H L m st =
     (let dump_stubs = (\<lambda>stubs. fold (\<lambda>(hc, si). jset (hash2str H hc) (JObject (StubInfo_dump_json L si))) stubs []);
          greftbl = fold (\<lambda>(p, uid). jset (gv_name m p) (JObject (GrefInfo_dump_json uid))) (mGreftbl st) [] in
      bind_result (dump_functbl H m st (mFunctbl st) []) (\<lambda>functbl.
      Inr (jset ''Greftbl'' (JObject greftbl)
        (jset ''Functbl'' (JObject functbl)
          (jset ''CallbackStubs'' (JObject (dump_stubs (mCallbackStubs st)))
            (jset ''CallingStubs'' (JObject (dump_stubs (mCallingStubs st)))
              (jset ''Uid'' (json_u32 (mModUid st)) [])))))))"

text \<open>The four loops of the loader.  A stub that is there already stays; a function or a value the
  module lacks is reported and skipped.\<close>

definition load_stub :: "llvm \<Rightarrow> stub_io \<Rightarrow> string \<times> json \<Rightarrow> (u64 \<times> StubInfo) list \<Rightarrow> (gyh_error, (u64 \<times> StubInfo) list) result" where
  "load_stub H L kv stubs =
     bind_result (str2hash H (fst kv)) (\<lambda>h.
     bind_result (StubInfo_load_json L (snd kv)) (\<lambda>si. Inr (map_insert h si stubs)))"

definition load_func :: "llvm \<Rightarrow> modul \<Rightarrow> string \<times> json \<Rightarrow> Symtbl \<Rightarrow> (gyh_error, Symtbl) result" where
  "load_func H m kv st = (case getFunction m (fst kv) of
     None \<Rightarrow> Inr st
   | Some p \<Rightarrow> bind_result (FuncInfo_load_json H m st (snd kv)) (\<lambda>fi.
       Inr (st\<lparr>mFunctbl := map_insert p fi (mFunctbl st)\<rparr>)))"

definition load_gref :: "modul \<Rightarrow> string \<times> json \<Rightarrow> Symtbl \<Rightarrow> (gyh_error, Symtbl) result" where
  "load_gref m kv st = (case getNamedValue m (fst kv) of
     None \<Rightarrow> Inr st
   | Some p \<Rightarrow> bind_result (GrefInfo_load_json (snd kv)) (\<lambda>uid.
       Inr (st\<lparr>mGreftbl := map_insert p uid (mGreftbl st)\<rparr>)))"

definition Symtbl_load_json :: "llvm \<Rightarrow> stub_io \<Rightarrow> modul \<Rightarrow> json \<Rightarrow> Symtbl \<Rightarrow> (gyh_error, Symtbl) result" where
  "Symtbl_load_json H L m jval st =
     bind_result (omapper jval) (\<lambda>jobj.
     bind_result (omap jobj ''Uid'' fromJSON_u32) (\<lambda>uid. case getObject jobj ''CallingStubs'' of
       None \<Rightarrow> Inl Failure
     | Some callingStubs \<Rightarrow>
     bind_result (for_each (load_stub H L) callingStubs (mCallingStubs st)) (\<lambda>cs. case getObject jobj ''CallbackTypes'' of
       None \<Rightarrow> Inl Failure
     | Some callbackTypes \<Rightarrow>
     bind_result (for_each (load_stub H L) callbackTypes (mCallbackStubs st)) (\<lambda>cbs. case getObject jobj ''Functbl'' of
       None \<Rightarrow> Inl Failure
     | Some functbl \<Rightarrow>
     bind_result (for_each (load_func H m) functbl (st\<lparr>mModUid := uid, mCallingStubs := cs, mCallbackStubs := cbs\<rparr>))
       (\<lambda>st1. case getObject jobj ''Greftbl'' of
         None \<Rightarrow> Inl Failure
       | Some greftbl \<Rightarrow> for_each (load_gref m) greftbl st1)))))"

definition Symtbl_to_file :: "llvm \<Rightarrow> stub_io \<Rightarrow> json_io \<Rightarrow> modul \<Rightarrow> Symtbl \<Rightarrow> string \<Rightarrow> files \<Rightarrow>
  (plug_abort, (gyh_error, files) result) result" where
  "Symtbl_to_file H L io m st path fs =
     bind_result (Symtbl_dump_json H L m st) (\<lambda>o1. Inr (dump_json_file io (JObject o1) path fs))"

definition Symtbl_from_file :: "llvm \<Rightarrow> stub_io \<Rightarrow> json_io \<Rightarrow> modul \<Rightarrow> string \<Rightarrow> files \<Rightarrow> (gyh_error, Symtbl) result" where
  "Symtbl_from_file H L io m path fs = load_json_file io path (\<lambda>j. Symtbl_load_json H L m j Symtbl_new) fs"

section \<open>The filter\<close>

lemma attr_builder_id: "distinct as \<Longrightarrow> attr_builder as = as"
proof -
  have "fold (\<lambda>a ab. if a \<in> set ab then ab else ab @ [a]) as bs = bs @ as" if "distinct (bs @ as)" for bs
    using that by (induction as arbitrary: bs) auto
  then show "distinct as \<Longrightarrow> attr_builder as = as" by (simp add: attr_builder_def)
qed

lemma getAttributes_add:
  assumes "getAttributes al i = []" "al = [] \<or> hd al = []"
  shows "getAttributes (addAttributesAtIndex al i as) j = (if j = i then as else getAttributes al j)"
    "addAttributesAtIndex al i as = [] \<or> hd (addAttributesAtIndex al i as) = []"
proof -
  let ?al = "al @ replicate (Suc (Suc i) - length al) []"
  have len: "Suc i < length ?al" by simp
  have nth: "?al ! k = (if k < length al then al ! k else [])" if "k < length ?al" for k
    using that by (auto simp: nth_append)
  have i: "?al ! Suc i = []" using assms(1) nth [OF len] by (auto simp: getAttributes_def split: if_splits)
  have add: "addAttributesAtIndex al i as = (if as = [] then al else ?al[Suc i := as])"
    using i by (simp add: addAttributesAtIndex_def Let_def)
  show "getAttributes (addAttributesAtIndex al i as) j = (if j = i then as else getAttributes al j)"
    using assms(1) len nth [of "Suc j"] by (auto simp: add getAttributes_def nth_list_update)
  have "hd ?al = []" using assms(2) by (cases al) auto
  then show "addAttributesAtIndex al i as = [] \<or> hd (addAttributesAtIndex al i as) = []"
    using assms(2) by (cases "?al") (auto simp: add)
qed

lemma filter_abi_loop_correct:
  assumes "\<forall>as \<in> set al. distinct as" "\<forall>j. getAttributes ret j = (if j < i then getAttributes al j else [])"
    and "ret = [] \<or> hd ret = []"
  shows "(\<forall>j. getAttributes (filter_abi_loop al i n ret) j = (if j < i + n then getAttributes al j else [])) \<and>
    (filter_abi_loop al i n ret = [] \<or> hd (filter_abi_loop al i n ret) = [])"
  using assms(2,3)
proof (induction n arbitrary: i ret)
  case (Suc n)
  have "distinct (getAttributes al i)" using assms(1) by (auto simp: getAttributes_def)
  then have b: "attr_builder (getAttributes al i) = getAttributes al i" by (rule attr_builder_id)
  have g: "getAttributes ret i = []" using Suc(2) by simp
  have "\<forall>j. getAttributes (addAttributesAtIndex ret i (getAttributes al i)) j =
      (if j < Suc i then getAttributes al j else [])"
    using getAttributes_add(1) [OF g Suc(3)] Suc(2) by auto
  from Suc(1) [OF this getAttributes_add(2) [OF g Suc(3)]] show ?case by (simp add: b)
qed simp

text \<open>C24. The attributes kept for a stub: those of the return value and of every argument, as they
  were, and none of the function itself.\<close>

theorem filter_abi_attributes_spec:
  assumes "\<forall>as \<in> set al. distinct as"
  shows "(\<forall>i. getAttributes (filter_abi_attributes al) i = getAttributes al i) \<and>
    (filter_abi_attributes al = [] \<or> hd (filter_abi_attributes al) = [])"
proof (cases al)
  case (Cons a as)
  have "getAttributes al i = (if i < 0 + (length al - 1) then getAttributes al i else [])" for i
    by (auto simp: getAttributes_def)
  with filter_abi_loop_correct [OF assms, of "[]" 0 "length al - 1"] Cons show ?thesis
    by (simp add: filter_abi_attributes_def getAttributes_def [of "[]"])
qed (simp add: filter_abi_attributes_def getAttributes_def)

theorem filter_abi_attributes_spec_witness:
  "getAttributes (filter_abi_attributes [[EnumAttr NoInline], [], [EnumAttr NoAlias, EnumAttr NoUndef]]) 1 =
     [EnumAttr NoAlias, EnumAttr NoUndef]"
  using filter_abi_attributes_spec [of "[[EnumAttr NoInline], [], [EnumAttr NoAlias, EnumAttr NoUndef]]"]
  by (simp add: getAttributes_def [of "[[EnumAttr NoInline], [], [EnumAttr NoAlias, EnumAttr NoUndef]]"])

section \<open>Saving and loading\<close>

text \<open>A stub is a codec where LLVM's parser gives back the declaration that was printed.\<close>

definition stub_valid :: "stub_io \<Rightarrow> StubInfo \<Rightarrow> bool" where
  "stub_valid L si \<longleftrightarrow> parse_stub L (print_stub L (sFunc si) (sAttrs si)) = Some (Some (sFunc si, sAttrs si)) \<and>
     si = (StubInfo_new (sFunc si) (sAttrs si))\<lparr>sUid := sUid si\<rparr>"

interpretation stubinfo: json_codec "\<lambda>si. JObject (StubInfo_dump_json L si)" "StubInfo_load_json L" "(=)" "stub_valid L" for L
proof
  fix si j
  assume v: "stub_valid L si" and "jeq (JObject (StubInfo_dump_json L si)) j"
  then obtain a where a: "j = JObject a" "jeq (JObject (StubInfo_dump_json L si)) (JObject a)"
    by (auto elim: jeq_objectE)
  have "StubInfo_load_json L j = Inr ((StubInfo_new (sFunc si) (sAttrs si))\<lparr>sUid := sUid si\<rparr>)"
    unfolding a(1) StubInfo_load_json_def using v
    by (simp add: jeq_omap(1) [OF a(2)] jeq_getAs jeq_fromJSON) (simp add: StubInfo_dump_json_def stub_valid_def)
  with v show "\<exists>y. StubInfo_load_json L j = Inr y \<and> si = y" by (simp add: stub_valid_def)
qed


end
