(* ===== verification/Plug_Analyze.thy ===== *)
theory Plug_Analyze
  imports Plug_Symtbl Plug_BwList
begin

text \<open>
  The analysis, \<open>Analyze\<close> of \<open>src/lib/gyhcall/Analyze.cpp\<close>: it decides which functions of a module
  can run on the host and collects, in the symbol table, their signatures, the signatures of the
  calls they make back into the guest and the global values they use.
\<close>

section \<open>State and errors\<close>

datatype unsupported = VarArgFunction | UnhashableFunction | IndirectBranch | ExceptionHandling
  | InlineAssembly | BlackCallee | VarArgCall | UnhashableCall

text \<open>What is collected while one function is analysed: \<open>mExtRefArgs\<close> (its elements are also the set
  \<open>grefsInFunc\<close>), \<open>mCbStubArgs\<close> and the local map of callback stubs.\<close>

record collected =
  a_refs :: "gvptr list"
  a_cbs :: "u64 list"
  a_stubs :: "(u64 \<times> StubInfo) list"

record Analyze =
  result :: Symtbl
  mCallingCounter :: u32
  mCallbackCounter :: u32
  mFuncCounter :: u32
  mGrefCounter :: u32

definition Analyze_new :: "Symtbl \<Rightarrow> Analyze" where
  "Analyze_new st = \<lparr>result = st, mCallingCounter = 0, mCallbackCounter = 0, mFuncCounter = 0, mGrefCounter = 0\<rparr>"

section \<open>One function\<close>

definition add_ref :: "gvptr \<Rightarrow> gvptr list \<Rightarrow> gvptr list" where
  "add_ref p refs = (if p \<in> set refs then refs else refs @ [p])"

fun do_operand :: "val \<Rightarrow> gvptr list \<Rightarrow> gvptr list" where
  "do_operand (VGlobal p) refs = add_ref p refs"
| "do_operand (VAggr k t vs) refs = fold do_operand vs refs"
| "do_operand (VExpr k t vs) refs = fold do_operand vs refs"
| "do_operand v refs = refs"

definition do_operands :: "val list \<Rightarrow> collected \<Rightarrow> collected" where
  "do_operands vs c = c\<lparr>a_refs := fold do_operand vs (a_refs c)\<rparr>"

definition is_exception :: "opcode \<Rightarrow> bool" where
  "is_exception op1 = (op1 \<in> {Invoke, Resume, CatchSwitch, CatchReturn, CleanupReturn, LandingPad, CatchPad, CleanupPad})"

text \<open>Registering the callback type of a call.\<close>

definition do_callback_type :: "llvm \<Rightarrow> instr \<Rightarrow> collected \<Rightarrow> (unsupported, collected) result" where
  "do_callback_type H i c =
     (if is_vararg (i_fty i) then Inl VarArgCall
      else case call_site_hash H i of
        None \<Rightarrow> Inl UnhashableCall
      | Some h \<Rightarrow>
          if map_of (a_stubs c) h = None
          then Inr (c\<lparr>a_stubs := map_insert h (StubInfo_new (i_fty i) (filter_abi_attributes (i_attrs i))) (a_stubs c),
                      a_cbs := a_cbs c @ [h]\<rparr>)
          else Inr c)"

text \<open>A call: what happens depends on the called operand.\<close>

datatype callee_class = AsmCallee | WhiteCallee | BlackListed | RefCallee gvptr | OtherCallee

definition classify_callee :: "BwList \<Rightarrow> modul \<Rightarrow> val \<Rightarrow> callee_class" where
  "classify_callee bw m v = (case v of
     VAsm s \<Rightarrow> AsmCallee
   | VGlobal p \<Rightarrow> (case map_of (m_funcs m) p of
       None \<Rightarrow> RefCallee p
     | Some f \<Rightarrow> (case map_of (mCallees bw) p of
         Some True \<Rightarrow> WhiteCallee
       | Some False \<Rightarrow> BlackListed
       | None \<Rightarrow> if isIntrinsic f then WhiteCallee else RefCallee p))
   | _ \<Rightarrow> OtherCallee)"

definition do_call :: "llvm \<Rightarrow> BwList \<Rightarrow> modul \<Rightarrow> instr \<Rightarrow> collected \<Rightarrow> (unsupported, collected) result" where
  "do_call H bw m i c = (case classify_callee bw m (i_callee i) of
     AsmCallee \<Rightarrow> Inl InlineAssembly
   | BlackListed \<Rightarrow> Inl BlackCallee
   | WhiteCallee \<Rightarrow> Inr (do_operands (i_ops i) c)
   | RefCallee p \<Rightarrow> bind_result (do_callback_type H i (c\<lparr>a_refs := add_ref p (a_refs c)\<rparr>)) (\<lambda>c'. Inr (do_operands (i_ops i) c'))
   | OtherCallee \<Rightarrow> bind_result (do_callback_type H i c) (\<lambda>c'. Inr (do_operands (i_ops i) c')))"

definition do_ins :: "llvm \<Rightarrow> BwList \<Rightarrow> modul \<Rightarrow> instr \<Rightarrow> collected \<Rightarrow> (unsupported, collected) result" where
  "do_ins H bw m i c =
     (if i_op i = IndirectBr then Inl IndirectBranch
      else if is_exception (i_op i) then Inl ExceptionHandling
      else if is_call i then do_call H bw m i c
      else Inr (do_operands (i_ops i) c))"

fun do_all_ins :: "llvm \<Rightarrow> BwList \<Rightarrow> modul \<Rightarrow> instr list \<Rightarrow> collected \<Rightarrow> (unsupported, collected) result" where
  "do_all_ins H bw m [] c = Inr c"
| "do_all_ins H bw m (i # is) c = bind_result (do_ins H bw m i c) (do_all_ins H bw m is)"

section \<open>Merging into the symbol table\<close>

definition add_calling :: "u64 \<Rightarrow> func \<Rightarrow> Analyze \<Rightarrow> Analyze" where
  "add_calling h f a =
     (if map_of (mCallingStubs (result a)) h = None
      then a\<lparr>result := (result a)\<lparr>mCallingStubs := map_insert h
               ((StubInfo_new (f_fty f) (filter_abi_attributes (f_attrs f)))\<lparr>sUid := mCallingCounter a\<rparr>)
               (mCallingStubs (result a))\<rparr>,
             mCallingCounter := mCallingCounter a + 1\<rparr>
      else a)"

definition add_callback :: "u64 \<times> StubInfo \<Rightarrow> Analyze \<Rightarrow> Analyze" where
  "add_callback hs a =
     (if map_of (mCallbackStubs (result a)) (fst hs) = None
      then a\<lparr>result := (result a)\<lparr>mCallbackStubs := map_insert (fst hs) ((snd hs)\<lparr>sUid := mCallbackCounter a\<rparr>)
               (mCallbackStubs (result a))\<rparr>,
             mCallbackCounter := mCallbackCounter a + 1\<rparr>
      else a)"

definition add_func :: "gvptr \<Rightarrow> u64 \<Rightarrow> collected \<Rightarrow> Analyze \<Rightarrow> Analyze" where
  "add_func p h c a =
     a\<lparr>result := (result a)\<lparr>mFunctbl := map_insert p
         \<lparr>mUid = mFuncCounter a, mStubType = h, mExtRefArgs = a_refs c, mCbStubArgs = a_cbs c\<rparr>
         (mFunctbl (result a))\<rparr>,
       mFuncCounter := mFuncCounter a + 1\<rparr>"

definition add_gref :: "gvptr \<Rightarrow> Analyze \<Rightarrow> Analyze" where
  "add_gref p a =
     (if map_of (mGreftbl (result a)) p = None
      then a\<lparr>result := (result a)\<lparr>mGreftbl := map_insert p (mGrefCounter a) (mGreftbl (result a))\<rparr>,
             mGrefCounter := mGrefCounter a + 1\<rparr>
      else a)"

text \<open>\<open>order\<close> is the order in which \<open>llvm::SmallPtrSet\<close> iterates over what was inserted.\<close>

definition merge :: "(gvptr list \<Rightarrow> gvptr list) \<Rightarrow> gvptr \<Rightarrow> func \<Rightarrow> u64 \<Rightarrow> collected \<Rightarrow> Analyze \<Rightarrow> Analyze" where
  "merge order p f h c a =
     fold add_gref (order (a_refs c)) (add_func p h c (fold add_callback (a_stubs c) (add_calling h f a)))"

definition do_function :: "llvm \<Rightarrow> (gvptr list \<Rightarrow> gvptr list) \<Rightarrow> BwList \<Rightarrow> modul \<Rightarrow> gvptr \<times> func \<Rightarrow> Analyze \<Rightarrow>
  (unsupported, Analyze) result" where
  "do_function H order bw m pf a =
     (if isDeclaration (snd pf) then Inr a
      else if isVarArg (snd pf) then Inl VarArgFunction
      else case function_hash H (snd pf) of
        None \<Rightarrow> Inl UnhashableFunction
      | Some h \<Rightarrow> bind_result (do_all_ins H bw m (all_ins (snd pf)) \<lparr>a_refs = [], a_cbs = [], a_stubs = []\<rparr>) (\<lambda>c.
          Inr (merge order (fst pf) (snd pf) h c a)))"

section \<open>A module\<close>

text \<open>\<open>Analyze::operator()\<close>: forbidden functions are skipped; a function that fails is left out, with
  a diagnostic when it was required.  The second component lists these.\<close>

definition analyze_func :: "llvm \<Rightarrow> (gvptr list \<Rightarrow> gvptr list) \<Rightarrow> BwList \<Rightarrow> modul \<Rightarrow> gvptr \<times> func \<Rightarrow>
  Analyze \<times> (gvptr \<times> unsupported) list \<Rightarrow> Analyze \<times> (gvptr \<times> unsupported) list" where
  "analyze_func H order bw m pf s =
     (let bw1 = (case map_of (mFuncs bw) (fst pf) of None \<Rightarrow> None | Some b \<Rightarrow> mAnalyze b) in
      if bw1 = Some False then s
      else case do_function H order bw m pf (fst s) of
        Inr a \<Rightarrow> (a, snd s)
      | Inl e \<Rightarrow> (fst s, if bw1 = Some True then snd s @ [(fst pf, e)] else snd s))"

definition run_analyze :: "llvm \<Rightarrow> (gvptr list \<Rightarrow> gvptr list) \<Rightarrow> BwList \<Rightarrow> modul \<Rightarrow> Symtbl \<Rightarrow>
  Analyze \<times> (gvptr \<times> unsupported) list" where
  "run_analyze H order bw m st = fold (analyze_func H order bw m) (m_funcs m) (Analyze_new st, [])"

text \<open>\<open>Analyze::Pass::run\<close> constructs the stage and returns the empty table: the stage itself is never
  called.\<close>

definition Analyze_Pass_run :: "modul \<Rightarrow> Symtbl" where
  "Analyze_Pass_run m = Symtbl_new"

section \<open>Which functions are accepted, and what is collected\<close>

text \<open>The global values an operand mentions, through aggregates and constant expressions.\<close>

fun val_globals :: "val \<Rightarrow> gvptr set" where
  "val_globals (VGlobal p) = {p}"
| "val_globals (VAggr k t vs) = (\<Union>v \<in> set vs. val_globals v)"
| "val_globals (VExpr k t vs) = (\<Union>v \<in> set vs. val_globals v)"
| "val_globals v = {}"

text \<open>A call goes through the runtime unless its callee is on the white list or an intrinsic.\<close>

definition calls_back :: "BwList \<Rightarrow> modul \<Rightarrow> instr \<Rightarrow> bool" where
  "calls_back bw m i \<longleftrightarrow> is_call i \<and> classify_callee bw m (i_callee i) \<noteq> WhiteCallee"

definition ins_ok :: "llvm \<Rightarrow> BwList \<Rightarrow> modul \<Rightarrow> instr \<Rightarrow> bool" where
  "ins_ok H bw m i \<longleftrightarrow> i_op i \<noteq> IndirectBr \<and> \<not> is_exception (i_op i) \<and>
     (is_call i \<longrightarrow> classify_callee bw m (i_callee i) \<notin> {AsmCallee, BlackListed}) \<and>
     (calls_back bw m i \<longrightarrow> \<not> is_vararg (i_fty i) \<and> call_site_hash H i \<noteq> None)"

definition offloadable :: "llvm \<Rightarrow> BwList \<Rightarrow> modul \<Rightarrow> func \<Rightarrow> bool" where
  "offloadable H bw m f \<longleftrightarrow> \<not> isDeclaration f \<and> \<not> isVarArg f \<and> function_hash H f \<noteq> None \<and>
     (\<forall>i \<in> set (all_ins f). ins_ok H bw m i)"

lemma fold_operands:
  assumes "\<And>v r. v \<in> set vs \<Longrightarrow> set (do_operand v r) = set r \<union> val_globals v \<and> (distinct r \<longrightarrow> distinct (do_operand v r))"
  shows "set (fold do_operand vs r) = set r \<union> (\<Union>v \<in> set vs. val_globals v) \<and>
    (distinct r \<longrightarrow> distinct (fold do_operand vs r))"
  using assms by (induction vs arbitrary: r) auto

lemma do_operand_spec:
  "set (do_operand v r) = set r \<union> val_globals v \<and> (distinct r \<longrightarrow> distinct (do_operand v r))"
proof (induction v r rule: do_operand.induct)
  case (2 k t vs refs)
  then show ?case using fold_operands [of vs refs] by simp
next
  case (3 k t vs refs)
  then show ?case using fold_operands [of vs refs] by simp
qed (auto simp: add_ref_def)

lemmas fold_operands_spec = fold_operands [OF do_operand_spec]

text \<open>What has been collected is consistent.\<close>

definition coll_inv :: "collected \<Rightarrow> bool" where
  "coll_inv c \<longleftrightarrow> distinct (a_refs c) \<and> distinct (a_cbs c) \<and> map_sorted (a_stubs c) \<and> set (a_cbs c) = fst ` set (a_stubs c)"

text \<open>An instruction's contribution to what has been collected.\<close>

definition covers :: "llvm \<Rightarrow> BwList \<Rightarrow> modul \<Rightarrow> gvptr set \<Rightarrow> u64 set \<Rightarrow> instr \<Rightarrow> bool" where
  "covers H bw m refs cbs i \<longleftrightarrow> (\<Union>v \<in> set (i_ops i). val_globals v) \<subseteq> refs \<and>
     (calls_back bw m i \<longrightarrow> (\<exists>h \<in> cbs. call_site_hash H i = Some h) \<and>
        (\<forall>p. classify_callee bw m (i_callee i) = RefCallee p \<longrightarrow> p \<in> refs))"

lemma covers_mono: "covers H bw m refs cbs i \<Longrightarrow> refs \<subseteq> refs' \<Longrightarrow> cbs \<subseteq> cbs' \<Longrightarrow> covers H bw m refs' cbs' i"
  unfolding covers_def by blast

lemma map_of_None_keys: "map_of xs k = None \<longleftrightarrow> k \<notin> fst ` set xs"
  by (simp add: map_of_eq_None_iff)

lemma do_operands_spec:
  "a_refs (do_operands vs c) = fold do_operand vs (a_refs c)" "a_cbs (do_operands vs c) = a_cbs c"
  "a_stubs (do_operands vs c) = a_stubs c"
  by (simp_all add: do_operands_def)

lemma coll_inv_operands: "coll_inv c \<Longrightarrow> coll_inv (do_operands vs c)"
  using fold_operands_spec by (simp add: coll_inv_def do_operands_spec)

lemma do_callback_type_spec:
  assumes "coll_inv c" "do_callback_type H i c = Inr c'"
  shows "coll_inv c' \<and> a_refs c' = a_refs c \<and> set (a_cbs c) \<subseteq> set (a_cbs c') \<and>
    (\<exists>h \<in> set (a_cbs c'). call_site_hash H i = Some h)"
proof -
  from assms(2) obtain h where h: "call_site_hash H i = Some h"
    by (cases "call_site_hash H i") (simp_all add: do_callback_type_def split: if_splits)
  show ?thesis
  proof (cases "map_of (a_stubs c) h = None")
    case True
    then have "h \<notin> fst ` set (a_stubs c)" by (simp add: map_of_None_keys)
    moreover have "c' = c\<lparr>a_stubs := map_insert h (StubInfo_new (i_fty i) (filter_abi_attributes (i_attrs i))) (a_stubs c),
        a_cbs := a_cbs c @ [h]\<rparr>"
      using assms(2) h True by (simp add: do_callback_type_def split: if_splits)
    ultimately show ?thesis
      using assms(1) h by (auto simp: coll_inv_def map_insert_sorted)
  next
    case False
    then have "h \<in> fst ` set (a_stubs c)" unfolding map_of_None_keys by simp
    moreover have "c' = c" using assms(2) h False by (simp add: do_callback_type_def split: if_splits)
    ultimately show ?thesis using assms(1) h by (auto simp: coll_inv_def)
  qed
qed

lemma do_callback_type_ok: "(\<exists>c'. do_callback_type H i c = Inr c') \<longleftrightarrow> \<not> is_vararg (i_fty i) \<and> call_site_hash H i \<noteq> None"
  by (cases "call_site_hash H i") (auto simp: do_callback_type_def)

lemma coll_inv_add_ref: "coll_inv c \<Longrightarrow> coll_inv (c\<lparr>a_refs := add_ref p (a_refs c)\<rparr>)"
  by (simp add: coll_inv_def add_ref_def)

lemma do_ins_ok: "(\<exists>c'. do_ins H bw m i c = Inr c') \<longleftrightarrow> ins_ok H bw m i"
proof (cases "i_op i = IndirectBr \<or> is_exception (i_op i) \<or> \<not> is_call i")
  case True
  then show ?thesis by (auto simp: do_ins_def ins_ok_def calls_back_def)
next
  case False
  then have d: "do_ins H bw m i c = do_call H bw m i c" by (simp add: do_ins_def)
  have "(\<exists>c'. bind_result (do_callback_type H i c1) (\<lambda>c'. Inr (do_operands (i_ops i) c')) = Inr c') \<longleftrightarrow>
      \<not> is_vararg (i_fty i) \<and> call_site_hash H i \<noteq> None" for c1
    unfolding do_callback_type_ok [of H i c1, symmetric] by (auto simp: result_simps)
  then show ?thesis
    using False unfolding d by (cases "classify_callee bw m (i_callee i)") (simp_all add: do_call_def ins_ok_def calls_back_def)
qed

lemma callback_then_operands:
  assumes "coll_inv c" "bind_result (do_callback_type H i c) (\<lambda>c'. Inr (do_operands (i_ops i) c')) = Inr c'"
  shows "coll_inv c' \<and> set (a_refs c) \<subseteq> set (a_refs c') \<and> set (a_cbs c) \<subseteq> set (a_cbs c') \<and>
    (\<exists>h \<in> set (a_cbs c'). call_site_hash H i = Some h) \<and> (\<Union>v \<in> set (i_ops i). val_globals v) \<subseteq> set (a_refs c')"
proof -
  from assms(2) obtain c1 where c1: "do_callback_type H i c = Inr c1" "c' = do_operands (i_ops i) c1"
    by (cases "do_callback_type H i c") simp_all
  from do_callback_type_spec [OF assms(1) c1(1)] show ?thesis
    using fold_operands_spec [of "i_ops i" "a_refs c1"] by (auto simp: c1(2) coll_inv_operands do_operands_spec)
qed

lemma do_ins_spec:
  assumes "coll_inv c" "do_ins H bw m i c = Inr c'"
  shows "coll_inv c' \<and> set (a_refs c) \<subseteq> set (a_refs c') \<and> set (a_cbs c) \<subseteq> set (a_cbs c') \<and>
    covers H bw m (set (a_refs c')) (set (a_cbs c')) i"
proof -
  have ops: "coll_inv (do_operands (i_ops i) c) \<and> set (a_refs c) \<subseteq> set (a_refs (do_operands (i_ops i) c)) \<and>
      a_cbs (do_operands (i_ops i) c) = a_cbs c \<and>
      (\<Union>v \<in> set (i_ops i). val_globals v) \<subseteq> set (a_refs (do_operands (i_ops i) c))"
    using fold_operands_spec [of "i_ops i" "a_refs c"] assms(1) by (auto simp: coll_inv_operands do_operands_spec)
  show ?thesis
  proof (cases "calls_back bw m i")
    case False
    then have "c' = do_operands (i_ops i) c"
      using assms(2) by (auto simp: do_ins_def do_call_def calls_back_def split: if_splits)
    with ops False show ?thesis by (simp add: covers_def)
  next
    case True
    then have call: "do_call H bw m i c = Inr c'"
      using assms(2) by (simp add: do_ins_def calls_back_def split: if_splits)
    show ?thesis
    proof (cases "classify_callee bw m (i_callee i)")
      case (RefCallee p)
      with call have "bind_result (do_callback_type H i (c\<lparr>a_refs := add_ref p (a_refs c)\<rparr>))
          (\<lambda>c'. Inr (do_operands (i_ops i) c')) = Inr c'" by (simp add: do_call_def)
      from callback_then_operands [OF coll_inv_add_ref [OF assms(1)] this] RefCallee show ?thesis
        by (auto simp: covers_def add_ref_def split: if_splits)
    next
      case OtherCallee
      with call have "bind_result (do_callback_type H i c) (\<lambda>c'. Inr (do_operands (i_ops i) c')) = Inr c'"
        by (simp add: do_call_def)
      from callback_then_operands [OF assms(1) this] OtherCallee show ?thesis
        by (auto simp: covers_def)
    qed (use call True in \<open>simp_all add: do_call_def calls_back_def\<close>)
  qed
qed

lemma do_all_ins_ok: "(\<exists>c'. do_all_ins H bw m is c = Inr c') \<longleftrightarrow> (\<forall>i \<in> set is. ins_ok H bw m i)"
proof (induction "is" arbitrary: c)
  case (Cons i "is")
  show ?case
  proof (cases "do_ins H bw m i c")
    case (Inl e)
    then have "\<not> ins_ok H bw m i" using do_ins_ok [of H bw m i c] by simp
    with Inl show ?thesis by simp
  next
    case (Inr c1)
    then have "ins_ok H bw m i" using do_ins_ok [of H bw m i c] by blast
    with Inr Cons [of c1] show ?thesis by simp
  qed
qed simp

lemma do_all_ins_spec:
  assumes "coll_inv c" "do_all_ins H bw m is c = Inr c'"
  shows "coll_inv c' \<and> set (a_refs c) \<subseteq> set (a_refs c') \<and> set (a_cbs c) \<subseteq> set (a_cbs c') \<and>
    (\<forall>i \<in> set is. covers H bw m (set (a_refs c')) (set (a_cbs c')) i)"
  using assms
proof (induction "is" arbitrary: c)
  case (Cons i "is")
  from Cons(3) obtain c1 where c1: "do_ins H bw m i c = Inr c1" "do_all_ins H bw m is c1 = Inr c'"
    by (cases "do_ins H bw m i c") simp_all
  from do_ins_spec [OF Cons(2) c1(1)] Cons(1) [OF _ c1(2)] show ?case
    by (auto intro: covers_mono)
qed simp

section \<open>The tables\<close>

text \<open>A table is numbered when its numbers are those from 0 up to its size; the counter is the next
  one.\<close>

definition numbered :: "('v \<Rightarrow> u32) \<Rightarrow> ('k::linorder \<times> 'v) list \<Rightarrow> bool" where
  "numbered f xs \<longleftrightarrow> map_sorted xs \<and> f ` snd ` set xs = of_nat ` {..<length xs}"

lemma numbered_Nil [simp]: "numbered f []"
  by (simp add: numbered_def)

lemma numbered_insert:
  assumes "numbered f xs" "map_of xs k = None" "f v = of_nat (length xs)"
  shows "numbered f (map_insert k v xs) \<and> length (map_insert k v xs) = Suc (length xs)"
proof -
  have k: "k \<notin> fst ` set xs" using assms(2) by (simp add: map_of_None_keys)
  have "f ` snd ` set (map_insert k v xs) = insert (f v) (f ` snd ` set xs)"
    using k assms(1) by (simp add: numbered_def set_map_insert)
  with k assms show ?thesis
    by (simp add: numbered_def map_insert_sorted length_map_insert lessThan_Suc)
qed

text \<open>With fewer than \<open>2\<^sup>3\<^sup>2\<close> entries every number up to the size belongs to one entry.\<close>

lemma numbered_unique:
  assumes "numbered f xs" "length xs \<le> 2 ^ 32" "(k, v) \<in> set xs" "(k', v') \<in> set xs" "f v = f v'"
  shows "(k, v) = (k', v')"
proof -
  have "unat (of_nat n :: u32) = n" if "n < length xs" for n
    using that assms(2) by (simp add: unsigned_of_nat take_bit_nat_eq_self)
  then have inj: "inj_on (of_nat :: nat \<Rightarrow> u32) {..<length xs}"
    by (intro inj_onI) (metis lessThan_iff)
  have "card ((f \<circ> snd) ` set xs) = length xs"
    using assms(1) card_image [OF inj] by (simp add: numbered_def image_comp)
  moreover have "length xs = card (set xs)"
    using assms(1) map_sorted_distinct [of xs] distinct_card [of xs] by (simp add: numbered_def distinct_map)
  ultimately have "inj_on (f \<circ> snd) (set xs)"
    by (intro eq_card_imp_inj_on) simp_all
  with assms(3-5) show ?thesis by (metis comp_apply inj_onD snd_conv)
qed

text \<open>What a function's entry refers to is in the tables.\<close>

definition entry_ok :: "Symtbl \<Rightarrow> FuncInfo \<Rightarrow> bool" where
  "entry_ok st fi \<longleftrightarrow> mStubType fi \<in> fst ` set (mCallingStubs st) \<and> distinct (mExtRefArgs fi) \<and> distinct (mCbStubArgs fi) \<and>
     set (mCbStubArgs fi) \<subseteq> fst ` set (mCallbackStubs st) \<and> set (mExtRefArgs fi) \<subseteq> fst ` set (mGreftbl st)"

definition symtbl_wf :: "Symtbl \<Rightarrow> bool" where
  "symtbl_wf st \<longleftrightarrow> numbered sUid (mCallingStubs st) \<and> numbered sUid (mCallbackStubs st) \<and>
     numbered mUid (mFunctbl st) \<and> numbered id (mGreftbl st) \<and> (\<forall>(p, fi) \<in> set (mFunctbl st). entry_ok st fi)"

definition ana_inv :: "Analyze \<Rightarrow> bool" where
  "ana_inv a \<longleftrightarrow> symtbl_wf (result a) \<and>
     mCallingCounter a = of_nat (length (mCallingStubs (result a))) \<and>
     mCallbackCounter a = of_nat (length (mCallbackStubs (result a))) \<and>
     mFuncCounter a = of_nat (length (mFunctbl (result a))) \<and>
     mGrefCounter a = of_nat (length (mGreftbl (result a)))"

lemma entry_ok_mono:
  assumes "entry_ok st fi" "fst ` set (mCallingStubs st) \<subseteq> fst ` set (mCallingStubs st')"
    "fst ` set (mCallbackStubs st) \<subseteq> fst ` set (mCallbackStubs st')" "fst ` set (mGreftbl st) \<subseteq> fst ` set (mGreftbl st')"
  shows "entry_ok st' fi"
  using assms unfolding entry_ok_def by blast

lemma add_calling_inv:
  assumes "ana_inv a"
  shows "ana_inv (add_calling h f a) \<and> mFunctbl (result (add_calling h f a)) = mFunctbl (result a) \<and>
    h \<in> fst ` set (mCallingStubs (result (add_calling h f a)))"
proof (cases "map_of (mCallingStubs (result a)) h = None")
  case True
  let ?s = "(StubInfo_new (f_fty f) (filter_abi_attributes (f_attrs f)))\<lparr>sUid := mCallingCounter a\<rparr>"
  have "numbered sUid (map_insert h ?s (mCallingStubs (result a))) \<and>
      length (map_insert h ?s (mCallingStubs (result a))) = Suc (length (mCallingStubs (result a)))"
    by (rule numbered_insert) (use assms True in \<open>auto simp: ana_inv_def symtbl_wf_def\<close>)
  moreover have "entry_ok ((result a)\<lparr>mCallingStubs := map_insert h ?s (mCallingStubs (result a))\<rparr>) fi"
    if "entry_ok (result a) fi" for fi
    by (rule entry_ok_mono [OF that]) auto
  ultimately show ?thesis
    using assms True by (auto simp: add_calling_def ana_inv_def symtbl_wf_def)
next
  case False
  then show ?thesis using assms by (auto simp: add_calling_def map_of_None_keys)
qed

lemma add_callback_inv:
  assumes "ana_inv a"
  shows "ana_inv (add_callback hs a) \<and> mFunctbl (result (add_callback hs a)) = mFunctbl (result a) \<and>
    mCallingStubs (result (add_callback hs a)) = mCallingStubs (result a) \<and>
    fst ` set (mCallbackStubs (result (add_callback hs a))) = insert (fst hs) (fst ` set (mCallbackStubs (result a)))"
proof (cases "map_of (mCallbackStubs (result a)) (fst hs) = None")
  case True
  let ?s = "(snd hs)\<lparr>sUid := mCallbackCounter a\<rparr>"
  have "numbered sUid (map_insert (fst hs) ?s (mCallbackStubs (result a))) \<and>
      length (map_insert (fst hs) ?s (mCallbackStubs (result a))) = Suc (length (mCallbackStubs (result a)))"
    by (rule numbered_insert) (use assms True in \<open>auto simp: ana_inv_def symtbl_wf_def\<close>)
  moreover have "entry_ok ((result a)\<lparr>mCallbackStubs := map_insert (fst hs) ?s (mCallbackStubs (result a))\<rparr>) fi"
    if "entry_ok (result a) fi" for fi
    by (rule entry_ok_mono [OF that]) auto
  ultimately show ?thesis
    using assms True by (auto simp: add_callback_def ana_inv_def symtbl_wf_def)
next
  case False
  then show ?thesis using assms by (auto simp: add_callback_def map_of_None_keys)
qed

lemma add_gref_inv:
  assumes "ana_inv a"
  shows "ana_inv (add_gref p a) \<and> mFunctbl (result (add_gref p a)) = mFunctbl (result a) \<and>
    fst ` set (mGreftbl (result (add_gref p a))) = insert p (fst ` set (mGreftbl (result a)))"
proof (cases "map_of (mGreftbl (result a)) p = None")
  case True
  have "numbered id (map_insert p (mGrefCounter a) (mGreftbl (result a))) \<and>
      length (map_insert p (mGrefCounter a) (mGreftbl (result a))) = Suc (length (mGreftbl (result a)))"
    by (rule numbered_insert) (use assms True in \<open>auto simp: ana_inv_def symtbl_wf_def\<close>)
  moreover have "entry_ok ((result a)\<lparr>mGreftbl := map_insert p (mGrefCounter a) (mGreftbl (result a))\<rparr>) fi"
    if "entry_ok (result a) fi" for fi
    by (rule entry_ok_mono [OF that]) auto
  ultimately show ?thesis
    using assms True by (auto simp: add_gref_def ana_inv_def symtbl_wf_def)
next
  case False
  then show ?thesis using assms by (auto simp: add_gref_def map_of_None_keys)
qed

text \<open>Adding the function and adding its references touch different tables.\<close>

lemma add_gref_func: "add_gref q (add_func p h c a) = add_func p h c (add_gref q a)"
  by (simp add: add_gref_def add_func_def)

lemma fold_add_gref_func: "fold add_gref qs (add_func p h c a) = add_func p h c (fold add_gref qs a)"
  by (induction qs arbitrary: a) (simp_all add: add_gref_func)

lemma fold_add_gref_inv:
  assumes "ana_inv a"
  shows "ana_inv (fold add_gref qs a) \<and> mFunctbl (result (fold add_gref qs a)) = mFunctbl (result a) \<and>
    mCallingStubs (result (fold add_gref qs a)) = mCallingStubs (result a) \<and>
    mCallbackStubs (result (fold add_gref qs a)) = mCallbackStubs (result a) \<and>
    fst ` set (mGreftbl (result (fold add_gref qs a))) = fst ` set (mGreftbl (result a)) \<union> set qs"
  using assms
proof (induction qs arbitrary: a)
  case (Cons q qs)
  have "mCallingStubs (result (add_gref q a)) = mCallingStubs (result a)"
    "mCallbackStubs (result (add_gref q a)) = mCallbackStubs (result a)"
    by (simp_all add: add_gref_def)
  with Cons(1) [of "add_gref q a"] add_gref_inv [OF Cons(2), of q] show ?case by auto
qed simp

lemma fold_add_callback_inv:
  assumes "ana_inv a"
  shows "ana_inv (fold add_callback hs a) \<and> mFunctbl (result (fold add_callback hs a)) = mFunctbl (result a) \<and>
    mCallingStubs (result (fold add_callback hs a)) = mCallingStubs (result a) \<and>
    fst ` set (mCallbackStubs (result (fold add_callback hs a))) = fst ` set (mCallbackStubs (result a)) \<union> fst ` set hs"
  using assms
proof (induction hs arbitrary: a)
  case (Cons h hs)
  with Cons(1) [of "add_callback h a"] add_callback_inv [OF Cons(2), of h] show ?case by auto
qed simp

lemma add_func_inv:
  assumes "ana_inv a" "p \<notin> fst ` set (mFunctbl (result a))" "h \<in> fst ` set (mCallingStubs (result a))" "coll_inv c"
    and "set (a_cbs c) \<subseteq> fst ` set (mCallbackStubs (result a))" "set (a_refs c) \<subseteq> fst ` set (mGreftbl (result a))"
  shows "ana_inv (add_func p h c a)"
proof -
  let ?fi = "\<lparr>mUid = mFuncCounter a, mStubType = h, mExtRefArgs = a_refs c, mCbStubArgs = a_cbs c\<rparr>"
  let ?st = "(result a)\<lparr>mFunctbl := map_insert p ?fi (mFunctbl (result a))\<rparr>"
  have s: "map_sorted (mFunctbl (result a))" using assms(1) by (simp add: ana_inv_def symtbl_wf_def numbered_def)
  have n: "numbered mUid (map_insert p ?fi (mFunctbl (result a))) \<and>
      length (map_insert p ?fi (mFunctbl (result a))) = Suc (length (mFunctbl (result a)))"
    by (rule numbered_insert) (use assms(1,2) in \<open>auto simp: ana_inv_def symtbl_wf_def map_of_None_keys\<close>)
  have keep: "entry_ok ?st fi" if "entry_ok (result a) fi" for fi
    by (rule entry_ok_mono [OF that]) auto
  have new: "entry_ok ?st ?fi" using assms(3-6) by (simp add: entry_ok_def coll_inv_def)
  have "set (map_insert p ?fi (mFunctbl (result a))) = insert (p, ?fi) (set (mFunctbl (result a)))"
    using assms(2) by (simp add: set_map_insert [OF s])
  then have "\<forall>(q, fi) \<in> set (mFunctbl ?st). entry_ok ?st fi"
    using assms(1) keep new by (auto simp: ana_inv_def symtbl_wf_def)
  with n assms(1) show ?thesis
    by (simp add: add_func_def ana_inv_def symtbl_wf_def)
qed

lemma merge_inv:
  assumes "ana_inv a" "p \<notin> fst ` set (mFunctbl (result a))" "coll_inv c" "\<forall>xs. set (order xs) = set xs"
  shows "ana_inv (merge order p f h c a) \<and>
    set (mFunctbl (result (merge order p f h c a))) = insert
      (p, \<lparr>mUid = mFuncCounter a, mStubType = h, mExtRefArgs = a_refs c, mCbStubArgs = a_cbs c\<rparr>)
      (set (mFunctbl (result a)))"
proof -
  let ?a1 = "add_calling h f a" and ?a2 = "fold add_callback (a_stubs c) (add_calling h f a)"
  let ?a3 = "fold add_gref (order (a_refs c)) ?a2"
  note i1 = add_calling_inv [OF assms(1), of h f]
  note i2 = fold_add_callback_inv [of ?a1 "a_stubs c"]
  note i3 = fold_add_gref_inv [of ?a2 "order (a_refs c)"]
  have inv: "ana_inv ?a3" and tbl: "mFunctbl (result ?a3) = mFunctbl (result a)" using i1 i2 i3 by auto
  have "ana_inv (add_func p h c ?a3)"
    by (rule add_func_inv) (use i1 i2 i3 assms in \<open>auto simp: coll_inv_def\<close>)
  moreover have "mFuncCounter ?a3 = mFuncCounter a"
    using inv assms(1) tbl by (simp add: ana_inv_def)
  moreover have "map_sorted (mFunctbl (result a))" using assms(1) by (simp add: ana_inv_def symtbl_wf_def numbered_def)
  ultimately show ?thesis
    using assms(2) tbl by (simp add: merge_def fold_add_gref_func) (simp add: add_func_def set_map_insert)
qed

section \<open>The module\<close>

definition allowed :: "BwList \<Rightarrow> gvptr \<Rightarrow> bool" where
  "allowed bw p \<longleftrightarrow> (case map_of (mFuncs bw) p of None \<Rightarrow> True | Some b \<Rightarrow> mAnalyze b \<noteq> Some False)"

text \<open>The entry of a function: the hash of its signature, all global values its instructions mention
  and the signatures of all calls that go back to the guest.\<close>

definition analysed :: "llvm \<Rightarrow> BwList \<Rightarrow> modul \<Rightarrow> func \<Rightarrow> FuncInfo \<Rightarrow> bool" where
  "analysed H bw m f fi \<longleftrightarrow> function_hash H f = Some (mStubType fi) \<and>
     (\<forall>i \<in> set (all_ins f). covers H bw m (set (mExtRefArgs fi)) (set (mCbStubArgs fi)) i)"

lemma do_function_step:
  assumes "ana_inv a" "p \<notin> fst ` set (mFunctbl (result a))" "\<forall>xs. set (order xs) = set xs"
  shows "if offloadable H bw m f
    then \<exists>a' fi. do_function H order bw m (p, f) a = Inr a' \<and> ana_inv a' \<and>
           set (mFunctbl (result a')) = insert (p, fi) (set (mFunctbl (result a))) \<and> analysed H bw m f fi
    else \<forall>a'. do_function H order bw m (p, f) a = Inr a' \<longrightarrow> a' = a"
proof (cases "\<not> isDeclaration f \<and> \<not> isVarArg f \<and> function_hash H f \<noteq> None")
  case False
  then show ?thesis by (auto simp: do_function_def offloadable_def)
next
  case True
  then obtain h where h: "function_hash H f = Some h" by blast
  let ?c0 = "\<lparr>a_refs = [], a_cbs = [], a_stubs = []\<rparr>"
  have inv0: "coll_inv ?c0" by (simp add: coll_inv_def)
  show ?thesis
  proof (cases "do_all_ins H bw m (all_ins f) ?c0")
    case (Inl e)
    then have "\<not> offloadable H bw m f"
      using do_all_ins_ok [of H bw m "all_ins f" ?c0] by (auto simp: offloadable_def)
    with Inl True h show ?thesis by (auto simp: do_function_def)
  next
    case (Inr c)
    then have "\<forall>i \<in> set (all_ins f). ins_ok H bw m i"
      using do_all_ins_ok [of H bw m "all_ins f" ?c0] by blast
    with True have off: "offloadable H bw m f" by (simp add: offloadable_def)
    let ?fi = "\<lparr>mUid = mFuncCounter a, mStubType = h, mExtRefArgs = a_refs c, mCbStubArgs = a_cbs c\<rparr>"
    note c = do_all_ins_spec [OF inv0 Inr]
    have "do_function H order bw m (p, f) a = Inr (merge order p f h c a)"
      using True h Inr by (simp add: do_function_def)
    moreover have "analysed H bw m f ?fi" using c h by (simp add: analysed_def)
    ultimately show ?thesis
      using off merge_inv [OF assms(1,2) _ assms(3), of c f h] c by auto
  qed
qed

lemma analyze_func_step:
  assumes "ana_inv (fst s)" "p \<notin> fst ` set (mFunctbl (result (fst s)))" "\<forall>xs. set (order xs) = set xs"
  shows "ana_inv (fst (analyze_func H order bw m (p, f) s)) \<and>
    (if allowed bw p \<and> offloadable H bw m f
     then \<exists>fi. set (mFunctbl (result (fst (analyze_func H order bw m (p, f) s)))) =
         insert (p, fi) (set (mFunctbl (result (fst s)))) \<and> analysed H bw m f fi
     else fst (analyze_func H order bw m (p, f) s) = fst s)"
proof (cases "allowed bw p")
  case False
  then have "analyze_func H order bw m (p, f) s = s"
    by (auto simp: allowed_def analyze_func_def split: option.splits)
  with False assms(1) show ?thesis by simp
next
  case True
  then have e: "fst (analyze_func H order bw m (p, f) s) =
      (case do_function H order bw m (p, f) (fst s) of Inl e \<Rightarrow> fst s | Inr a \<Rightarrow> a)"
    by (auto simp: allowed_def analyze_func_def Let_def split: option.splits sum.splits)
  show ?thesis
    using do_function_step [OF assms, of H bw m f] True assms(1) unfolding e
    by (cases "do_function H order bw m (p, f) (fst s)") (auto split: if_splits)
qed

lemma analyze_fold:
  assumes "\<forall>xs. set (order xs) = set xs"
  shows "distinct (map fst fs) \<Longrightarrow> ana_inv (fst s) \<Longrightarrow> fst ` set (mFunctbl (result (fst s))) \<inter> fst ` set fs = {} \<Longrightarrow>
    s' = fold (analyze_func H order bw m) fs s \<Longrightarrow>
    ana_inv (fst s') \<and>
    fst ` set (mFunctbl (result (fst s'))) = fst ` set (mFunctbl (result (fst s))) \<union>
      {p. \<exists>f. (p, f) \<in> set fs \<and> allowed bw p \<and> offloadable H bw m f} \<and>
    (\<forall>p fi. (p, fi) \<in> set (mFunctbl (result (fst s'))) \<longrightarrow> (p, fi) \<notin> set (mFunctbl (result (fst s))) \<longrightarrow>
       (\<exists>f. (p, f) \<in> set fs \<and> analysed H bw m f fi))"
proof (induction fs arbitrary: s)
  case (Cons pf fs)
  obtain p f where pf: "pf = (p, f)" by (cases pf)
  let ?s1 = "analyze_func H order bw m pf s"
  have p: "p \<notin> fst ` set (mFunctbl (result (fst s)))" using Cons(4) pf by auto
  note step = analyze_func_step [OF Cons(3) p assms, of H bw m f, folded pf]
  have d: "distinct (map fst fs)" using Cons(2) by simp
  have disj: "fst ` set (mFunctbl (result (fst ?s1))) \<inter> fst ` set fs = {}"
  proof -
    have "fst ` set (mFunctbl (result (fst ?s1))) \<subseteq> insert p (fst ` set (mFunctbl (result (fst s))))"
      using step by (auto split: if_splits)
    moreover have "p \<notin> fst ` set fs" "fst ` set (mFunctbl (result (fst s))) \<inter> fst ` set fs = {}"
      using Cons(2,4) pf by auto
    ultimately show ?thesis by blast
  qed
  have s': "s' = fold (analyze_func H order bw m) fs ?s1" using Cons(5) by simp
  note ih = Cons(1) [OF d conjunct1 [OF step] disj s']
  show ?case
  proof (cases "allowed bw p \<and> offloadable H bw m f")
    case True
    then obtain fi where fi: "set (mFunctbl (result (fst ?s1))) = insert (p, fi) (set (mFunctbl (result (fst s))))"
      "analysed H bw m f fi" using step by auto
    have "\<exists>g. (q, g) \<in> set (pf # fs) \<and> analysed H bw m g gi"
      if "(q, gi) \<in> set (mFunctbl (result (fst s')))" "(q, gi) \<notin> set (mFunctbl (result (fst s)))" for q gi
    proof (cases "(q, gi) = (p, fi)")
      case False
      with that(2) fi(1) have "(q, gi) \<notin> set (mFunctbl (result (fst ?s1)))" by simp
      with conjunct2 [OF conjunct2 [OF ih]] that(1) show ?thesis by auto
    qed (use fi(2) pf in auto)
    with ih True pf fi(1) show ?thesis by auto
  next
    case False
    then have e: "fst ?s1 = fst s" using step by simp
    have "\<exists>g. (q, g) \<in> set (pf # fs) \<and> analysed H bw m g gi"
      if "(q, gi) \<in> set (mFunctbl (result (fst s')))" "(q, gi) \<notin> set (mFunctbl (result (fst s)))" for q gi
      using conjunct2 [OF conjunct2 [OF ih]] that unfolding e by auto
    with ih False pf e show ?thesis by auto
  qed
qed simp

section \<open>Properties\<close>

lemma run_analyze_spec:
  assumes "distinct (map fst (m_funcs m))" "\<forall>xs. set (order xs) = set xs"
    and st: "st = result (fst (run_analyze H order bw m Symtbl_new))"
  shows "symtbl_wf st" "fst ` set (mFunctbl st) = {p. \<exists>f. (p, f) \<in> set (m_funcs m) \<and> allowed bw p \<and> offloadable H bw m f}"
    "(p, fi) \<in> set (mFunctbl st) \<Longrightarrow> \<exists>f. (p, f) \<in> set (m_funcs m) \<and> analysed H bw m f fi"
proof -
  let ?s = "(Analyze_new Symtbl_new, []) :: Analyze \<times> (gvptr \<times> unsupported) list"
  have i: "ana_inv (fst ?s)"
    by (simp add: Analyze_new_def Symtbl_new_def ana_inv_def symtbl_wf_def)
  have e: "mFunctbl (result (fst ?s)) = []" by (simp add: Analyze_new_def Symtbl_new_def)
  then have "fst ` set (mFunctbl (result (fst ?s))) \<inter> fst ` set (m_funcs m) = {}" by simp
  note s = analyze_fold [OF assms(2,1) i this refl, of H bw m, folded run_analyze_def, unfolded e]
  show "symtbl_wf st" using s st by (simp add: ana_inv_def)
  show "fst ` set (mFunctbl st) = {p. \<exists>f. (p, f) \<in> set (m_funcs m) \<and> allowed bw p \<and> offloadable H bw m f}"
    using s st by simp
  show "(p, fi) \<in> set (mFunctbl st) \<Longrightarrow> \<exists>f. (p, f) \<in> set (m_funcs m) \<and> analysed H bw m f fi"
    using conjunct2 [OF conjunct2 [OF s]] st by simp
qed

text \<open>C18. Which functions the analysis accepts, and that it misses nothing: the functions in the table
  are exactly the allowed ones that are defined, have a fixed number of parameters, a signature
  with a hash and only supported instructions; and the entry of each lists every global value its
  operands mention, through aggregates and constant expressions too, the called global of every
  call and the signature of every call that goes back to the guest.\<close>

theorem analyze_accepts_and_collects:
  assumes "distinct (map fst (m_funcs m))" "\<forall>xs. set (order xs) = set xs"
    and "st = result (fst (run_analyze H order bw m Symtbl_new))"
  shows "fst ` set (mFunctbl st) = {p. \<exists>f. (p, f) \<in> set (m_funcs m) \<and> allowed bw p \<and> offloadable H bw m f} \<and>
    (\<forall>p fi. (p, fi) \<in> set (mFunctbl st) \<longrightarrow> (\<exists>f. (p, f) \<in> set (m_funcs m) \<and> analysed H bw m f fi))"
  using run_analyze_spec [OF assms] by blast

text \<open>A module with a function that calls a declared one.\<close>

definition sample_main :: func where
  "sample_main = sample_callee\<lparr>f_name := ''main'',
     f_blocks := [\<lparr>b_id = 0, b_name = ''entry'', b_ins = [sample_call\<lparr>i_callee := VGlobal 2\<rparr>]\<rparr>]\<rparr>"

definition sample_module :: modul where
  "sample_module = \<lparr>m_id = ''m'', m_funcs = [(1, sample_main), (2, sample_callee)], m_gvars = [], m_aliases = [],
     m_layout = [], m_flags = []\<rparr>"

lemmas sample_module_simps = sample_module_def sample_main_def sample_callee_def sample_call_def

lemma sample_signature: "signature_hash sample_llvm (FunctionTy VoidTy [] False) [] \<noteq> None"
  by (simp add: signature_hash_def sample_llvm_def type_hash_Function_def attribute_list_hash_def)

lemma sample_offloadable: "offloadable sample_llvm kNULL sample_module sample_main"
  using sample_signature
  by (simp add: offloadable_def isDeclaration_def isVarArg_def function_hash_def all_ins_def ins_ok_def is_exception_def
      is_call_def call_site_hash_def classify_callee_def isIntrinsic_def kNULL_def sample_module_simps)

theorem analyze_accepts_and_collects_witness:
  "\<exists>fi. (1, fi) \<in> set (mFunctbl (result (fst (run_analyze sample_llvm (\<lambda>xs. xs) kNULL sample_module Symtbl_new)))) \<and>
     2 \<in> set (mExtRefArgs fi) \<and> mCbStubArgs fi \<noteq> []"
proof -
  let ?st = "result (fst (run_analyze sample_llvm (\<lambda>xs. xs) kNULL sample_module Symtbl_new))"
  have d: "distinct (map fst (m_funcs sample_module))" "\<forall>xs :: gvptr list. set ((\<lambda>xs. xs) xs) = set xs"
    by (simp_all add: sample_module_def)
  note th = analyze_accepts_and_collects [OF d refl, of sample_llvm kNULL]
  have "1 \<in> fst ` set (mFunctbl ?st)"
    unfolding conjunct1 [OF th] using sample_offloadable by (auto simp: allowed_def kNULL_def sample_module_def)
  then obtain fi where fi: "(1, fi) \<in> set (mFunctbl ?st)" by auto
  then obtain f where "(1, f) \<in> set (m_funcs sample_module)" "analysed sample_llvm kNULL sample_module f fi"
    using conjunct2 [OF th] by blast
  then have "analysed sample_llvm kNULL sample_module sample_main fi" by (auto simp: sample_module_def)
  then have "2 \<in> set (mExtRefArgs fi)" "mCbStubArgs fi \<noteq> []"
    by (auto simp: analysed_def covers_def calls_back_def all_ins_def is_call_def classify_callee_def isIntrinsic_def
        kNULL_def sample_module_simps)
  with fi show ?thesis by blast
qed

text \<open>C19. The table the analysis builds is well formed: each of its four maps numbers its entries
  from 0 up to its size, and the stub, the callback signatures and the references named by a
  function's entry are in the maps, each once.\<close>

theorem analyze_table_wf:
  assumes "distinct (map fst (m_funcs m))" "\<forall>xs. set (order xs) = set xs"
  shows "symtbl_wf (result (fst (run_analyze H order bw m Symtbl_new)))"
  by (rule run_analyze_spec(1) [OF assms refl])

theorem analyze_table_wf_witness:
  "symtbl_wf (result (fst (run_analyze sample_llvm (\<lambda>xs. xs) kNULL sample_module Symtbl_new)))"
  by (rule analyze_table_wf) (simp_all add: sample_module_def)

end
