(* ===== verification/Plug_Config.thy ===== *)
theory Plug_Config
  imports Plug_BwList
begin

text \<open>
  The configuration of the plugin (\<open>src/lib/gyhcall/Config.cpp\<close>) and of its stages, with their
  conversions to and from JSON.
\<close>

section \<open>The stages\<close>

text \<open>\<open>Analyze::Config\<close>, \<open>Outline::Config\<close> and \<open>GenQlib::Config\<close> have no field; loading only
  asks for an object.\<close>

definition empty_dump_json :: "unit \<Rightarrow> jobject" where
  "empty_dump_json c = []"

definition empty_load_json :: "json \<Rightarrow> (gyh_error, unit) result" where
  "empty_load_json jval = bind_result (omapper jval) (\<lambda>_. Inr ())"

record ChopOff_Config =
  coDebug :: bool
  coUseGRT :: bool
  coUseFCPcm :: bool
  coMinBasicBlocks :: u32
  coMinInstructions :: u32

definition ChopOff_Config_default :: ChopOff_Config where
  "ChopOff_Config_default = \<lparr>coDebug = False, coUseGRT = False, coUseFCPcm = False,
     coMinBasicBlocks = 2, coMinInstructions = 10\<rparr>"

definition ChopOff_Config_dump_json :: "ChopOff_Config \<Rightarrow> jobject" where
  "ChopOff_Config_dump_json c =
     jset ''MinInstructions'' (json_u32 (coMinInstructions c))
       (jset ''MinBasicBlocks'' (json_u32 (coMinBasicBlocks c))
         (jset ''UseFCPcm'' (JBool (coUseFCPcm c))
           (jset ''UseGRT'' (JBool (coUseGRT c))
             (jset ''Debug'' (JBool (coDebug c)) []))))"

definition ChopOff_Config_load_json :: "ChopOff_Config \<Rightarrow> json \<Rightarrow> (gyh_error, ChopOff_Config) result" where
  "ChopOff_Config_load_json c jval =
     bind_result (omapper jval) (\<lambda>om.
     bind_result (omap om ''Debug'' getAsBoolean) (\<lambda>dbg.
     bind_result (omap om ''UseGRT'' getAsBoolean) (\<lambda>grt.
     bind_result (omap om ''UseFCPcm'' getAsBoolean) (\<lambda>fcm.
     bind_result (omap om ''MinBasicBlocks'' fromJSON_u32) (\<lambda>mb.
     bind_result (omap om ''MinInstructions'' fromJSON_u32) (\<lambda>mi.
     Inr (c\<lparr>coDebug := dbg, coUseGRT := grt, coUseFCPcm := fcm, coMinBasicBlocks := mb,
            coMinInstructions := mi\<rparr>)))))))"

text \<open>\<open>ChopOff::Pass::Config\<close> adds the path of the log.\<close>

definition ChopOff_Pass_Config_dump_json :: "ChopOff_Config \<times> string \<Rightarrow> jobject" where
  "ChopOff_Pass_Config_dump_json cl = jset ''LogPath'' (JString (snd cl)) (ChopOff_Config_dump_json (fst cl))"

definition ChopOff_Pass_Config_load_json ::
  "ChopOff_Config \<times> string \<Rightarrow> json \<Rightarrow> (gyh_error, ChopOff_Config \<times> string) result" where
  "ChopOff_Pass_Config_load_json cl jval =
     bind_result (omapper jval) (\<lambda>om.
     bind_result (omap om ''LogPath'' getAsString) (\<lambda>path.
     bind_result (ChopOff_Config_load_json (fst cl) jval) (\<lambda>c. Inr (c, path))))"

record TakeOut_Config =
  toDebug :: bool
  toUseGRT :: bool
  toUseFCP :: bool
  toUseFCPcm :: bool

definition TakeOut_Config_default :: TakeOut_Config where
  "TakeOut_Config_default = \<lparr>toDebug = False, toUseGRT = False, toUseFCP = False, toUseFCPcm = False\<rparr>"

definition TakeOut_Config_dump_json :: "TakeOut_Config \<Rightarrow> jobject" where
  "TakeOut_Config_dump_json c =
     jset ''UseFCP'' (JBool (toUseFCP c)) (jset ''UseGRT'' (JBool (toUseGRT c)) (jset ''Debug'' (JBool (toDebug c)) []))"

definition TakeOut_Config_load_json :: "TakeOut_Config \<Rightarrow> json \<Rightarrow> (gyh_error, TakeOut_Config) result" where
  "TakeOut_Config_load_json c jval =
     bind_result (omapper jval) (\<lambda>om.
     bind_result (omap om ''Debug'' getAsBoolean) (\<lambda>dbg.
     bind_result (omap om ''UseGRT'' getAsBoolean) (\<lambda>grt.
     bind_result (omap om ''UseFCP'' getAsBoolean) (\<lambda>fcp.
     Inr (c\<lparr>toDebug := dbg, toUseGRT := grt, toUseFCP := fcp\<rparr>)))))"

section \<open>The plugin\<close>

record Config =
  mLLorBC :: bool
  mDebug :: bool
  mUsePFO :: bool
  mUseGRT :: bool
  mUseFCP :: bool
  mUseFCPcm :: bool
  mMinBasicBlocks :: u32
  mMinInstructions :: u32
  mBwList :: PickUp_Config

definition Config_default :: Config where
  "Config_default = \<lparr>mLLorBC = False, mDebug = False, mUsePFO = False, mUseGRT = False, mUseFCP = False,
     mUseFCPcm = False, mMinBasicBlocks = 2, mMinInstructions = 10, mBwList = PickUp_Config_default\<rparr>"

definition Config_chop_off :: "Config \<Rightarrow> ChopOff_Config" where
  "Config_chop_off c = ChopOff_Config_default\<lparr>coDebug := mDebug c, coUseGRT := mUseGRT c, coUseFCPcm := mUseFCPcm c,
     coMinBasicBlocks := mMinBasicBlocks c, coMinInstructions := mMinInstructions c\<rparr>"

definition Config_pick_up :: "Config \<Rightarrow> PickUp_Config" where
  "Config_pick_up c = mBwList c"

definition Config_take_out :: "Config \<Rightarrow> TakeOut_Config" where
  "Config_take_out c = TakeOut_Config_default\<lparr>toDebug := mDebug c, toUseGRT := mUseGRT c, toUseFCP := mUseFCP c,
     toUseFCPcm := mUseFCPcm c\<rparr>"

definition Config_dump_json :: "Config \<Rightarrow> jobject" where
  "Config_dump_json c =
     jset ''BwList'' (JObject (PickUp_Config_dump_json (mBwList c)))
       (jset ''MinInstructions'' (json_u32 (mMinInstructions c))
         (jset ''MinBasicBlocks'' (json_u32 (mMinBasicBlocks c))
           (jset ''UseFCPcm'' (JBool (mUseFCPcm c))
             (jset ''UseFCP'' (JBool (mUseFCP c))
               (jset ''UseGRT'' (JBool (mUseGRT c))
                 (jset ''UsePFO'' (JBool (mUsePFO c))
                   (jset ''Debug'' (JBool (mDebug c))
                     (jset ''LLorBC'' (JBool (mLLorBC c)) []))))))))"

text \<open>The list is optional: when it is missing, or no object, the one of the object stays.\<close>

definition Config_load_json :: "Config \<Rightarrow> json \<Rightarrow> (gyh_error, Config) result" where
  "Config_load_json c jval =
     bind_result (omapper jval) (\<lambda>om.
     bind_result (omap om ''LLorBC'' getAsBoolean) (\<lambda>llbc.
     bind_result (omap om ''Debug'' getAsBoolean) (\<lambda>dbg.
     bind_result (omap om ''UsePFO'' getAsBoolean) (\<lambda>pfo.
     bind_result (omap om ''UseGRT'' getAsBoolean) (\<lambda>grt.
     bind_result (omap om ''UseFCP'' getAsBoolean) (\<lambda>fcp.
     bind_result (omap om ''UseFCPcm'' getAsBoolean) (\<lambda>fcm.
     bind_result (omap om ''MinBasicBlocks'' fromJSON_u32) (\<lambda>mb.
     bind_result (omap om ''MinInstructions'' fromJSON_u32) (\<lambda>mi.
     let c' = c\<lparr>mLLorBC := llbc, mDebug := dbg, mUsePFO := pfo, mUseGRT := grt, mUseFCP := fcp, mUseFCPcm := fcm,
                mMinBasicBlocks := mb, mMinInstructions := mi\<rparr> in
     case getObject om ''BwList'' of
       None \<Rightarrow> Inr c'
     | Some bwList \<Rightarrow> bind_result (PickUp_Config_load_json (mBwList c') (JObject bwList)) (\<lambda>bw.
         Inr (c'\<lparr>mBwList := bw\<rparr>)))))))))))"

definition Config_to_file :: "json_io \<Rightarrow> Config \<Rightarrow> string \<Rightarrow> files \<Rightarrow> (gyh_error, files) result" where
  "Config_to_file io c path fs = dump_json_file io (JObject (Config_dump_json c)) path fs"

definition Config_from_file :: "json_io \<Rightarrow> string \<Rightarrow> files \<Rightarrow> (gyh_error, Config) result" where
  "Config_from_file io path fs = load_json_file io path (Config_load_json Config_default) fs"

section \<open>The codecs\<close>

interpretation empty_config: json_codec "\<lambda>c. JObject (empty_dump_json c)" empty_load_json "(=)" "\<lambda>_. True"
  by unfold_locales (auto simp: empty_load_json_def elim!: jeq_objectE)

lemma ChopOff_Config_codec:
  assumes "jeq (JObject (ChopOff_Config_dump_json c)) j"
  shows "ChopOff_Config_load_json c0 j = Inr c"
proof -
  from assms obtain a where a: "j = JObject a" "jeq (JObject (ChopOff_Config_dump_json c)) (JObject a)"
    by (auto elim: jeq_objectE)
  show ?thesis
    unfolding a(1) ChopOff_Config_load_json_def
    by (simp add: jeq_omap(1) [OF a(2)] jeq_getAs jeq_fromJSON) (simp add: ChopOff_Config_dump_json_def)
qed

interpretation chopoff_config: json_codec "\<lambda>c. JObject (ChopOff_Config_dump_json c)"
  "ChopOff_Config_load_json ChopOff_Config_default" "(=)" "\<lambda>_. True"
  by unfold_locales (simp add: ChopOff_Config_codec)

text \<open>\<open>TakeOut::Config\<close> round-trips only up to \<open>UseFCPcm\<close>, which the JSON form lacks.\<close>

interpretation takeout_config: json_codec "\<lambda>c. JObject (TakeOut_Config_dump_json c)"
  "TakeOut_Config_load_json TakeOut_Config_default" "\<lambda>c c'. c' = c\<lparr>toUseFCPcm := False\<rparr>" "\<lambda>_. True"
proof
  fix c j
  assume "jeq (JObject (TakeOut_Config_dump_json c)) j"
  then obtain a where a: "j = JObject a" "jeq (JObject (TakeOut_Config_dump_json c)) (JObject a)"
    by (auto elim: jeq_objectE)
  show "\<exists>y. TakeOut_Config_load_json TakeOut_Config_default j = Inr y \<and> y = c\<lparr>toUseFCPcm := False\<rparr>"
    unfolding a(1) TakeOut_Config_load_json_def
    by (simp add: jeq_omap(1) [OF a(2)] jeq_getAs)
      (simp add: TakeOut_Config_dump_json_def TakeOut_Config_default_def)
qed

definition Config_eq :: "Config \<Rightarrow> Config \<Rightarrow> bool" where
  "Config_eq c c' \<longleftrightarrow> PickUp_Config_eq (mBwList c) (mBwList c') \<and> c'\<lparr>mBwList := mBwList c\<rparr> = c"

lemma Config_codec:
  assumes "PickUp_Config_valid (mBwList c)" "jeq (JObject (Config_dump_json c)) j"
  shows "\<exists>c'. Config_load_json Config_default j = Inr c' \<and> Config_eq c c'"
proof -
  let ?d = "Config_dump_json c"
  from assms(2) obtain a where a: "j = JObject a" "jeq (JObject ?d) (JObject a)"
    by (auto elim: jeq_objectE)
  have "getObject ?d ''BwList'' = Some (PickUp_Config_dump_json (mBwList c))"
    by (simp add: Config_dump_json_def)
  with jeq_getObject [OF a(2), of "''BwList''"] obtain b where b: "getObject a ''BwList'' = Some b"
    "jeq (JObject (PickUp_Config_dump_json (mBwList c))) (JObject b)"
    by (auto simp: option_rel_Some1)
  from PickUp_Config_codec [OF assms(1) b(2)] obtain bw where
    "PickUp_Config_load_json PickUp_Config_default (JObject b) = Inr bw" "PickUp_Config_eq (mBwList c) bw"
    by blast
  then show ?thesis
    unfolding a(1) Config_load_json_def
    by (simp add: jeq_omap(1) [OF a(2)] jeq_getAs jeq_fromJSON b(1) Let_def)
      (simp add: Config_dump_json_def Config_default_def Config_eq_def)
qed

interpretation config: json_codec "\<lambda>c. JObject (Config_dump_json c)" "Config_load_json Config_default"
  Config_eq "\<lambda>c. PickUp_Config_valid (mBwList c)"
  by unfold_locales (rule Config_codec)

section \<open>Properties\<close>

text \<open>C23. A configuration written to a file is read back: the same switches and thresholds, and the
  same lists as maps.  The printer and the parser of LLVM are taken to give back an equal value.\<close>

theorem config_file_roundtrip:
  assumes "parse io (print io (JObject (Config_dump_json c))) = Some j" "jeq (JObject (Config_dump_json c)) j"
    and "PickUp_Config_valid (mBwList c)" "Config_to_file io c path fs = Inr fs'"
  shows "\<exists>c'. Config_from_file io path fs' = Inr c' \<and> Config_eq c c'"
  using config.file_roundtrip [OF assms(1-3)] assms(4) by (simp add: Config_to_file_def Config_from_file_def)

definition sample_config :: Config where
  "sample_config = Config_default\<lparr>mUseGRT := True, mMinInstructions := 20,
     mBwList := PickUp_Config_default\<lparr>cFuncs := [(''f'', FuncBw_default\<lparr>mAnalyze := Some False\<rparr>)]\<rparr>\<rparr>"

definition sample_files :: files where
  "sample_files = \<lparr>content = Map.empty, can_open = (\<lambda>p. p = ''gyhcall.config'')\<rparr>"

definition sample_io :: "json \<Rightarrow> json_io" where
  "sample_io j = \<lparr>print = (\<lambda>v. ''{}''), parse = (\<lambda>s. Some j)\<rparr>"

lemmas sample_config_dump = sample_config_def Config_default_def Config_dump_json_def PickUp_Config_dump_json_def
  PickUp_Config_default_def FuncBw_dump_json_def FuncBw_default_def json_opt_bool_def json_u32_def jset_def Let_def

theorem config_file_roundtrip_witness:
  "\<exists>fs' c'. Config_to_file (sample_io (JObject (Config_dump_json sample_config))) sample_config ''gyhcall.config''
       sample_files = Inr fs' \<and>
     Config_from_file (sample_io (JObject (Config_dump_json sample_config))) ''gyhcall.config'' fs' = Inr c' \<and>
     mUseGRT c' \<and> map_of (cFuncs (mBwList c')) ''f'' = Some (FuncBw_default\<lparr>mAnalyze := Some False\<rparr>)"
proof -
  let ?io = "sample_io (JObject (Config_dump_json sample_config))"
  have p: "parse ?io (print ?io (JObject (Config_dump_json sample_config))) = Some (JObject (Config_dump_json sample_config))"
    by (simp add: sample_io_def)
  have e: "jeq (JObject (Config_dump_json sample_config)) (JObject (Config_dump_json sample_config))"
    by (rule jeq_refl) (simp add: sample_config_dump)
  have v: "PickUp_Config_valid (mBwList sample_config)"
    by (simp add: PickUp_Config_valid_def sample_config_def PickUp_Config_default_def)
  obtain fs' where f: "Config_to_file ?io sample_config ''gyhcall.config'' sample_files = Inr fs'"
    by (simp add: Config_to_file_def dump_json_file_def sample_files_def)
  from config_file_roundtrip [OF p e v f] obtain c' where
    c': "Config_from_file ?io ''gyhcall.config'' fs' = Inr c'" "Config_eq sample_config c'" by blast
  then have "c'\<lparr>mBwList := mBwList sample_config\<rparr> = sample_config" by (simp add: Config_eq_def)
  then have "mUseGRT (c'\<lparr>mBwList := mBwList sample_config\<rparr>) = mUseGRT sample_config" by simp
  then have "mUseGRT c'" by (simp add: sample_config_def)
  moreover have "map_of (cFuncs (mBwList c')) ''f'' = Some (FuncBw_default\<lparr>mAnalyze := Some False\<rparr>)"
    using c'(2) by (simp add: Config_eq_def PickUp_Config_eq_def sample_config_def)
  ultimately show ?thesis using f c'(1) by blast
qed

text \<open>C27. The configuration of the take-out stage loses a switch in its JSON form: whatever
  \<open>UseFCPcm\<close> was, loading a dumped configuration gives it as false, with every other field kept.\<close>

theorem takeout_config_drops_fcpcm:
  "TakeOut_Config_load_json TakeOut_Config_default (JObject (TakeOut_Config_dump_json c)) =
     Inr (c\<lparr>toUseFCPcm := False\<rparr>)"
  by (simp add: TakeOut_Config_load_json_def TakeOut_Config_dump_json_def TakeOut_Config_default_def)

end
