(* ===== verification/Plug_ChopOff.thy ===== *)
theory Plug_ChopOff
  imports Plug_Exec Plug_Analyze Plug_Config
begin

text \<open>
  The guest side of the code generator, \<open>ChopOff\<close> of \<open>src/lib/gyhcall/ChopOff.cpp\<close>: it replaces the
  bodies of the functions moved to the host by stubs that call the runtime, and adds the stubs
  through which the host calls back, the tables of global references and the constructor and
  destructor that register the library.
\<close>

section \<open>The template\<close>

text \<open>The declarations of \<open>guest.ll\<close>, with the attributes of their parameters.\<close>

definition in_ptr :: attr_set where
  "in_ptr = [EnumAttr NoUndef, EnumAttr NoAlias, EnumAttr NoCapture, EnumAttr ReadOnly]"

definition out_ptr :: attr_set where
  "out_ptr = [EnumAttr NoUndef, EnumAttr NoAlias, EnumAttr NoCapture, EnumAttr WriteOnly]"

definition inout_ptr :: attr_set where
  "inout_ptr = [EnumAttr NoUndef, EnumAttr NoAlias, EnumAttr NoCapture]"

definition voidFn :: "ty list \<Rightarrow> ty" where
  "voidFn ts = FunctionTy VoidTy ts False"

definition debugTy :: ty where
  "debugTy = FunctionTy VoidTy [ptrTy] True"

definition i32Ty :: ty where
  "i32Ty = IntegerTy 32"

definition guest_ll :: "(string \<times> ty \<times> attr_list) list" where
  "guest_ll =
    [(''__gyh_debug__'', debugTy, [[], [], in_ptr]),
     (''__gyh_ctor__'', voidFn [ptrTy], [[], [], inout_ptr]),
     (''__gyh_dtor__'', voidFn [ptrTy], [[], [], inout_ptr]),
     (''__gyh_call__'', voidFn [ptrTy, i32Ty, ptrTy, ptrTy, ptrTy, ptrTy], [[], [], in_ptr, [], out_ptr, in_ptr, in_ptr, in_ptr]),
     (''__gyh_callback_return__'', voidFn [ptrTy, ptrTy, ptrTy, ptrTy], [[], [], out_ptr, in_ptr, in_ptr, in_ptr]),
     (''__gyh_ctor_grt__'', voidFn [ptrTy, ptrTy, ptrTy], [[], [], inout_ptr, in_ptr, in_ptr]),
     (''__gyh_call_grt__'', voidFn [ptrTy, i32Ty, ptrTy, ptrTy], [[], [], in_ptr, [], out_ptr, in_ptr]),
     (''__gyh_ctor_fcp_cm__'', voidFn [ptrTy, ptrTy, ptrTy, ptrTy, i32Ty], [[], [], inout_ptr, in_ptr, in_ptr, inout_ptr])]"

definition inject_decl :: "uniquer \<Rightarrow> string \<times> ty \<times> attr_list \<Rightarrow> modstate \<Rightarrow> modstate" where
  "inject_decl U d s = (case d of (n, t, al) \<Rightarrow>
     let (p, s1) = new_function U t ExternalLinkage n s in upd_func p (f_attrs_update (\<lambda>_. al)) s1)"

definition inject_module :: "uniquer \<Rightarrow> modstate \<Rightarrow> modstate" where
  "inject_module U s = fold (inject_decl U) guest_ll s"

section \<open>State\<close>

text \<open>A null pointer is 0.  \<open>global_ctors\<close> and \<open>global_dtors\<close> are the entries appended to the lists of
  constructors and destructors of the module, with their priorities.\<close>

record ChopOff =
  coMod :: modstate
  mGyhDebug :: gvptr
  mGyhCallDebugFmt :: gvptr
  mGyhCallbackDebugFmt :: gvptr
  mGyhQlibUid :: gvptr
  mGyhCtor :: gvptr
  mGyhCtorHHH :: gvptr
  mGyhDtor :: gvptr
  mGyhDtorHHH :: gvptr
  mGyhCall :: gvptr
  mGyhCallbackReturn :: gvptr
  mGyhExtreftbl :: gvptr
  mGyhCbstubtbl :: gvptr
  mGyhCtorGRT :: gvptr
  mGyhCallGRT :: gvptr
  mGyhGfunctbl :: gvptr
  mGyhCtorFCPcm :: gvptr
  global_ctors :: "(nat \<times> gvptr) list"
  global_dtors :: "(nat \<times> gvptr) list"

definition ChopOff_new :: "modstate \<Rightarrow> ChopOff" where
  "ChopOff_new s = \<lparr>coMod = s, mGyhDebug = 0, mGyhCallDebugFmt = 0, mGyhCallbackDebugFmt = 0, mGyhQlibUid = 0,
     mGyhCtor = 0, mGyhCtorHHH = 0, mGyhDtor = 0, mGyhDtorHHH = 0, mGyhCall = 0, mGyhCallbackReturn = 0,
     mGyhExtreftbl = 0, mGyhCbstubtbl = 0, mGyhCtorGRT = 0, mGyhCallGRT = 0, mGyhGfunctbl = 0, mGyhCtorFCPcm = 0,
     global_ctors = [], global_dtors = []\<rparr>"

text \<open>\<open>getFunction\<close> followed by the assertion that there is one.\<close>

definition runtime_func :: "modstate \<Rightarrow> string \<Rightarrow> (plug_abort, gvptr) result" where
  "runtime_func s n = (case getFunction (fst s) n of None \<Rightarrow> Inl AssertFailed | Some p \<Rightarrow> Inr p)"

definition module_uid_hex :: "llvm \<Rightarrow> Symtbl \<Rightarrow> string" where
  "module_uid_hex H st = utohexstr H (ucast (mModUid st)) 8"

section \<open>Debug formats and the identifier of the library\<close>

definition gen_debug_fmt :: "uniquer \<Rightarrow> string \<Rightarrow> modstate \<Rightarrow> gvptr \<times> modstate" where
  "gen_debug_fmt U fmt s = new_gvar U (val_ty (cstring fmt)) True InternalLinkage (cstring fmt) ''__gyh_debug_fmt__'' s"

definition newline :: string where
  "newline = [CHR 0x0A]"

definition gen_debug :: "uniquer \<Rightarrow> ChopOff_Config \<Rightarrow> ChopOff \<Rightarrow> (plug_abort, ChopOff) result" where
  "gen_debug U c s =
     bind_result (runtime_func (coMod s) ''__gyh_debug__'') (\<lambda>dbg.
     let (f1, s1) = gen_debug_fmt U ((if coUseGRT c then ''__g_yh_call_grt__(%p, %d, %p, %p)''
                       else ''__g_yh_call__(%p, %d, %p, %p, %p, %p)'') @ newline) (coMod s);
         (f2, s2) = gen_debug_fmt U (''__g_yh_callback_%016llX(%p, %p, %p)'' @ newline) s1
     in Inr (s\<lparr>coMod := s2, mGyhDebug := dbg, mGyhCallDebugFmt := f1, mGyhCallbackDebugFmt := f2\<rparr>))"

definition gen_uid :: "uniquer \<Rightarrow> llvm \<Rightarrow> Symtbl \<Rightarrow> ChopOff \<Rightarrow> ChopOff" where
  "gen_uid U H st s =
     (let (p, s1) = new_gvar U i32Ty False ExternalLinkage (VInt 32 (ucast (mModUid st)))
                      (''__gyh_qlib_uid_'' @ module_uid_hex H st) (coMod s)
      in s\<lparr>coMod := upd_gvar p (g_dso_local_update (\<lambda>_. True)) s1, mGyhQlibUid := p\<rparr>)"

section \<open>Callback stubs\<close>

definition debug_call :: "bool \<Rightarrow> gvptr \<Rightarrow> val list \<Rightarrow> builder \<Rightarrow> builder" where
  "debug_call on dbg vs b = (if on then snd (CreateCall debugTy (VGlobal dbg) vs [] b) else b)"

text \<open>The arguments, read from the structure \<open>argPad\<close> points to.\<close>

definition load_args :: "ty list option \<Rightarrow> val \<Rightarrow> builder \<Rightarrow> val list \<times> builder" where
  "load_args ts argPad b = (case ts of
     None \<Rightarrow> ([], b)
   | Some ts \<Rightarrow> let (argStruct, b1) = CreateLoad (structTy ts) argPad b in extract_values argStruct 0 (length ts) b1)"

text \<open>A callback stub takes the place for the result, the arguments and the guest function to call.\<close>

definition cb_stub_body :: "ChopOff_Config \<Rightarrow> ChopOff \<Rightarrow> u64 \<Rightarrow> StubInfo \<Rightarrow> builder" where
  "cb_stub_body c s hc st =
     (let retPad = VArg 0 ptrTy; argPad = VArg 1 ptrTy; gfunc = VArg 2 ptrTy;
          b1 = debug_call (coDebug c) (mGyhDebug s) [VGlobal (mGyhCallbackDebugFmt s), VInt 64 hc, gfunc, retPad, argPad] (0, []);
          (as, b2) = load_args (sArg st) argPad b1;
          (call, b3) = CreateCall (sFunc st) gfunc as (sAttrs st) b2
      in CreateRet None (if sRet st = None then b3 else CreateStore call retPad b3))"

definition cb_stub_attrs :: attr_list where
  "cb_stub_attrs = [[], [],
     [EnumAttr NoAlias, EnumAttr NoCapture, EnumAttr NoUndef, EnumAttr WriteOnly],
     [EnumAttr NoAlias, EnumAttr NoCapture, EnumAttr NoUndef, EnumAttr ReadOnly],
     [EnumAttr NoAlias, EnumAttr NoCapture, EnumAttr NoUndef, EnumAttr ReadOnly]]"

type_synonym CbStubs = "(u64 \<times> gvptr) list"

definition gen_cb_stub :: "uniquer \<Rightarrow> llvm \<Rightarrow> ChopOff_Config \<Rightarrow> u64 \<times> StubInfo \<Rightarrow> ChopOff \<times> CbStubs \<Rightarrow> ChopOff \<times> CbStubs" where
  "gen_cb_stub U H c hs acc = (case hs of (hc, st) \<Rightarrow>
     let s = fst acc;
         (p, s1) = new_function U (voidFn [ptrTy, ptrTy, ptrTy]) WeakAnyLinkage (''__gyh_callback_'' @ hash2str H hc) (coMod s);
         s2 = upd_func p (\<lambda>f. setBody (snd (cb_stub_body c s hc st)) (f\<lparr>f_attrs := cb_stub_attrs\<rparr>)) s1
     in (s\<lparr>coMod := s2\<rparr>, snd acc @ [(hc, p)]))"

definition gen_cb_stubs :: "uniquer \<Rightarrow> llvm \<Rightarrow> ChopOff_Config \<Rightarrow> Symtbl \<Rightarrow> ChopOff \<Rightarrow> ChopOff \<times> CbStubs" where
  "gen_cb_stubs U H c st s = fold (gen_cb_stub U H c) (mCallbackStubs st) (s, [])"

section \<open>Tables of global references\<close>

text \<open>\<open>cbStubs.at(hc)\<close> for every callback stub, with the number of the stub.\<close>

fun cb_entries :: "CbStubs \<Rightarrow> (u64 \<times> StubInfo) list \<Rightarrow> (plug_abort, (nat \<times> val) list) result" where
  "cb_entries cbs [] = Inr []"
| "cb_entries cbs ((hc, st) # r) = (case map_of cbs hc of
     None \<Rightarrow> Inl KeyMissing
   | Some p \<Rightarrow> bind_result (cb_entries cbs r) (\<lambda>es. Inr ((unat (sUid st), VGlobal p) # es)))"

definition const_table :: "uniquer \<Rightarrow> string \<Rightarrow> val list \<Rightarrow> modstate \<Rightarrow> gvptr \<times> modstate" where
  "const_table U n vs s = (let t = ptrArrayTy (length vs) in new_gvar U t True InternalLinkage (VAggr AArray t vs) n s)"

definition gen_grt :: "uniquer \<Rightarrow> Symtbl \<Rightarrow> CbStubs \<Rightarrow> ChopOff \<Rightarrow> (plug_abort, ChopOff) result" where
  "gen_grt U st cbs s =
     bind_result (cb_entries cbs (mCallbackStubs st)) (\<lambda>es.
     bind_result (fill_table (length (mCallbackStubs st)) es) (\<lambda>cbstubtbl.
     let (p, s1) = const_table U ''__gyh_cbstubtbl__'' cbstubtbl (coMod s) in
     bind_result (fill_table (length (mGreftbl st)) (map (\<lambda>(g, uid). (unat uid, VGlobal g)) (mGreftbl st))) (\<lambda>extreftbl.
     let (q, s2) = const_table U ''__gyh_extreftbl__'' extreftbl s1 in
     Inr (s\<lparr>coMod := s2, mGyhCbstubtbl := p, mGyhExtreftbl := q\<rparr>))))"

section \<open>Which functions are replaced\<close>

definition chop_bw :: "BwList \<Rightarrow> gvptr \<Rightarrow> bool option" where
  "chop_bw bw p = (case map_of (mFuncs bw) p of None \<Rightarrow> None | Some b \<Rightarrow> mChopOff b)"

definition instructionCount :: "func \<Rightarrow> nat" where
  "instructionCount f = length (all_ins f)"

definition Symtbl_kFCPcmMagic :: u64 where
  "Symtbl_kFCPcmMagic = 0x6666200009068888"

definition i64Ty :: ty where
  "i64Ty = IntegerTy 64"

definition fcp_cm_prefix :: "u32 \<Rightarrow> val" where
  "fcp_cm_prefix uid = VAggr AArray (ArrayTy i64Ty 2) [VInt 64 Symtbl_kFCPcmMagic, VInt 64 (ucast uid)]"

definition set_prefix :: "u32 \<Rightarrow> func \<Rightarrow> func" where
  "set_prefix uid f = (if f_prefix f = None then f\<lparr>f_prefix := Some (fcp_cm_prefix uid)\<rparr> else f)"

text \<open>Whether the body of a function that is not on the black list is replaced.\<close>

definition worth_chopping :: "ChopOff_Config \<Rightarrow> BwList \<Rightarrow> gvptr \<Rightarrow> func \<Rightarrow> bool" where
  "worth_chopping c bw p f \<longleftrightarrow>
     \<not> (coUseFCPcm c \<and> (p \<in> set (mFCPcmChop bw)) \<noteq> mFCPcmChopOthers bw) \<and>
     length (f_blocks f) > unat (coMinBasicBlocks c) \<and> instructionCount f > unat (coMinInstructions c)"

text \<open>One turn of the loop: the module with the prefix data, the functions to replace so far, and the
  functions reported as required but not replaced.\<close>

type_synonym benefits = "modstate \<times> (gvptr \<times> FuncInfo) list \<times> gvptr list"

definition calc_benefit :: "ChopOff_Config \<Rightarrow> BwList \<Rightarrow> gvptr \<times> FuncInfo \<Rightarrow> benefits \<Rightarrow> benefits" where
  "calc_benefit c bw e acc = (case (e, acc) of ((p, info), (s, bs, ds)) \<Rightarrow>
     if chop_bw bw p = Some False then acc
     else let s' = (if coUseFCPcm c then upd_func p (set_prefix (mUid info)) s else s) in
       case map_of (m_funcs (fst s)) p of
         None \<Rightarrow> (s', bs, ds)
       | Some f \<Rightarrow>
           if worth_chopping c bw p f then (s', bs @ [(p, info)], ds)
           else (s', bs, if chop_bw bw p = Some True then ds @ [p] else ds))"

definition calc_benefits :: "ChopOff_Config \<Rightarrow> BwList \<Rightarrow> Symtbl \<Rightarrow> modstate \<Rightarrow> benefits" where
  "calc_benefits c bw st s = fold (calc_benefit c bw) (mFunctbl st) (s, [], [])"

section \<open>The stubs that replace function bodies\<close>

text \<open>A structure or an array put together from values and stored in a new cell of the stack; nothing
  is passed for an empty one.\<close>

definition spill :: "ty \<Rightarrow> val list \<Rightarrow> builder \<Rightarrow> val \<times> builder" where
  "spill t vs b =
     (let (v, b1) = insert_values (VUndef t) 0 vs b; (pad, b2) = CreateAlloca t b1 in (pad, CreateStore v pad b2))"

definition ret_pad :: "ty option \<Rightarrow> builder \<Rightarrow> val \<times> builder" where
  "ret_pad t b = (case t of None \<Rightarrow> (VNull, b) | Some t \<Rightarrow> CreateAlloca t b)"

definition arg_pad :: "ty list option \<Rightarrow> val list \<Rightarrow> builder \<Rightarrow> val \<times> builder" where
  "arg_pad ts vs b = (case ts of None \<Rightarrow> (VNull, b) | Some ts \<Rightarrow> spill (structTy ts) vs b)"

definition ptr_pad :: "val list \<Rightarrow> builder \<Rightarrow> val \<times> builder" where
  "ptr_pad vs b = (if vs = [] then (VNull, b) else spill (ptrArrayTy (length vs)) vs b)"

definition func_args :: "func \<Rightarrow> val list" where
  "func_args f = map (\<lambda>(i, t). VArg i t) (enumerate 0 (params (f_fty f)))"

fun lookup_stubs :: "CbStubs \<Rightarrow> u64 list \<Rightarrow> (plug_abort, val list) result" where
  "lookup_stubs cbs [] = Inr []"
| "lookup_stubs cbs (h # hs) = (case map_of cbs h of
     None \<Rightarrow> Inl AssertFailed
   | Some p \<Rightarrow> bind_result (lookup_stubs cbs hs) (\<lambda>vs. Inr (VGlobal p # vs)))"

definition gstub_call :: "ChopOff_Config \<Rightarrow> ChopOff \<Rightarrow> CbStubs \<Rightarrow> FuncInfo \<Rightarrow> val \<Rightarrow> val \<Rightarrow> builder \<Rightarrow>
  (plug_abort, builder) result" where
  "gstub_call c s cbs info retPad argPad b =
     (let hd2 = [VGlobal (mGyhQlibUid s), VInt 32 (ucast (mUid info)), retPad, argPad] in
      if coUseGRT c
      then Inr (snd (CreateCall (voidFn [ptrTy, i32Ty, ptrTy, ptrTy]) (VGlobal (mGyhCallGRT s)) hd2 []
             (debug_call (coDebug c) (mGyhDebug s) (VGlobal (mGyhCallDebugFmt s) # hd2) b)))
      else let (extRefArg, b1) = ptr_pad (map VGlobal (mExtRefArgs info)) b in
        bind_result (lookup_stubs cbs (mCbStubArgs info)) (\<lambda>stubs.
        let (cbStubArg, b2) = ptr_pad stubs b1; as = hd2 @ [extRefArg, cbStubArg] in
        Inr (snd (CreateCall (voidFn [ptrTy, i32Ty, ptrTy, ptrTy, ptrTy, ptrTy]) (VGlobal (mGyhCall s)) as []
               (debug_call (coDebug c) (mGyhDebug s) (VGlobal (mGyhCallDebugFmt s) # as) b2)))))"

definition load_ret :: "ty option \<Rightarrow> val \<Rightarrow> builder \<Rightarrow> builder" where
  "load_ret t retPad b = (case t of
     None \<Rightarrow> CreateRet None b
   | Some t \<Rightarrow> let (v, b1) = CreateLoad t retPad b in CreateRet (Some v) b1)"

definition gstub_body :: "ChopOff_Config \<Rightarrow> ChopOff \<Rightarrow> CbStubs \<Rightarrow> StubInfo \<Rightarrow> FuncInfo \<Rightarrow> func \<Rightarrow>
  (plug_abort, builder) result" where
  "gstub_body c s cbs si info f =
     (let (retPad, b1) = ret_pad (sRet si) (0, []);
          (argPad, b2) = arg_pad (sArg si) (func_args f) b1 in
      bind_result (gstub_call c s cbs info retPad argPad b2) (\<lambda>b3. Inr (load_ret (sRet si) retPad b3)))"

text \<open>Deleting the body also makes the linkage external (\<open>Function::deleteBody\<close>); the prefix data is put
  back.\<close>

definition chop_gfunc :: "ChopOff_Config \<Rightarrow> Symtbl \<Rightarrow> CbStubs \<Rightarrow> gvptr \<times> FuncInfo \<Rightarrow> ChopOff \<Rightarrow> (plug_abort, ChopOff) result" where
  "chop_gfunc c st cbs e s = (case e of (p, info) \<Rightarrow>
     (case (map_of (m_funcs (fst (coMod s))) p, map_of (mCallingStubs st) (mStubType info)) of
       (Some f, Some si) \<Rightarrow> bind_result (gstub_body c s cbs si info f) (\<lambda>b.
         Inr (s\<lparr>coMod := upd_func p (\<lambda>f. setBody (snd b) (f\<lparr>f_linkage := ExternalLinkage\<rparr>)) (coMod s)\<rparr>))
     | _ \<Rightarrow> Inl KeyMissing))"

fun chop_gfuncs :: "ChopOff_Config \<Rightarrow> Symtbl \<Rightarrow> CbStubs \<Rightarrow> (gvptr \<times> FuncInfo) list \<Rightarrow> ChopOff \<Rightarrow> (plug_abort, ChopOff) result" where
  "chop_gfuncs c st cbs [] s = Inr s"
| "chop_gfuncs c st cbs (e # es) s = bind_result (chop_gfunc c st cbs e s) (chop_gfuncs c st cbs es)"

section \<open>Constructor and destructor\<close>

text \<open>The table of the functions moved, by number.\<close>

definition gen_gfunctbl :: "uniquer \<Rightarrow> Symtbl \<Rightarrow> ChopOff \<Rightarrow> (plug_abort, ChopOff) result" where
  "gen_gfunctbl U st s =
     bind_result (fill_table (length (mFunctbl st)) (map (\<lambda>(p, info). (unat (mUid info), VGlobal p)) (mFunctbl st))) (\<lambda>gfuncs.
     let (p, s1) = const_table U ''__gyh_gfunctbl__'' gfuncs (coMod s) in
     Inr (s\<lparr>coMod := s1, mGyhGfunctbl := p\<rparr>))"

text \<open>The body of the constructor: an optional debug message, with a format of its own, and the call that
  registers the library.\<close>

definition tor_body :: "uniquer \<Rightarrow> ChopOff_Config \<Rightarrow> string \<Rightarrow> ty \<Rightarrow> gvptr \<Rightarrow> val list \<Rightarrow> ChopOff \<Rightarrow> builder \<times> ChopOff" where
  "tor_body U c fmt fty target vs s =
     (let (fp, s1) = (if coDebug c then gen_debug_fmt U (fmt @ newline) (coMod s) else (0, coMod s));
          b1 = debug_call (coDebug c) (mGyhDebug s) (VGlobal fp # vs) (0, [])
      in (CreateRet None (snd (CreateCall fty (VGlobal target) vs [] b1)), s\<lparr>coMod := s1\<rparr>))"

definition ctor_body :: "uniquer \<Rightarrow> ChopOff_Config \<Rightarrow> Symtbl \<Rightarrow> ChopOff \<Rightarrow> (plug_abort, builder \<times> ChopOff) result" where
  "ctor_body U c st s =
     (let uid = VGlobal (mGyhQlibUid s); grt = [uid, VGlobal (mGyhExtreftbl s), VGlobal (mGyhCbstubtbl s)] in
      if \<not> coUseGRT c then
        bind_result (runtime_func (coMod s) ''__gyh_ctor__'') (\<lambda>p.
        Inr (tor_body U c ''__g_yh_ctor__(%p)'' (voidFn [ptrTy]) p [uid] (s\<lparr>mGyhCtor := p\<rparr>)))
      else if \<not> coUseFCPcm c then
        bind_result (runtime_func (coMod s) ''__gyh_ctor_grt__'') (\<lambda>p.
        Inr (tor_body U c ''__g_yh_ctor_grt__(%p, %p, %p)'' (voidFn [ptrTy, ptrTy, ptrTy]) p grt (s\<lparr>mGyhCtorGRT := p\<rparr>)))
      else
        bind_result (runtime_func (coMod s) ''__gyh_ctor_fcp_cm__'') (\<lambda>p.
        bind_result (gen_gfunctbl U st (s\<lparr>mGyhCtorFCPcm := p\<rparr>)) (\<lambda>s1.
        Inr (tor_body U c ''__g_yh_ctor_fcp_cm__(%p, %p, %p, %p, %d)'' (voidFn [ptrTy, ptrTy, ptrTy, ptrTy, i32Ty]) p
               (grt @ [VGlobal (mGyhGfunctbl s1), VInt 32 (ucast (of_nat (length (mFunctbl st)) :: u32))]) s1))))"

definition gen_ctor :: "uniquer \<Rightarrow> llvm \<Rightarrow> ChopOff_Config \<Rightarrow> Symtbl \<Rightarrow> ChopOff \<Rightarrow> (plug_abort, ChopOff) result" where
  "gen_ctor U H c st s =
     (let (ctor, s1) = new_function U (voidFn []) ExternalLinkage (''__gyh_ctor_'' @ module_uid_hex H st) (coMod s) in
      bind_result (ctor_body U c st (s\<lparr>coMod := s1, mGyhCtorHHH := ctor\<rparr>)) (\<lambda>(b, s2).
      Inr (s2\<lparr>coMod := upd_func ctor (setBody (snd b)) (coMod s2), global_ctors := global_ctors s2 @ [(0, ctor)]\<rparr>)))"

definition gen_dtor :: "uniquer \<Rightarrow> llvm \<Rightarrow> ChopOff_Config \<Rightarrow> Symtbl \<Rightarrow> ChopOff \<Rightarrow> (plug_abort, ChopOff) result" where
  "gen_dtor U H c st s =
     (let (dtor, s1) = new_function U (voidFn []) ExternalLinkage (''__gyh_dtor_'' @ module_uid_hex H st) (coMod s) in
      bind_result (runtime_func s1 ''__gyh_dtor__'') (\<lambda>p.
      let (b, s2) = tor_body U c ''__g_yh_dtor__(%p)'' (voidFn [ptrTy]) p [VGlobal (mGyhQlibUid s)]
                      (s\<lparr>coMod := s1, mGyhDtorHHH := dtor, mGyhDtor := p\<rparr>) in
      Inr (s2\<lparr>coMod := upd_func dtor (setBody (snd b)) (coMod s2), global_dtors := global_dtors s2 @ [(0, dtor)]\<rparr>)))"

definition gen_ctor_dtor :: "uniquer \<Rightarrow> llvm \<Rightarrow> ChopOff_Config \<Rightarrow> Symtbl \<Rightarrow> ChopOff \<Rightarrow> (plug_abort, ChopOff) result" where
  "gen_ctor_dtor U H c st s = bind_result (gen_ctor U H c st s) (gen_dtor U H c st)"

section \<open>The stage\<close>

text \<open>The declarations of the runtime, debug formats and the identifier; the stubs and tables; the stage
  \<open>ChopOff::operator()\<close>, with the functions reported as required but not replaced.\<close>

definition chop_init :: "uniquer \<Rightarrow> llvm \<Rightarrow> ChopOff_Config \<Rightarrow> Symtbl \<Rightarrow> modstate \<Rightarrow> (plug_abort, ChopOff) result" where
  "chop_init U H c st m =
     bind_result (gen_debug U c (ChopOff_new (inject_module U m))) (\<lambda>s1.
     let s2 = gen_uid U H st s1 in
     bind_result (runtime_func (coMod s2) ''__gyh_call__'') (\<lambda>call.
     bind_result (runtime_func (coMod s2) ''__gyh_callback_return__'') (\<lambda>cbret.
     bind_result (if coUseGRT c then runtime_func (coMod s2) ''__gyh_call_grt__'' else Inr 0) (\<lambda>callgrt.
     Inr (s2\<lparr>mGyhCall := call, mGyhCallbackReturn := cbret, mGyhCallGRT := callgrt\<rparr>)))))"

definition chop_stubs :: "uniquer \<Rightarrow> llvm \<Rightarrow> ChopOff_Config \<Rightarrow> Symtbl \<Rightarrow> ChopOff \<Rightarrow> (plug_abort, ChopOff \<times> CbStubs) result" where
  "chop_stubs U H c st s =
     (let (s1, cbs) = gen_cb_stubs U H c st s in
      bind_result (if coUseGRT c then gen_grt U st cbs s1 else Inr s1) (\<lambda>s2. Inr (s2, cbs)))"

definition chop_off :: "uniquer \<Rightarrow> llvm \<Rightarrow> ChopOff_Config \<Rightarrow> BwList \<Rightarrow> Symtbl \<Rightarrow> modstate \<Rightarrow> (plug_abort, ChopOff \<times> gvptr list) result" where
  "chop_off U H c bw st m =
     bind_result (chop_init U H c st m) (\<lambda>s1.
     bind_result (chop_stubs U H c st s1) (\<lambda>(s2, cbs).
     let (m', bs, ds) = calc_benefits c bw st (coMod s2) in
     bind_result (chop_gfuncs c st cbs bs (s2\<lparr>coMod := m'\<rparr>)) (\<lambda>s3.
     bind_result (gen_ctor_dtor U H c st s3) (\<lambda>s4. Inr (s4, ds)))))"

end
