(* ===== verification/Plug_TakeOut.thy ===== *)
theory Plug_TakeOut
  imports Plug_ChopOff
begin

text \<open>
  The host side of the code generator, \<open>TakeOut\<close> of \<open>src/lib/gyhcall/TakeOut.cpp\<close>: it copies the
  functions the analysis accepted into a new module, behind stubs the runtime calls, and rewrites the
  copies so that they reach the global values of the guest through the tables they are given and call
  back into the guest through the runtime.
\<close>

section \<open>What is used of LLVM\<close>

text \<open>\<open>clone n l vs f\<close> is what \<open>llvm::CloneFunctionInto\<close> adds to a function when it copies the body of
  \<open>f\<close> with its arguments replaced by \<open>vs\<close>: blocks with numbers from \<open>l\<close> on and instructions with
  numbers from \<open>n\<close> on.  \<open>gv_operands\<close> are the operands of a global value (initialiser, prefix data,
  aliasee), \<open>dbg_value\<close> the number of the intrinsic \<open>llvm.dbg.value\<close>.\<close>

type_synonym clone = "nat \<Rightarrow> nat \<Rightarrow> val list \<Rightarrow> func \<Rightarrow> block list"

record take_llvm =
  hashing :: llvm
  uniq :: uniquer
  CloneFunctionInto :: clone
  gv_operands :: "gvptr \<Rightarrow> val list"
  dbg_value :: u32

section \<open>State\<close>

text \<open>The fields of the class \<open>TakeOut\<close> (those \<open>ChopOff\<close> has too with a \<open>t\<close> in front); a null pointer is
  \<open>None\<close> where the code can meet one.\<close>

record TakeOut =
  tModule :: modstate
  tGyhDebug :: gvptr
  tGyhCallDebugFmt :: gvptr
  tGyhCallbackDebugFmt :: gvptr
  tGyhCallback :: gvptr
  tGyhExtreftbl :: "gvptr option"
  tGyhCbstubtbl :: "gvptr option"
  tGyhFunctbl :: "gvptr option"
  mWhiteCallees :: "(gvptr \<times> gvptr) list"
  mFcpFuncMap :: "(gvptr \<times> gvptr) list"
  mHstubArgs :: "val list"
  mHstubRetPad :: val
  mExtRefsMap :: "(gvptr \<times> val) list"
  mCbStubMap :: "(u64 \<times> val) list"

definition TakeOut_new :: "modstate \<Rightarrow> TakeOut" where
  "TakeOut_new s = \<lparr>tModule = s, tGyhDebug = 0, tGyhCallDebugFmt = 0, tGyhCallbackDebugFmt = 0, tGyhCallback = 0,
     tGyhExtreftbl = None, tGyhCbstubtbl = None, tGyhFunctbl = None, mWhiteCallees = [], mFcpFuncMap = [],
     mHstubArgs = [], mHstubRetPad = VNull, mExtRefsMap = [], mCbStubMap = []\<rparr>"

text \<open>The module parsed from \<open>host.ll\<close>, at the addresses after those of the guest module.\<close>

definition host_ll :: "(string \<times> ty \<times> attr_list) list" where
  "host_ll =
    [(''__gyh_debug__'', debugTy, [[], [], in_ptr]),
     (''__gyh_callback__'', voidFn [ptrTy, ptrTy, ptrTy, ptrTy], [[], [], in_ptr, in_ptr, out_ptr, in_ptr])]"

definition empty_module :: modul where
  "empty_module = \<lparr>m_id = [], m_funcs = [], m_gvars = [], m_aliases = [], m_layout = [], m_flags = []\<rparr>"

definition template_module :: "uniquer \<Rightarrow> gvptr \<Rightarrow> modstate" where
  "template_module U n = fold (inject_decl U) host_ll (empty_module, n)"

section \<open>Operands\<close>

text \<open>The table of references, whether the current instruction is a \<open>DbgValueInst\<close>, and the operands of
  global values.\<close>

record operand_env =
  xRefs :: "(gvptr \<times> val) list"
  xDbg :: bool
  xOps :: "gvptr \<Rightarrow> val list"

definition expand_aggregate :: "aggr \<Rightarrow> ty \<Rightarrow> val list \<Rightarrow> builder \<Rightarrow> val \<times> builder" where
  "expand_aggregate a t vs b = (if a = AVector then insert_elements (VUndef t) 0 vs b else insert_values (VUndef t) 0 vs b)"

text \<open>\<open>ValueAsMetadata::get\<close>.\<close>

definition value_md :: "val \<Rightarrow> md" where
  "value_md v = (if is_const v then MDConst v else MDLocal v)"

definition poison_global :: "val \<Rightarrow> val" where
  "poison_global v = (case v of VGlobal p \<Rightarrow> VPoison ptrTy | _ \<Rightarrow> v)"

text \<open>\<open>do_operand\<close> and \<open>do_metadata\<close>: the value that takes the place of an operand, and the
  instructions put in front.  A global value that is not in the table is searched through its own
  operands; \<open>k\<close> is how many such values may be nested, and more than there are global values means that
  the search goes round in a circle.\<close>

fun TakeOut_do_operand :: "operand_env \<Rightarrow> nat \<Rightarrow> val \<Rightarrow> builder \<Rightarrow> (plug_abort, val \<times> builder) result"
  and TakeOut_do_operands :: "operand_env \<Rightarrow> nat \<Rightarrow> val list \<Rightarrow> builder \<Rightarrow> (plug_abort, val list \<times> builder) result"
  and TakeOut_do_metadata :: "operand_env \<Rightarrow> nat \<Rightarrow> md \<Rightarrow> builder \<Rightarrow> (plug_abort, md \<times> builder) result"
where
  "TakeOut_do_operand x k (VGlobal p) b = (case map_of (xRefs x) p of
     Some v \<Rightarrow> Inr (v, b)
   | None \<Rightarrow> if xDbg x then Inr (VPoison ptrTy, b)
       else (case k of
         0 \<Rightarrow> Inl StackOverflow
       | Suc j \<Rightarrow> bind_result (TakeOut_do_operands x j (xOps x p) b) (\<lambda>(ws, b').
           if ws = xOps x p then Inr (VGlobal p, b') else Inl AssertFailed)))"
| "TakeOut_do_operand x k (VAggr a t vs) b = bind_result (TakeOut_do_operands x k vs b) (\<lambda>(ws, b').
     if ws = vs then Inr (VAggr a t vs, b') else Inr (expand_aggregate a t ws b'))"
| "TakeOut_do_operand x k (VExpr e t vs) b = bind_result (TakeOut_do_operands x k vs b) (\<lambda>(ws, b').
     if ws = vs then Inr (VExpr e t vs, b') else Inr (emit (new_ins 0 (OtherOp e) t ws) b'))"
| "TakeOut_do_operand x k (VOtherConst t vs) b = bind_result (TakeOut_do_operands x k vs b) (\<lambda>(ws, b').
     Inr (VOtherConst t vs, b'))"
| "TakeOut_do_operand x k (VMeta md) b = bind_result (TakeOut_do_metadata x k md b) (\<lambda>(md', b'). Inr (VMeta md', b'))"
| "TakeOut_do_operand x k v b = Inr (v, b)"
| "TakeOut_do_operands x k [] b = Inr ([], b)"
| "TakeOut_do_operands x k (v # vs) b = bind_result (TakeOut_do_operand x k v b) (\<lambda>(w, b').
     bind_result (TakeOut_do_operands x k vs b') (\<lambda>(ws, b''). Inr (w # ws, b'')))"
| "TakeOut_do_metadata x k (MDConst v) b = bind_result (TakeOut_do_operand x k v b) (\<lambda>(w, b').
     Inr (if w = v then MDConst v else value_md w, b'))"
| "TakeOut_do_metadata x k (MDLocal v) b = bind_result (TakeOut_do_operand x k v b) (\<lambda>(w, b').
     Inr (if w = v then MDLocal v else if is_const w then MDConst w else MDLocal w, b'))"
| "TakeOut_do_metadata x k (MDArgList vs) b = bind_result (TakeOut_do_operands x k vs b) (\<lambda>(ws, b').
     Inr (MDArgList (map poison_global ws), b'))"
| "TakeOut_do_metadata x k (MDOther n) b = Inr (MDOther n, b)"

section \<open>Rewriting a body\<close>

text \<open>The function being rewritten: the host module, the next numbers for instructions and blocks, the
  entry block without its terminator and the block it jumps to, the finished blocks, the number and name
  of the current block with its instructions so far, the blocks to come, and \<open>mToReplace\<close>.\<close>

record rewriting =
  wMod :: modstate
  wNext :: nat
  wLabel :: nat
  wEntry :: "instr list"
  wTarget :: nat
  wDone :: "block list"
  wId :: nat
  wName :: string
  wOut :: "instr list"
  wTodo :: "block list"
  mToReplace :: "(nat \<times> val option) list"

text \<open>Where the constant expressions of an operand are expanded: before the instruction, or at the end of
  the entry block for a \<open>phi\<close>.\<close>

definition place :: "instr \<Rightarrow> builder \<Rightarrow> rewriting \<Rightarrow> rewriting" where
  "place i b w = (if i_op i = PHI then w\<lparr>wNext := fst b, wEntry := wEntry w @ snd b\<rparr>
     else w\<lparr>wNext := fst b, wOut := wOut w @ snd b\<rparr>)"

definition keep :: "instr \<Rightarrow> rewriting \<Rightarrow> rewriting" where
  "keep i w = w\<lparr>wOut := wOut w @ [i]\<rparr>"

definition getCalledFunction :: "modul \<Rightarrow> instr \<Rightarrow> (gvptr \<times> func) option" where
  "getCalledFunction m i = (case i_callee i of
     VGlobal p \<Rightarrow> (case map_of (m_funcs m) p of Some f \<Rightarrow> if f_fty f = i_fty i then Some (p, f) else None | None \<Rightarrow> None)
   | _ \<Rightarrow> None)"

definition is_dbg_value :: "take_llvm \<Rightarrow> modul \<Rightarrow> instr \<Rightarrow> bool" where
  "is_dbg_value L m i = (is_call i \<and> (case getCalledFunction m i of
     Some (p, f) \<Rightarrow> isIntrinsic f \<and> f_intrinsic f = dbg_value L | None \<Rightarrow> False))"

definition operand_env_of :: "take_llvm \<Rightarrow> modul \<Rightarrow> TakeOut \<Rightarrow> instr \<Rightarrow> operand_env" where
  "operand_env_of L m t i = \<lparr>xRefs = mExtRefsMap t, xDbg = is_dbg_value L m i, xOps = gv_operands L\<rparr>"

text \<open>The code of a call back into the guest: the result's place and the arguments on the stack, the call
  of the runtime, the result read back, and the stack as before.\<close>

definition callback_code :: "TakeOut_Config \<Rightarrow> TakeOut \<Rightarrow> val \<Rightarrow> instr \<Rightarrow> builder \<Rightarrow> val option \<times> builder" where
  "callback_code c t cbStub i b =
     (let (stackSave, b1) = CreateStackSave b;
          (retPad, b2) = ret_pad (if i_ty i = VoidTy then None else Some (i_ty i)) b1;
          (argPad, b3) = arg_pad (if i_ops i = [] then None else Some (map val_ty (i_ops i))) (i_ops i) b2;
          as = [cbStub, i_callee i, retPad, argPad];
          b4 = debug_call (toDebug c) (tGyhDebug t) (VGlobal (tGyhCallbackDebugFmt t) # as) b3;
          (_, b5) = CreateCall (voidFn [ptrTy, ptrTy, ptrTy, ptrTy]) (VGlobal (tGyhCallback t)) as [] b4;
          (ret, b6) = (if i_ty i = VoidTy then (None, b5) else apfst Some (CreateLoad (i_ty i) retPad b5))
      in (ret, CreateStackRestore stackSave b6))"

definition do_callback :: "take_llvm \<Rightarrow> TakeOut_Config \<Rightarrow> TakeOut \<Rightarrow> instr \<Rightarrow> builder \<Rightarrow> (plug_abort, val option \<times> builder) result" where
  "do_callback L c t i b = (case call_site_hash (hashing L) i of
     None \<Rightarrow> Inl AbortCalled
   | Some h \<Rightarrow> (case map_of (mCbStubMap t) h of
       None \<Rightarrow> Inl KeyMissing
     | Some cbStub \<Rightarrow> Inr (callback_code c t cbStub i b)))"

text \<open>Splitting a block in front of an instruction redirects the jumps to it.\<close>

definition redirect_ins :: "nat \<Rightarrow> nat \<Rightarrow> instr \<Rightarrow> instr" where
  "redirect_ins l l' i = (if i_op i = PHI then i else i\<lparr>i_ops := map (\<lambda>v. if v = VBlock l then VBlock l' else v) (i_ops i)\<rparr>)"

definition redirect_block :: "nat \<Rightarrow> nat \<Rightarrow> block \<Rightarrow> block" where
  "redirect_block l l' bb = bb\<lparr>b_ins := map (redirect_ins l l') (b_ins bb)\<rparr>"

text \<open>The check of the magic number in front of the called function: the code at the end of the upper
  block, with the address of the host function.\<close>

definition fcp_cm_check :: "val \<Rightarrow> nat \<Rightarrow> nat \<Rightarrow> builder \<Rightarrow> val \<times> builder" where
  "fcp_cm_check callee left right b =
     (let (p2, b1) = CreateGEP callee (- 2) b; (magic, b2) = CreateLoad i64Ty p2 b1;
          (p1, b3) = CreateGEP callee (- 1) b2; (hfuncAddr, b4) = CreateLoad i64Ty p1 b3;
          (expected, b5) = CreateXor (VInt 64 Symtbl_kFCPcmMagic) hfuncAddr b4;
          (cond, b6) = CreateICmpEQ magic expected b5
      in (hfuncAddr, CreateCondBr cond left right b6))"

definition fcp_cm_left :: "val \<Rightarrow> instr \<Rightarrow> nat \<Rightarrow> builder \<Rightarrow> val \<times> builder" where
  "fcp_cm_left hfuncAddr i bb b =
     (let (hfunc, b1) = CreateIntToPtr hfuncAddr b;
          (leftRet, b2) = emit (i\<lparr>i_callee := hfunc\<rparr>) b1
      in (leftRet, CreateBr bb b2))"

definition new_block :: "nat \<Rightarrow> string \<Rightarrow> instr list \<Rightarrow> block" where
  "new_block l n is = \<lparr>b_id = l, b_name = n, b_ins = is\<rparr>"

text \<open>\<open>do_fcp_cm\<close>: the block up to the call ends with the check; the block on the left calls the host
  function, the one on the right calls back; the rest of the block follows, with a \<open>phi\<close> for the result.
  The instructions still to be visited come back first.\<close>

definition do_fcp_cm :: "take_llvm \<Rightarrow> TakeOut_Config \<Rightarrow> TakeOut \<Rightarrow> instr \<Rightarrow> instr list \<Rightarrow> rewriting \<Rightarrow>
  (plug_abort, instr list \<times> rewriting) result" where
  "do_fcp_cm L c t i rest w =
     (let top = wLabel w; left = top + 1; right = top + 2; bb = wId w; red = redirect_block bb top;
          (hfuncAddr, b1) = fcp_cm_check (i_callee i) left right (wNext w, []);
          (leftRet, b2) = fcp_cm_left hfuncAddr i bb (fst b1, []) in
      bind_result (do_callback L c t i (fst b2, [])) (\<lambda>(rightRet, b3).
      let b4 = CreateBr bb (fst b3, []);
          new = [new_block top ''gyh_fcp_cm.top'' (wOut w @ snd b1), new_block left ''gyh_fcp_cm.left'' (snd b2),
                 new_block right ''gyh_fcp_cm.right'' (snd b3 @ [i] @ snd b4)];
          w1 = w\<lparr>wNext := fst b4, wLabel := top + 3, wTarget := (if wTarget w = bb then top else wTarget w),
                 wDone := map red (wDone w) @ new, wOut := [], wTodo := map red (wTodo w)\<rparr>;
          rest1 = map (redirect_ins bb top) rest in
      (case rightRet of
         None \<Rightarrow> Inr (rest1, w1\<lparr>mToReplace := mToReplace w @ [(i_id i, None)]\<rparr>)
       | Some r \<Rightarrow>
           let phi = (new_ins (wNext w1) PHI (val_ty r) [leftRet, VBlock left, r, VBlock right]) in
           Inr (phi # rest1, w1\<lparr>wNext := Suc (wNext w1), mToReplace := mToReplace w @ [(i_id i, Some (VInst (wNext w1) (val_ty r)))]\<rparr>))))"

text \<open>\<open>CreateIntrinsic\<close>: the declaration of the intrinsic in the host module, and a plain call of it.\<close>

definition intrinsic_decl :: "take_llvm \<Rightarrow> func \<Rightarrow> modstate \<Rightarrow> gvptr \<times> modstate" where
  "intrinsic_decl L f s = (case getFunction (fst s) (f_name f) of
     Some p \<Rightarrow> (p, s)
   | None \<Rightarrow> let (p, s1) = new_function (uniq L) (f_fty f) ExternalLinkage (f_name f) s in
       (p, upd_func p (f_intrinsic_update (\<lambda>_. f_intrinsic f)) s1))"

definition do_intrinsic :: "take_llvm \<Rightarrow> func \<Rightarrow> instr \<Rightarrow> rewriting \<Rightarrow> rewriting" where
  "do_intrinsic L f i w =
     (let (q, s) = intrinsic_decl L f (wMod w);
          (newIns, b) = CreateCall (f_fty f) (VGlobal q) (i_ops i) [] (wNext w, [])
      in w\<lparr>wMod := s, wNext := fst b, wOut := wOut w @ snd b @ [i],
           mToReplace := mToReplace w @ [(i_id i, if ret_ty (f_fty f) = VoidTy then None else Some newIns)]\<rparr>)"

definition do_other_call :: "take_llvm \<Rightarrow> TakeOut_Config \<Rightarrow> modul \<Rightarrow> TakeOut \<Rightarrow> instr \<Rightarrow> instr list \<Rightarrow> rewriting \<Rightarrow>
  (plug_abort, instr list \<times> rewriting) result" where
  "do_other_call L c m t i rest w =
     bind_result (TakeOut_do_operand (operand_env_of L m t i) (length (all_values m)) (i_callee i) (wNext w, [])) (\<lambda>(callee, b).
     let i1 = i\<lparr>i_callee := callee\<rparr>; w1 = place i b w in
     if toUseFCPcm c then do_fcp_cm L c t i1 rest w1
     else bind_result (do_callback L c t i1 (wNext w1, [])) (\<lambda>(retVal, b1).
       Inr (rest, w1\<lparr>wNext := fst b1, wOut := wOut w1 @ snd b1 @ [i1], mToReplace := mToReplace w1 @ [(i_id i, retVal)]\<rparr>)))"

text \<open>\<open>do_instruction\<close> returns the instructions still to be visited in the block.\<close>

definition do_instruction :: "take_llvm \<Rightarrow> TakeOut_Config \<Rightarrow> modul \<Rightarrow> TakeOut \<Rightarrow> instr \<Rightarrow> instr list \<Rightarrow> rewriting \<Rightarrow>
  (plug_abort, instr list \<times> rewriting) result" where
  "do_instruction L c m t i rest w =
     bind_result (TakeOut_do_operands (operand_env_of L m t i) (length (all_values m)) (i_ops i) (wNext w, [])) (\<lambda>(ops, b).
     let i1 = i\<lparr>i_ops := ops\<rparr>; w1 = place i b w in
     if \<not> is_call i then Inr (rest, keep i1 w1)
     else case getCalledFunction m i1 of
       None \<Rightarrow> do_other_call L c m t i1 rest w1
     | Some (p, f) \<Rightarrow> (case map_of (mWhiteCallees t) p of
         Some q \<Rightarrow> Inr (rest, keep (i1\<lparr>i_callee := VGlobal q\<rparr>) w1)
       | None \<Rightarrow>
           if isIntrinsic f then Inr (rest, do_intrinsic L f i1 w1)
           else (case (if toUseFCP c then map_of (mFcpFuncMap t) p else None) of
             Some q \<Rightarrow> Inr (rest, keep (i1\<lparr>i_callee := VGlobal q\<rparr>) w1)
           | None \<Rightarrow> do_other_call L c m t i1 rest w1)))"

text \<open>What is left to visit gets smaller: a call that is split leaves at most a \<open>phi\<close> in its place.\<close>

definition visit_size :: "instr list \<Rightarrow> nat" where
  "visit_size is = length is + length (filter is_call is)"

lemma is_call_redirect [simp]: "is_call (redirect_ins l l' i) = is_call i"
  by (simp add: redirect_ins_def is_call_def)

lemma visit_size_redirect [simp]: "visit_size (map (redirect_ins l l') is) = visit_size is"
  by (simp add: visit_size_def filter_map comp_def)

lemma do_fcp_cm_visit:
  assumes "do_fcp_cm L c t i rest w = Inr (rest', w')" "is_call i"
  shows "visit_size rest' < visit_size (i # rest)"
proof -
  let ?r = "map (redirect_ins (wId w) (wLabel w)) rest"
  have "rest' = ?r \<or> (\<exists>n ty vs. rest' = new_ins n PHI ty vs # ?r)"
    using assms(1) by (auto simp: do_fcp_cm_def Let_def result_simps case_prod_beta split: option.splits) blast
  moreover have "visit_size (i # rest) = 2 + visit_size ?r" using assms(2) by (simp add: visit_size_def filter_map comp_def)
  moreover have "visit_size (new_ins n PHI ty vs # ?r) = 1 + visit_size ?r" for n ty vs
    by (simp add: visit_size_def new_ins_def is_call_def filter_map comp_def)
  ultimately show ?thesis by auto
qed

lemma visit_size_upd: "is_call i' = is_call i \<Longrightarrow> visit_size (i' # rest) = visit_size (i # rest)"
  by (simp add: visit_size_def)

lemma visit_size_tail: "visit_size rest < visit_size (i # rest)"
  by (simp add: visit_size_def)

lemma do_other_call_visit:
  assumes "do_other_call L c m t i rest w = Inr (rest', w')" "is_call i"
  shows "visit_size rest' < visit_size (i # rest)"
proof -
  from assms(1) consider (tail) "rest' = rest" | (cm) v w1 where "do_fcp_cm L c t (i\<lparr>i_callee := v\<rparr>) rest w1 = Inr (rest', w')"
    by (auto simp: do_other_call_def Let_def result_simps case_prod_beta split: if_splits)
  then show ?thesis
  proof cases
    case cm
    have e: "is_call (i\<lparr>i_callee := v\<rparr>) = is_call i" by (simp add: is_call_def)
    from do_fcp_cm_visit [OF cm] show ?thesis using assms(2) e visit_size_upd [OF e, of rest] by simp
  qed (simp add: visit_size_tail)
qed

lemma do_instruction_visit:
  assumes "do_instruction L c m t i rest w = Inr (rest', w')"
  shows "visit_size rest' < visit_size (i # rest)"
proof -
  from assms consider (tail) "rest' = rest" | (other) vs w1 where "is_call i" "do_other_call L c m t (i\<lparr>i_ops := vs\<rparr>) rest w1 = Inr (rest', w')"
    by (auto simp: do_instruction_def Let_def result_simps case_prod_beta split: if_splits option.splits)
  then show ?thesis
  proof cases
    case other
    have e: "is_call (i\<lparr>i_ops := vs\<rparr>) = is_call i" by (simp add: is_call_def)
    from do_other_call_visit [OF other(2)] show ?thesis using other(1) e visit_size_upd [OF e, of rest] by simp
  qed (simp add: visit_size_tail)
qed

lemma bind_result_cong [fundef_cong]:
  "r = r' \<Longrightarrow> (\<And>x. r' = Inr x \<Longrightarrow> f x = f' x) \<Longrightarrow> bind_result r f = bind_result r' f'"
  by (cases r') simp_all

function do_block :: "take_llvm \<Rightarrow> TakeOut_Config \<Rightarrow> modul \<Rightarrow> TakeOut \<Rightarrow> instr list \<Rightarrow> rewriting \<Rightarrow>
  (plug_abort, rewriting) result" where
  "do_block L c m t [] w = Inr w"
| "do_block L c m t (i # rest) w = bind_result (do_instruction L c m t i rest w) (\<lambda>(rest', w'). do_block L c m t rest' w')"
  by pat_completeness auto
termination by (relation "measure (\<lambda>(L, c, m, t, is, w). visit_size is)") (auto dest: do_instruction_visit)

text \<open>The loop over the blocks; the entry block is not visited.\<close>

fun do_blocks :: "take_llvm \<Rightarrow> TakeOut_Config \<Rightarrow> modul \<Rightarrow> TakeOut \<Rightarrow> nat \<Rightarrow> rewriting \<Rightarrow> (plug_abort, rewriting) result" where
  "do_blocks L c m t 0 w = Inr w"
| "do_blocks L c m t (Suc n) w = (case wTodo w of
     [] \<Rightarrow> Inr w
   | bb # bbs \<Rightarrow> bind_result (do_block L c m t (b_ins bb) (w\<lparr>wId := b_id bb, wName := b_name bb, wOut := [], wTodo := bbs\<rparr>)) (\<lambda>w'.
       do_blocks L c m t n (w'\<lparr>wDone := wDone w' @ [new_block (wId w') (wName w') (wOut w')]\<rparr>)))"

text \<open>\<open>replaceAllUsesWith\<close> and \<open>eraseFromParent\<close>.\<close>

fun replace_val :: "nat \<Rightarrow> val \<Rightarrow> val \<Rightarrow> val" and replace_md :: "nat \<Rightarrow> val \<Rightarrow> md \<Rightarrow> md" where
  "replace_val old new (VInst i t) = (if i = old then new else VInst i t)"
| "replace_val old new (VMeta md) = VMeta (replace_md old new md)"
| "replace_val old new v = v"
| "replace_md old new (MDLocal v) = MDLocal (replace_val old new v)"
| "replace_md old new (MDArgList vs) = MDArgList (map (replace_val old new) vs)"
| "replace_md old new md = md"

definition replace_ins :: "nat \<Rightarrow> val \<Rightarrow> instr \<Rightarrow> instr" where
  "replace_ins old new i = i\<lparr>i_ops := map (replace_val old new) (i_ops i), i_callee := replace_val old new (i_callee i),
     i_bundles := map (replace_val old new) (i_bundles i)\<rparr>"

definition replace_one :: "nat \<times> val option \<Rightarrow> instr list \<Rightarrow> instr list" where
  "replace_one r is = filter (\<lambda>i. i_id i \<noteq> fst r)
     (case snd r of None \<Rightarrow> is | Some v \<Rightarrow> map (replace_ins (fst r) v) is)"

definition apply_replacements :: "(nat \<times> val option) list \<Rightarrow> block \<Rightarrow> block" where
  "apply_replacements rs bb = bb\<lparr>b_ins := fold replace_one rs (b_ins bb)\<rparr>"

section \<open>Functions\<close>

text \<open>Numbers not used by the instructions and blocks of a list.\<close>

definition next_ins :: "block list \<Rightarrow> nat \<Rightarrow> nat" where
  "next_ins bs n = fold (\<lambda>bb n. fold (\<lambda>i n. max n (Suc (i_id i))) (b_ins bb) n) bs n"

definition next_label :: "block list \<Rightarrow> nat \<Rightarrow> nat" where
  "next_label bs n = fold (\<lambda>bb n. max n (Suc (b_id bb))) bs n"

text \<open>Returning a value becomes storing it.\<close>

fun store_rets :: "val \<Rightarrow> instr list \<Rightarrow> builder \<Rightarrow> builder" where
  "store_rets retPad [] b = b"
| "store_rets retPad (i # is) b = store_rets retPad is
     (case (i_op i, i_ops i) of
       (Ret, v # _) \<Rightarrow> CreateRet None (CreateStore v retPad b)
     | _ \<Rightarrow> (fst b, snd b @ [i]))"

fun store_rets_blocks :: "val \<Rightarrow> block list \<Rightarrow> nat \<Rightarrow> block list \<times> nat" where
  "store_rets_blocks retPad [] n = ([], n)"
| "store_rets_blocks retPad (bb # bbs) n =
     (let b = store_rets retPad (b_ins bb) (n, []); (bs, n') = store_rets_blocks retPad bbs (fst b) in
      (bb\<lparr>b_ins := snd b\<rparr> # bs, n'))"

text \<open>An element of a table of references: the table is in memory, the pointer to it has been read.\<close>

definition table_load :: "val \<Rightarrow> u32 \<Rightarrow> builder \<Rightarrow> val \<times> builder" where
  "table_load tbl uid b = (let (p, b1) = CreateGEP tbl (ucast uid) b in CreateLoad ptrTy p b1)"

fun table_loads :: "val \<Rightarrow> ('k \<Rightarrow> u32 option) \<Rightarrow> 'k list \<Rightarrow> builder \<Rightarrow> (plug_abort, ('k \<times> val) list \<times> builder) result" where
  "table_loads tbl uid [] b = Inr ([], b)"
| "table_loads tbl uid (k # ks) b = (case uid k of
     None \<Rightarrow> Inl AssertFailed
   | Some u \<Rightarrow> let (v, b1) = table_load tbl u b in
       bind_result (table_loads tbl uid ks b1) (\<lambda>(kvs, b2). Inr ((k, v) # kvs, b2)))"

text \<open>The same, reading the pointer to the table again for each element.\<close>

fun grt_loads :: "gvptr \<Rightarrow> ('k \<Rightarrow> u32 option) \<Rightarrow> 'k list \<Rightarrow> builder \<Rightarrow> (plug_abort, ('k \<times> val) list \<times> builder) result" where
  "grt_loads g uid [] b = Inr ([], b)"
| "grt_loads g uid (k # ks) b = (case uid k of
     None \<Rightarrow> Inl AssertFailed
   | Some u \<Rightarrow> let (tbl, b1) = CreateLoad ptrTy (VGlobal g) b; (v, b2) = table_load tbl u b1 in
       bind_result (grt_loads g uid ks b2) (\<lambda>(kvs, b3). Inr ((k, v) # kvs, b3)))"

definition gref_uid :: "Symtbl \<Rightarrow> gvptr \<Rightarrow> u32 option" where
  "gref_uid st p = map_of (mGreftbl st) p"

definition cbstub_uid :: "Symtbl \<Rightarrow> u64 \<Rightarrow> u32 option" where
  "cbstub_uid st h = map_option sUid (map_of (mCallbackStubs st) h)"

text \<open>A null pointer where a variable is needed.\<close>

definition non_null :: "'a option \<Rightarrow> (plug_abort, 'a) result" where
  "non_null x = (case x of None \<Rightarrow> Inl NullPointer | Some y \<Rightarrow> Inr y)"

text \<open>The beginning of \<open>do_function\<close>: the entry block, the values that replace the arguments, and the tables of
  references, which the fast path reads here.\<close>

definition function_entry :: "TakeOut_Config \<Rightarrow> Symtbl \<Rightarrow> func \<Rightarrow> func \<Rightarrow> FuncInfo \<Rightarrow> builder \<Rightarrow> TakeOut \<Rightarrow>
  (plug_abort, val list \<times> builder \<times> TakeOut) result" where
  "function_entry c st f hf info b t =
     (if \<not> toUseFCP c then
        if length (params (f_fty f)) = length (mHstubArgs t) then Inr (mHstubArgs t, b, t) else Inl AssertFailed
      else if length (params (f_fty f)) \<noteq> length (params (f_fty hf)) then Inl AssertFailed
      else
        bind_result (non_null (tGyhExtreftbl t)) (\<lambda>e.
        let (etbl, b1) = CreateLoad ptrTy (VGlobal e) (0, []) in
        bind_result (table_loads etbl (gref_uid st) (mExtRefArgs info) b1) (\<lambda>(refs, b2).
        bind_result (non_null (tGyhCbstubtbl t)) (\<lambda>g.
        let (ctbl, b3) = CreateLoad ptrTy (VGlobal g) b2 in
        bind_result (table_loads ctbl (cbstub_uid st) (mCbStubArgs info) b3) (\<lambda>(cbs, b4).
        Inr (func_args hf, b4, t\<lparr>mExtRefsMap := refs @ mExtRefsMap t, mCbStubMap := cbs @ mCbStubMap t\<rparr>))))))"

text \<open>Rewriting the copy of a body behind an entry block: the blocks of the new function and the host
  module, which may have got declarations of intrinsics.\<close>

definition rewrite_body :: "take_llvm \<Rightarrow> TakeOut_Config \<Rightarrow> modul \<Rightarrow> TakeOut \<Rightarrow> func \<Rightarrow> val list \<Rightarrow> builder \<Rightarrow>
  (plug_abort, block list \<times> modstate) result" where
  "rewrite_body L c m t f vs b =
     (case CloneFunctionInto L (fst b) 1 vs f of
       [] \<Rightarrow> Inl AssertFailed
     | bb # bbs \<Rightarrow>
         let n = next_ins (bb # bbs) (fst b);
             (bs, n') = (if toUseFCP c then (bb # bbs, n) else store_rets_blocks (mHstubRetPad t) (bb # bbs) n);
             w0 = \<lparr>wMod = tModule t, wNext = n', wLabel = next_label bs 1, wEntry = snd b, wTarget = b_id bb, wDone = [],
                   wId = 0, wName = [], wOut = [], wTodo = bs, mToReplace = []\<rparr> in
         bind_result (do_blocks L c m t (length bs) w0) (\<lambda>w.
         Inr (map (apply_replacements (mToReplace w))
                (new_block 0 ''entry'' (snd (CreateBr (wTarget w) (wNext w, wEntry w))) # wDone w), wMod w)))"

definition set_blocks :: "block list \<Rightarrow> func \<Rightarrow> func" where
  "set_blocks bs f = f\<lparr>f_blocks := bs\<rparr>"

text \<open>\<open>do_function\<close>, into the host function at \<open>q\<close>.  The attributes copied with the body lose those of the
  function itself.\<close>

definition drop_fn_attrs :: "attr_list \<Rightarrow> attr_list" where
  "drop_fn_attrs al = (case al of [] \<Rightarrow> [] | _ # r \<Rightarrow> [] # r)"

definition TakeOut_do_function :: "take_llvm \<Rightarrow> TakeOut_Config \<Rightarrow> modul \<Rightarrow> Symtbl \<Rightarrow> func \<Rightarrow> gvptr \<Rightarrow> FuncInfo \<Rightarrow> builder \<Rightarrow> TakeOut \<Rightarrow>
  (plug_abort, TakeOut) result" where
  "TakeOut_do_function L c m st f q info b t =
     (case map_of (m_funcs (fst (tModule t))) q of
       None \<Rightarrow> Inl NullPointer
     | Some hf \<Rightarrow>
         bind_result (function_entry c st f hf info b t) (\<lambda>(vs, b1, t1).
         bind_result (rewrite_body L c m t1 f vs b1) (\<lambda>(bs, s).
         Inr (t1\<lparr>tModule := upd_func q (\<lambda>g. set_blocks bs (g\<lparr>f_attrs := drop_fn_attrs (f_attrs f)\<rparr>)) s\<rparr>))))"

section \<open>Stubs\<close>

definition hstubTy :: "TakeOut_Config \<Rightarrow> ty" where
  "hstubTy c = (if toUseGRT c then voidFn [ptrTy, ptrTy] else voidFn [ptrTy, ptrTy, ptrTy, ptrTy])"

definition hstub_attrs :: "TakeOut_Config \<Rightarrow> attr_list" where
  "hstub_attrs c =
     (let common = [EnumAttr NoAlias, EnumAttr NoCapture, EnumAttr NoUndef] in
      [[], [], common @ [EnumAttr WriteOnly], common @ [EnumAttr ReadOnly]] @
      (if toUseGRT c then [] else [common @ [EnumAttr ReadOnly], common @ [EnumAttr ReadOnly]]))"

text \<open>The arrays of references passed by the caller.\<close>

definition pad_loads :: "'k list \<Rightarrow> val \<Rightarrow> builder \<Rightarrow> ('k \<times> val) list \<times> builder" where
  "pad_loads ks pad b =
     (if ks = [] then ([], b)
      else let (v, b1) = CreateLoad (ptrArrayTy (length ks)) pad b; (vs, b2) = extract_values v 0 (length ks) b1 in (zip ks vs, b2))"

text \<open>The first part of \<open>do_hstubcvt\<close>: the debug message and the arguments.\<close>

definition hstub_args :: "TakeOut_Config \<Rightarrow> TakeOut \<Rightarrow> func \<Rightarrow> StubInfo \<Rightarrow> FuncInfo \<Rightarrow> val list \<times> builder" where
  "hstub_args c t f si info =
     (let retPad = VArg 0 ptrTy; argPad = VArg 1 ptrTy;
          b1 = debug_call (toDebug c) (tGyhDebug t)
                 ([VGlobal (tGyhCallDebugFmt t), VInt 32 (ucast (mUid info)), retPad, argPad] @
                  (if toUseGRT c then [] else [VArg 2 ptrTy, VArg 3 ptrTy])) (0, [])
      in case sArg si of
           None \<Rightarrow> ([], b1)
         | Some ts \<Rightarrow> let (args, b2) = CreateLoad (structTy ts) argPad b1 in extract_values args 0 (length (params (f_fty f))) b2)"

text \<open>The references of a stub that contains the function.\<close>

definition hstub_refs :: "TakeOut_Config \<Rightarrow> TakeOut \<Rightarrow> Symtbl \<Rightarrow> FuncInfo \<Rightarrow> builder \<Rightarrow>
  (plug_abort, (gvptr \<times> val) list \<times> (u64 \<times> val) list \<times> builder) result" where
  "hstub_refs c t st info b =
     (if \<not> toUseGRT c then
        let (refs, b1) = pad_loads (mExtRefArgs info) (VArg 2 ptrTy) b;
            (cbs, b2) = pad_loads (mCbStubArgs info) (VArg 3 ptrTy) b1
        in Inr (refs, cbs, b2)
      else
        bind_result (non_null (tGyhExtreftbl t)) (\<lambda>e.
        bind_result (grt_loads e (gref_uid st) (mExtRefArgs info) b) (\<lambda>(refs, b1).
        bind_result (non_null (tGyhCbstubtbl t)) (\<lambda>g.
        bind_result (grt_loads g (cbstub_uid st) (mCbStubArgs info) b1) (\<lambda>(cbs, b2). Inr (refs, cbs, b2))))))"

text \<open>The stub of the fast path: it calls the host function and stores the result.\<close>

definition fcp_stub :: "func \<Rightarrow> gvptr \<Rightarrow> StubInfo \<Rightarrow> val list \<Rightarrow> builder \<Rightarrow> builder" where
  "fcp_stub f hfunc si args b =
     (let (ret, b1) = CreateCall (f_fty f) (VGlobal hfunc) args [] b
      in CreateRet None (if sRet si = None then b1 else CreateStore ret (VArg 0 ptrTy) b1))"

definition do_hstubcvt :: "take_llvm \<Rightarrow> TakeOut_Config \<Rightarrow> modul \<Rightarrow> Symtbl \<Rightarrow> gvptr \<Rightarrow> func \<Rightarrow> gvptr \<Rightarrow> StubInfo \<Rightarrow> FuncInfo \<Rightarrow> TakeOut \<Rightarrow>
  (plug_abort, TakeOut) result" where
  "do_hstubcvt L c m st p f hstub si info t =
     (let (args, b) = hstub_args c t f si info; t1 = t\<lparr>mHstubArgs := args, mExtRefsMap := [], mCbStubMap := []\<rparr> in
      if toUseGRT c \<and> toUseFCP c then
        (case map_of (mFcpFuncMap t) p of
          None \<Rightarrow> Inl AssertFailed
        | Some hfunc \<Rightarrow>
            let t2 = t1\<lparr>tModule := upd_func hstub (setBody (snd (fcp_stub f hfunc si args b))) (tModule t1)\<rparr> in
            bind_result (TakeOut_do_function L c m st f hfunc info (0, []) t2) (\<lambda>t3.
            Inr (t3\<lparr>tModule := upd_func hstub (f_attrs_update (\<lambda>_. [[EnumAttr OptimizeNone, EnumAttr NoInline]])) (tModule t3)\<rparr>)))
      else
        bind_result (hstub_refs c t1 st info b) (\<lambda>(refs, cbs, b1).
        bind_result (TakeOut_do_function L c m st f hstub info b1
            (t1\<lparr>mExtRefsMap := refs, mCbStubMap := cbs, mHstubRetPad := VArg 0 ptrTy\<rparr>)) (\<lambda>t2.
        Inr (t2\<lparr>tModule := upd_func hstub (f_attrs_update (\<lambda>_. hstub_attrs c)) (tModule t2)\<rparr>))))"

section \<open>Tables\<close>

definition TakeOut_gen_debug :: "take_llvm \<Rightarrow> TakeOut_Config \<Rightarrow> TakeOut \<Rightarrow> (plug_abort, TakeOut) result" where
  "TakeOut_gen_debug L c t =
     bind_result (runtime_func (tModule t) ''__gyh_debug__'') (\<lambda>dbg.
     bind_result (runtime_func (tModule t) ''__gyh_callback__'') (\<lambda>cb.
     let fmt1 = cstring ((if toUseGRT c then ''__gy_h_call_%d(%p, %p)'' else ''__gy_h_call_%d(%p, %p, %p, %p)'') @ newline);
         fmt2 = cstring (''__gy_h_callback__(%p, %p, %p, %p)'' @ newline);
         (f1, s1) = new_gvar (uniq L) (val_ty fmt1) True InternalLinkage fmt1 ''__gyh_call_debug_fmt__'' (tModule t);
         (f2, s2) = new_gvar (uniq L) (val_ty fmt2) True InternalLinkage fmt2 ''__gyh_callback_debug_fmt__'' s1
     in Inr (t\<lparr>tModule := s2, tGyhDebug := dbg, tGyhCallback := cb, tGyhCallDebugFmt := f1, tGyhCallbackDebugFmt := f2\<rparr>)))"

text \<open>The two variables that hold the addresses of the guest's tables.\<close>

definition gen_grt_vars :: "take_llvm \<Rightarrow> Symtbl \<Rightarrow> TakeOut \<Rightarrow> TakeOut" where
  "gen_grt_vars L st t =
     (let uid = module_uid_hex (hashing L) st;
          (e, s1) = new_gvar (uniq L) ptrTy False ExternalLinkage VNull (''__gyh_extreftbl_'' @ uid) (tModule t);
          (g, s2) = new_gvar (uniq L) ptrTy False ExternalLinkage VNull (''__gyh_cbstubtbl_'' @ uid) s1
      in t\<lparr>tModule := s2, tGyhExtreftbl := Some e, tGyhCbstubtbl := Some g\<rparr>)"

text \<open>\<open>std::to_string\<close> of a function number.\<close>

fun nat_digits :: "nat \<Rightarrow> string" where
  "nat_digits n = (if n < 10 then [char_of (48 + n)] else nat_digits (n div 10) @ [char_of (48 + n mod 10)])"

declare nat_digits.simps [simp del]

definition new_internal :: "take_llvm \<Rightarrow> ty \<Rightarrow> string \<Rightarrow> TakeOut \<Rightarrow> gvptr \<times> TakeOut" where
  "new_internal L fty n t = (let (p, s) = new_function (uniq L) fty InternalLinkage n (tModule t) in
     (p, t\<lparr>tModule := upd_func p (f_dso_local_update (\<lambda>_. True)) s\<rparr>))"

definition gen_hstub :: "take_llvm \<Rightarrow> TakeOut_Config \<Rightarrow> modul \<Rightarrow> Symtbl \<Rightarrow> gvptr list \<Rightarrow> gvptr \<times> FuncInfo \<Rightarrow> TakeOut \<Rightarrow>
  (plug_abort, (nat \<times> val) \<times> TakeOut) result" where
  "gen_hstub L c m st blackList e t = (case e of (p, info) \<Rightarrow>
     if p \<in> set blackList then Inr ((unat (mUid info), VNull), t)
     else case (map_of (m_funcs m) p, map_of (mCallingStubs st) (mStubType info)) of
       (Some f, Some si) \<Rightarrow>
         let (h, t1) = new_internal L (hstubTy c) (''__gyh_call_'' @ nat_digits (unat (mUid info))) t in
         bind_result (do_hstubcvt L c m st p f h si info t1) (\<lambda>t2. Inr ((unat (mUid info), VGlobal h), t2))
     | _ \<Rightarrow> Inl NullPointer)"

fun gen_hstubs :: "take_llvm \<Rightarrow> TakeOut_Config \<Rightarrow> modul \<Rightarrow> Symtbl \<Rightarrow> gvptr list \<Rightarrow> (gvptr \<times> FuncInfo) list \<Rightarrow> TakeOut \<Rightarrow>
  (plug_abort, (nat \<times> val) list \<times> TakeOut) result" where
  "gen_hstubs L c m st blackList [] t = Inr ([], t)"
| "gen_hstubs L c m st blackList (e # es) t = bind_result (gen_hstub L c m st blackList e t) (\<lambda>(kv, t1).
     bind_result (gen_hstubs L c m st blackList es t1) (\<lambda>(kvs, t2). Inr (kv # kvs, t2)))"

text \<open>The functions of the fast path are declared before any body is copied.\<close>

definition declare_hfunc :: "take_llvm \<Rightarrow> modul \<Rightarrow> gvptr list \<Rightarrow> gvptr \<times> FuncInfo \<Rightarrow> TakeOut \<Rightarrow> TakeOut" where
  "declare_hfunc L m blackList e t =
     (case map_of (m_funcs m) (fst e) of
       Some f \<Rightarrow>
         if fst e \<in> set blackList \<or> map_of (mWhiteCallees t) (fst e) \<noteq> None then t
         else let (h, t1) = new_internal L (f_fty f) (f_name f) t in t1\<lparr>mFcpFuncMap := (fst e, h) # mFcpFuncMap t1\<rparr>
     | None \<Rightarrow> t)"

definition gen_hfuncs :: "take_llvm \<Rightarrow> TakeOut_Config \<Rightarrow> modul \<Rightarrow> Symtbl \<Rightarrow> gvptr list \<Rightarrow> TakeOut \<Rightarrow>
  (plug_abort, (nat \<times> val) list \<times> TakeOut) result" where
  "gen_hfuncs L c m st blackList t =
     (let t1 = (if toUseGRT c then gen_grt_vars L st t else t);
          t2 = (if toUseFCP c then fold (declare_hfunc L m blackList) (mFunctbl st) t1 else t1)
      in gen_hstubs L c m st blackList (mFunctbl st) t2)"

fun fcp_entries :: "(gvptr \<times> gvptr) list \<Rightarrow> gvptr list \<Rightarrow> (gvptr \<times> FuncInfo) list \<Rightarrow> (plug_abort, (nat \<times> val) list) result" where
  "fcp_entries fm blackList [] = Inr []"
| "fcp_entries fm blackList ((p, info) # es) =
     bind_result (if p \<in> set blackList then Inr VNull
       else case map_of fm p of None \<Rightarrow> Inl KeyMissing | Some h \<Rightarrow> Inr (VGlobal h)) (\<lambda>v.
     bind_result (fcp_entries fm blackList es) (\<lambda>kvs. Inr ((unat (mUid info), v) # kvs)))"

definition gen_functbl :: "take_llvm \<Rightarrow> TakeOut_Config \<Rightarrow> Symtbl \<Rightarrow> gvptr list \<Rightarrow> (nat \<times> val) list \<Rightarrow> TakeOut \<Rightarrow>
  (plug_abort, TakeOut) result" where
  "gen_functbl L c st blackList kvs t =
     (let uid = module_uid_hex (hashing L) st; n = length (mFunctbl st); U = uniq L in
      bind_result (fill_table n kvs) (\<lambda>hfuncs.
      let (_, s1) = new_gvar U i64Ty True ExternalLinkage (VInt 64 (of_nat n)) (''__gyh_hfunctbl_size_'' @ uid) (tModule t);
          (_, s2) = new_gvar U (ptrArrayTy n) True ExternalLinkage (VAggr AArray (ptrArrayTy n) hfuncs) (''__gyh_hfunctbl_'' @ uid) s1 in
      if \<not> toUseFCPcm c then Inr (t\<lparr>tModule := s2\<rparr>)
      else
        bind_result (fcp_entries (mFcpFuncMap t) blackList (mFunctbl st)) (\<lambda>es.
        bind_result (fill_table n es) (\<lambda>funcs.
        let (g, s3) = new_gvar U (ptrArrayTy n) True ExternalLinkage (VAggr AArray (ptrArrayTy n) funcs) (''__gyh_functbl_'' @ uid) s2 in
        Inr (t\<lparr>tModule := s3, tGyhFunctbl := Some g\<rparr>)))))"

section \<open>The stage\<close>

definition take_black :: "BwList \<Rightarrow> gvptr list" where
  "take_black bw = map fst (filter (\<lambda>(p, anno). mTakeOut anno = Some False) (mFuncs bw))"

text \<open>Functions reported as required but not taken out.\<close>

definition take_diag :: "BwList \<Rightarrow> Symtbl \<Rightarrow> gvptr list" where
  "take_diag bw st = map fst (filter (\<lambda>(p, anno). mTakeOut anno = Some True \<and> map_of (mFunctbl st) p = None) (mFuncs bw))"

text \<open>The declarations for the callees of the list: those whose flag is false.\<close>

definition declare_white :: "take_llvm \<Rightarrow> modul \<Rightarrow> gvptr \<times> bool \<Rightarrow> TakeOut \<Rightarrow> TakeOut" where
  "declare_white L m e t =
     (if snd e then t
      else case map_of (m_funcs m) (fst e) of
        None \<Rightarrow> t
      | Some f \<Rightarrow> let (q, s) = new_function (uniq L) (f_fty f) (f_linkage f) (f_name f) (tModule t) in
          t\<lparr>tModule := s, mWhiteCallees := (fst e, q) # mWhiteCallees t\<rparr>)"

text \<open>\<open>TakeOut::operator()\<close> on a guest module, with the functions reported.\<close>

definition take_out :: "take_llvm \<Rightarrow> TakeOut_Config \<Rightarrow> BwList \<Rightarrow> Symtbl \<Rightarrow> modstate \<Rightarrow> (plug_abort, TakeOut \<times> gvptr list) result" where
  "take_out L c bw st s =
     (let m = fst s; (h, n) = template_module (uniq L) (snd s);
          t0 = TakeOut_new (h\<lparr>m_id := m_id m, m_layout := m_layout m, m_flags := m_flags h @ m_flags m\<rparr>, n) in
      bind_result (TakeOut_gen_debug L c t0) (\<lambda>t1.
      let t2 = fold (declare_white L m) (mCallees bw) t1; black = take_black bw in
      bind_result (gen_hfuncs L c m st black t2) (\<lambda>(hfuncs, t3).
      bind_result (gen_functbl L c st black hfuncs t3) (\<lambda>t4. Inr (t4, take_diag bw st)))))"

end
