(* ===== verification/Plug_ChopStub.thy ===== *)
theory Plug_ChopStub
  imports Plug_ChopOff
begin

text \<open>
  What the code generated by the guest stage does when it runs: the stub that stands for a function and
  the stub through which the host calls back, each equal to a short specification for every behaviour
  of the runtime it calls.
\<close>

section \<open>What the stubs do\<close>

text \<open>A function that prints changes nothing.\<close>

definition prints :: "calls \<Rightarrow> gvptr \<Rightarrow> bool" where
  "prints K p \<longleftrightarrow> (\<forall>xs n m. \<exists>r. K (SPtr (OGlob p) 0) xs n m = Some (r, m))"

lemma elem_tys_structTy [simp]: "elem_tys (structTy ts) = ts"
  by (simp add: structTy_def)

lemma elem_tys_ptrArrayTy: "n < 2 ^ 64 \<Longrightarrow> elem_tys (ptrArrayTy n) = replicate n ptrTy"
  by (simp add: ptrArrayTy_def unsigned_of_nat take_bit_nat_eq_self)

lemma CreateStore_value [simp]: "fst (CreateStore v p b) = Suc (fst b)"
  by (simp add: CreateStore_def)

text \<open>Putting a value on the stack: nothing and a null pointer, or a new cell and its address.\<close>

definition push :: "(ty \<times> sval) option \<Rightarrow> nat \<times> smem \<Rightarrow> sval \<times> nat \<times> smem" where
  "push cell s = (case cell of None \<Rightarrow> (SNull, s) | Some c \<Rightarrow> (SPtr (OLoc (fst s)) 0, Suc (fst s), (snd s)(OLoc (fst s) \<mapsto> c)))"

text \<open>A generator that pushes: its value is the pointer, and the state afterwards that of \<open>push\<close>.\<close>

definition pushes :: "calls \<Rightarrow> sval list \<Rightarrow> builder \<Rightarrow> sstate \<Rightarrow> (ty \<times> sval) option \<Rightarrow> val \<times> builder \<Rightarrow> sstate \<Rightarrow> bool" where
  "pushes K as b st cell r st' \<longleftrightarrow> emits K as b st (snd r) st' \<and> below (fst (snd r)) (fst r) \<and>
     (eval as (locals st') (fst r), nloc st', smem st') =
       (let (p, s) = push cell (nloc st, smem st) in (Some p, s))"

lemma CreateAlloca_pushes:
  "pushes K as b st (Some (t, undef_of t)) (CreateAlloca t b)
     (st\<lparr>locals := (locals st)(fst b \<mapsto> SPtr (OLoc (nloc st)) 0), nloc := Suc (nloc st),
        smem := (smem st)(OLoc (nloc st) \<mapsto> (t, undef_of t))\<rparr>)"
  using CreateAlloca_emits by (simp add: pushes_def push_def)

lemma spill_pushes:
  assumes "length (elem_tys t) = length vs" "vs \<noteq> []" "map (eval as (locals st)) vs = map Some ys" "\<forall>v \<in> set vs. below (fst b) v"
  shows "\<exists>st'. pushes K as b st (Some (t, SAgg ys)) (spill t vs b) st'"
proof -
  obtain v b1 where iv: "insert_values (VUndef t) 0 vs b = (v, b1)" by (cases "insert_values (VUndef t) 0 vs b")
  from insert_all_emits [OF assms iv, of K] obtain st1 where
    st1: "emits K as b st b1 st1" "smem st1 = smem st" "nloc st1 = nloc st" "below (fst b1) v" "val_ty v = t"
      "eval as (locals st1) v = Some (SAgg ys)" by blast
  let ?b2 = "snd (CreateAlloca t b1)" and ?pad = "VInst (fst b1) ptrTy"
  let ?st2 = "st1\<lparr>locals := (locals st1)(fst b1 \<mapsto> SPtr (OLoc (nloc st1)) 0), nloc := Suc (nloc st1),
        smem := (smem st1)(OLoc (nloc st1) \<mapsto> (t, undef_of t))\<rparr>"
  let ?st3 = "?st2\<lparr>smem := (smem ?st2)(OLoc (nloc st1) \<mapsto> (val_ty v, SAgg ys))\<rparr>"
  have e2: "emits K as b1 st1 ?b2 ?st2" by (rule CreateAlloca_emits)
  have "eval as (locals ?st2) v = Some (SAgg ys)"
    using emits_eval [OF e2 st1(4)] st1(6) by simp
  then have e3: "emits K as ?b2 ?st2 (CreateStore v ?pad ?b2) ?st3"
    by (intro CreateStore_emits) simp_all
  have "emits K as b st (CreateStore v ?pad ?b2) ?st3"
    using st1(1) e2 e3 by (blast intro: emits_trans)
  moreover have "spill t vs b = (?pad, CreateStore v ?pad ?b2)"
    by (cases "CreateAlloca t b1") (simp add: spill_def iv CreateAlloca_def emit_def new_ins_def)
  moreover have "below (fst (CreateStore v ?pad ?b2)) ?pad"
    using emits_below [OF e3] by simp
  ultimately show ?thesis
    using st1 by (intro exI [of _ ?st3]) (simp add: pushes_def push_def)
qed

lemma pushes_none: "pushes K as b st None (VNull, b) st"
  by (simp add: pushes_def push_def)

lemma ret_pad_pushes: "\<exists>st'. pushes K as b st (map_option (\<lambda>t. (t, undef_of t)) t) (ret_pad t b) st'"
proof (cases t)
  case None
  then show ?thesis using pushes_none [of K as b st] by (intro exI) (simp add: ret_pad_def)
next
  case (Some u)
  then show ?thesis using CreateAlloca_pushes [of K as b st u] by (intro exI) (simp add: ret_pad_def)
qed

lemma arg_pad_pushes:
  assumes "case ts of None \<Rightarrow> True | Some us \<Rightarrow> us \<noteq> [] \<and> length us = length vs"
    and "map (eval as (locals st)) vs = map Some ys" "\<forall>v \<in> set vs. below (fst b) v"
  shows "\<exists>st'. pushes K as b st (map_option (\<lambda>us. (structTy us, SAgg ys)) ts) (arg_pad ts vs b) st'"
proof (cases ts)
  case (Some us)
  then have "\<exists>st'. pushes K as b st (Some (structTy us, SAgg ys)) (spill (structTy us) vs b) st'"
    using assms by (intro spill_pushes) auto
  then show ?thesis by (simp add: arg_pad_def Some)
qed (auto simp: arg_pad_def intro: pushes_none)

definition ptr_cell :: "sval list \<Rightarrow> (ty \<times> sval) option" where
  "ptr_cell ys = (if ys = [] then None else Some (ptrArrayTy (length ys), SAgg ys))"

lemma ptr_pad_pushes:
  assumes "length vs < 2 ^ 64" "map (eval as (locals st)) vs = map Some ys" "\<forall>v \<in> set vs. below (fst b) v"
  shows "\<exists>st'. pushes K as b st (ptr_cell ys) (ptr_pad vs b) st'"
proof -
  have l: "length ys = length vs" using arg_cong [OF assms(2), of length] by simp
  show ?thesis
  proof (cases vs)
    case (Cons v ws)
    have "\<exists>st'. pushes K as b st (Some (ptrArrayTy (length vs), SAgg ys)) (spill (ptrArrayTy (length vs)) vs b) st'"
      by (rule spill_pushes) (use assms Cons in \<open>simp_all add: elem_tys_ptrArrayTy\<close>)
    moreover have "ys \<noteq> []" using l Cons by auto
    ultimately show ?thesis by (simp add: ptr_pad_def ptr_cell_def l Cons)
  qed (use l in \<open>auto simp: ptr_pad_def ptr_cell_def intro: pushes_none\<close>)
qed

lemma pushesD:
  assumes "pushes K as b st cell (v, b') st'" "push cell (nloc st, smem st) = (p, n', m')"
  shows "emits K as b st b' st'" "below (fst b') v" "eval as (locals st') v = Some p" "nloc st' = n'" "smem st' = m'"
  using assms by (simp_all add: pushes_def)

lemma debug_call_emits:
  assumes "prints K dbg" "those (map (eval as (locals st)) vs) \<noteq> None"
  shows "\<exists>st'. emits K as b st (debug_call on dbg vs b) st' \<and> nloc st' = nloc st \<and> smem st' = smem st"
proof (cases on)
  case True
  obtain xs where xs: "those (map (eval as (locals st)) vs) = Some xs" using assms(2) by blast
  obtain r where "K (SPtr (OGlob dbg) 0) xs (nloc st) (smem st) = Some (r, smem st)"
    using assms(1) unfolding prints_def by blast
  with xs have "emits K as b st (snd (CreateCall debugTy (VGlobal dbg) vs [] b)) (st\<lparr>locals := (locals st)(fst b \<mapsto> r), smem := smem st\<rparr>)"
    by (intro CreateCall_emits [where g = "SPtr (OGlob dbg) 0"]) simp_all
  with True show ?thesis
    by (intro exI [of _ "st\<lparr>locals := (locals st)(fst b \<mapsto> r), smem := smem st\<rparr>"]) (simp add: debug_call_def)
next
  case False
  then show ?thesis by (intro exI [of _ st]) (simp add: debug_call_def)
qed

text \<open>A block that ends with a call, what becomes of its result, and a return.\<close>

lemma exec_call_stuck:
  assumes "emits K as (k, []) st b st1" "eval as (locals st1) f = Some g" "those (map (eval as (locals st1)) vs) = Some xs"
    and "K g xs (nloc st1) (smem st1) = None"
  shows "exec_list K as (snd (snd (CreateCall fty f vs al b)) @ rest) st = Stuck"
proof -
  from assms(1) have "exec_list K as (snd b) st = Cont st1" by (auto simp: emits_def)
  then show ?thesis using assms(2-4)
    by (simp add: CreateCall_def emit_def exec_list_append exec_simps exec_call_def)
qed


abbreviation glob :: "gvptr \<Rightarrow> sval" where
  "glob p \<equiv> SPtr (OGlob p) 0"

text \<open>The call of the runtime a stub makes: which function, with which arguments, and the stack it leaves.\<close>

definition gcall_spec :: "ChopOff_Config \<Rightarrow> ChopOff \<Rightarrow> FuncInfo \<Rightarrow> gvptr list \<Rightarrow> sval \<Rightarrow> sval \<Rightarrow> nat \<times> smem \<Rightarrow>
  gvptr \<times> sval list \<times> nat \<times> smem" where
  "gcall_spec c s info stubs rp ap fr =
     (let hd2 = [glob (mGyhQlibUid s), SInt (ucast (mUid info)), rp, ap] in
      if coUseGRT c then (mGyhCallGRT s, hd2, fr)
      else let (ep, fr1) = push (ptr_cell (map glob (mExtRefArgs info))) fr;
               (cp, fr2) = push (ptr_cell (map glob stubs)) fr1
           in (mGyhCall s, hd2 @ [ep, cp], fr2))"

text \<open>What calling a function whose body has been replaced does: room for the result, the arguments in a
  structure, the call of the runtime, and the result read back.\<close>

definition gstub_spec :: "ChopOff_Config \<Rightarrow> ChopOff \<Rightarrow> StubInfo \<Rightarrow> FuncInfo \<Rightarrow> gvptr list \<Rightarrow> calls \<Rightarrow> sval list \<Rightarrow> nat \<Rightarrow> smem \<Rightarrow>
  (sval \<times> smem) option" where
  "gstub_spec c s si info stubs K as n m =
     (let (rp, fr1) = push (map_option (\<lambda>t. (t, undef_of t)) (sRet si)) (n, m);
          (ap, fr2) = push (map_option (\<lambda>ts. (structTy ts, SAgg as)) (sArg si)) fr1;
          (g, xs, n', m') = gcall_spec c s info stubs rp ap fr2
      in case K (glob g) xs n' m' of
           None \<Rightarrow> None
         | Some (r, m'') \<Rightarrow> (case sRet si of
             None \<Rightarrow> Some (SUndef, pop_frame n m'')
           | Some t \<Rightarrow> map_option (\<lambda>v. (v, pop_frame n m'')) (load_at t m'' rp)))"

lemma lookup_stubs_spec: "lookup_stubs cbs hs = Inr vs \<Longrightarrow> map Some ps = map (map_of cbs) hs \<Longrightarrow> vs = map VGlobal ps"
proof (induction hs arbitrary: vs ps)
  case (Cons h hs)
  from Cons.prems(2) obtain p qs where q: "ps = p # qs" "map_of cbs h = Some p" "map Some qs = map (map_of cbs) hs"
    by (cases ps) auto
  then show ?case using Cons by (auto simp: result_simps)
qed simp

lemma eval_globals [simp]: "map (eval as l) (map VGlobal ps) = map Some (map glob ps)"
  by simp

lemma glob_pad_pushes:
  assumes "length ps < 2 ^ 64"
  shows "\<exists>st'. pushes K as b st (ptr_cell (map glob ps)) (ptr_pad (map VGlobal ps) b) st'"
  using assms by (intro ptr_pad_pushes) simp_all

lemma debug_then:
  assumes "prints K dbg" "\<forall>v \<in> set vs. below (fst b) v" "those (map (eval as (locals st)) vs) = Some xs"
  shows "\<exists>st'. emits K as b st (debug_call on dbg (VGlobal fmt # vs) b) st' \<and> nloc st' = nloc st \<and> smem st' = smem st \<and>
    those (map (eval as (locals st')) vs) = Some xs"
proof -
  have "those (map (eval as (locals st)) (VGlobal fmt # vs)) \<noteq> None" using assms(3) by simp
  from debug_call_emits [OF assms(1) this] obtain st' where
    st': "emits K as b st (debug_call on dbg (VGlobal fmt # vs) b) st'" "nloc st' = nloc st" "smem st' = smem st" by blast
  have "map (eval as (locals st')) vs = map (eval as (locals st)) vs"
    using emits_eval [OF st'(1)] assms(2) by simp
  with st' assms(3) show ?thesis by metis
qed

lemma gstub_call_exec:
  assumes "gstub_call c s cbs info rv av b = Inr b'" "prints K (mGyhDebug s)"
    and "eval as (locals st) rv = Some rp" "eval as (locals st) av = Some ap" "below (fst b) rv" "below (fst b) av"
    and "map Some stubs = map (map_of cbs) (mCbStubArgs info)" "length (mExtRefArgs info) < 2 ^ 64" "length (mCbStubArgs info) < 2 ^ 64"
    and "gcall_spec c s info stubs rp ap (nloc st, smem st) = (g, xs, n', m')"
  shows "\<exists>fty vs b2 st2. b' = snd (CreateCall fty (VGlobal g) vs [] b2) \<and> emits K as b st b2 st2 \<and>
    those (map (eval as (locals st2)) vs) = Some xs \<and> nloc st2 = n' \<and> smem st2 = m'"
proof (cases "coUseGRT c")
  case True
  let ?vs = "[VGlobal (mGyhQlibUid s), VInt 32 (ucast (mUid info)), rv, av]"
  have s: "g = mGyhCallGRT s" "n' = nloc st" "m' = smem st" "xs = [glob (mGyhQlibUid s), SInt (ucast (mUid info)), rp, ap]"
    using assms(10) True by (simp_all add: gcall_spec_def Let_def)
  obtain st1 where st1: "emits K as b st (debug_call (coDebug c) (mGyhDebug s) (VGlobal (mGyhCallDebugFmt s) # ?vs) b) st1"
      "nloc st1 = nloc st" "smem st1 = smem st" "those (map (eval as (locals st1)) ?vs) = Some xs"
    using debug_then [OF assms(2), of ?vs b as st xs] assms(3-6) by (auto simp: s(4))
  have b': "b' = snd (CreateCall (voidFn [ptrTy, i32Ty, ptrTy, ptrTy]) (VGlobal g) ?vs []
      (debug_call (coDebug c) (mGyhDebug s) (VGlobal (mGyhCallDebugFmt s) # ?vs) b))"
    using assms(1) True by (simp add: gstub_call_def Let_def s(1))
  show ?thesis unfolding s(2,3) by (intro exI conjI, rule b', rule st1(1), rule st1(4), rule st1(2), rule st1(3))
next
  case False
  obtain ev b1 where ev: "ptr_pad (map VGlobal (mExtRefArgs info)) b = (ev, b1)"
    by (cases "ptr_pad (map VGlobal (mExtRefArgs info)) b")
  obtain vs where vs: "lookup_stubs cbs (mCbStubArgs info) = Inr vs" "vs = map VGlobal stubs"
    using assms(1) False lookup_stubs_spec [OF _ assms(7)]
    by (cases "lookup_stubs cbs (mCbStubArgs info)") (simp_all add: gstub_call_def ev)
  obtain cv b2 where cv: "ptr_pad (map VGlobal stubs) b1 = (cv, b2)" by (cases "ptr_pad (map VGlobal stubs) b1")
  let ?ys = "[VGlobal (mGyhQlibUid s), VInt 32 (ucast (mUid info)), rv, av, ev, cv]"
  obtain ep n1 m1 where p1: "push (ptr_cell (map glob (mExtRefArgs info))) (nloc st, smem st) = (ep, n1, m1)"
    by (metis prod_cases3)
  obtain cp n2 m2 where p: "push (ptr_cell (map glob stubs)) (n1, m1) = (cp, n2, m2)" by (metis prod_cases3)
  have xs: "g = mGyhCall s" "xs = [glob (mGyhQlibUid s), SInt (ucast (mUid info)), rp, ap, ep, cp]" and nm: "n' = n2" "m' = m2"
    using assms(10) False by (simp_all add: gcall_spec_def p1 p)
  note p2 = p [folded nm]
  have l: "length stubs = length (mCbStubArgs info)" using arg_cong [OF assms(7), of length] by simp
  obtain st1 where "pushes K as b st (ptr_cell (map glob (mExtRefArgs info))) (ev, b1) st1"
    using glob_pad_pushes [OF assms(8), of K as b st] by (auto simp: ev)
  note st1 = pushesD [OF this p1]
  obtain st2 where "pushes K as b1 st1 (ptr_cell (map glob stubs)) (cv, b2) st2"
    using glob_pad_pushes [of stubs K as b1 st1] assms(9) l by (auto simp: cv)
  note st2 = pushesD [OF this [folded st1(4,5)] p2 [folded st1(4,5)]]
  have "those (map (eval as (locals st2)) ?ys) = Some xs"
    using assms(3-6) st1(2,3) st2(3) emits_below [OF st1(1)]
    by (simp add: emits_eval [OF st2(1)] emits_eval [OF st1(1)] xs(2))
  moreover have "\<forall>v \<in> set ?ys. below (fst b2) v"
    using assms(5,6) st1(2) st2(2) emits_below [OF st1(1)] emits_below [OF st2(1)] by auto
  ultimately obtain st3 where
    st3: "emits K as b2 st2 (debug_call (coDebug c) (mGyhDebug s) (VGlobal (mGyhCallDebugFmt s) # ?ys) b2) st3"
      "nloc st3 = nloc st2" "smem st3 = smem st2" "those (map (eval as (locals st3)) ?ys) = Some xs"
    using debug_then [OF assms(2)] by blast
  have e: "emits K as b st (debug_call (coDebug c) (mGyhDebug s) (VGlobal (mGyhCallDebugFmt s) # ?ys) b2) st3"
    using st1(1) st2(1) st3(1) by (blast intro: emits_trans)
  have b': "b' = snd (CreateCall (voidFn [ptrTy, i32Ty, ptrTy, ptrTy, ptrTy, ptrTy]) (VGlobal g) ?ys []
      (debug_call (coDebug c) (mGyhDebug s) (VGlobal (mGyhCallDebugFmt s) # ?ys) b2))"
    using assms(1) False vs by (simp add: gstub_call_def ev cv Let_def xs(1))
  show ?thesis unfolding st2(4,5) [symmetric] by (intro exI conjI, rule b', rule e, rule st3(4), rule st3(2), rule st3(3))
qed

lemma call_func_body: "call_func K (setBody is f) as n m =
    (case exec_list K as is \<lparr>locals = (\<lambda>_. None), nloc = n, smem = m\<rparr> of Returned v m' \<Rightarrow> Some (v, pop_frame n m') | _ \<Rightarrow> None)"
  by (simp add: call_func_def setBody_def)

lemma CreateRet_suffix: "\<exists>rest. snd (CreateRet v b) = snd b @ rest"
  by (simp add: CreateRet_def emit_def)

lemma exec_load_stuck:
  assumes "emits K as (k, []) st b st1" "eval as (locals st1) p = Some q" "load_at t (smem st1) q = None"
  shows "exec_list K as (snd (snd (CreateLoad t p b)) @ rest) st = Stuck"
proof -
  from assms(1) have "exec_list K as (snd b) st = Cont st1" by (auto simp: emits_def)
  then show ?thesis using assms(2,3)
    by (simp add: CreateLoad_def emit_def exec_list_append exec_simps)
qed

text \<open>The end of a stub: the result read back, the return.\<close>

lemma load_ret_suffix: "\<exists>rest. snd (load_ret t rv b) = snd b @ rest"
  by (cases t) (simp_all add: load_ret_def CreateRet_def CreateLoad_def emit_def)

lemma exec_load_ret:
  assumes "emits K as (0, []) st b st1" "eval as (locals st1) rv = Some rp"
  shows "exec_list K as (snd (load_ret t rv b)) st =
    (case t of None \<Rightarrow> Returned SUndef (smem st1)
     | Some t \<Rightarrow> (case load_at t (smem st1) rp of None \<Rightarrow> Stuck | Some v \<Rightarrow> Returned v (smem st1)))"
proof (cases t)
  case None
  then show ?thesis using exec_emits_ret [OF assms(1), where r = None and v = SUndef] by (simp add: load_ret_def)
next
  case (Some u)
  then have l: "load_ret t rv b = CreateRet (Some (VInst (fst b) u)) (snd (CreateLoad u rv b))"
    using CreateLoad_value(1) [of u rv b] by (simp add: load_ret_def case_prod_beta Let_def)
  show ?thesis
  proof (cases "load_at u (smem st1) rp")
    case None
    obtain rest where "snd (load_ret t rv b) = snd (snd (CreateLoad u rv b)) @ rest"
      unfolding l using CreateRet_suffix by blast
    then show ?thesis using exec_load_stuck [OF assms None] by (simp add: None Some)
  next
    case (Some v)
    have "emits K as (0, []) st (snd (CreateLoad u rv b)) (st1\<lparr>locals := (locals st1)(fst b \<mapsto> v)\<rparr>)"
      using emits_trans [OF assms(1) CreateLoad_emits [OF assms(2) Some]] .
    from exec_emits_ret [OF this, where r = "Some (VInst (fst b) u)" and v = v] show ?thesis
      unfolding l by (simp add: Some \<open>t = Some u\<close>)
  qed
qed

lemma exec_call_load_ret:
  assumes "emits K as (0, []) st b st1" "those (map (eval as (locals st1)) vs) = Some xs" "eval as (locals st1) rv = Some rp" "below (fst b) rv"
  shows "exec_list K as (snd (load_ret t rv (snd (CreateCall fty (VGlobal g) vs al b)))) st =
    (case K (glob g) xs (nloc st1) (smem st1) of
       None \<Rightarrow> Stuck
     | Some (r, m) \<Rightarrow> (case t of None \<Rightarrow> Returned SUndef m
         | Some t \<Rightarrow> (case load_at t m rp of None \<Rightarrow> Stuck | Some v \<Rightarrow> Returned v m)))"
proof (cases "K (glob g) xs (nloc st1) (smem st1)")
  case None
  then show ?thesis
    using exec_call_stuck [OF assms(1) _ assms(2) None, of "VGlobal g" fty al]
      load_ret_suffix [of t rv "snd (CreateCall fty (VGlobal g) vs al b)"] by auto
next
  case (Some rm)
  obtain r m where rm: "rm = (r, m)" by (cases rm)
  let ?st2 = "st1\<lparr>locals := (locals st1)(fst b \<mapsto> r), smem := m\<rparr>"
  have e: "emits K as b st1 (snd (CreateCall fty (VGlobal g) vs al b)) ?st2"
    using Some assms(2) rm by (intro CreateCall_emits [where g = "glob g"]) simp_all
  have "eval as (locals ?st2) rv = Some rp" using emits_eval [OF e assms(4)] assms(3) by simp
  from exec_load_ret [OF emits_trans [OF assms(1) e] this, of t] show ?thesis by (cases t) (simp_all add: Some rm split: option.splits)
qed

lemma func_args_eval:
  assumes "length as = length (params (f_fty f))"
  shows "map (eval as l) (func_args f) = map Some as" "\<forall>v \<in> set (func_args f). below k v"
proof -
  show "map (eval as l) (func_args f) = map Some as"
    by (rule nth_equalityI) (simp_all add: assms func_args_def nth_enumerate_eq)
  show "\<forall>v \<in> set (func_args f). below k v"
    by (auto simp: func_args_def)
qed

text \<open>The stub that replaces the body of a function puts its arguments in a structure of its type,
  the addresses of the global values and of the callback stubs the function needs in two arrays (unless
  the global tables are used), calls the runtime with the number the analysis gave the function, and
  returns what the runtime left in the place for the result, freeing its stack frame.  Whatever the
  runtime does, including not returning, the stub does.\<close>

lemma gstub_runs:
  assumes "gstub_body c s cbs si info f = Inr b" "prints K (mGyhDebug s)" "length as = length (params (f_fty f))"
    and "sArg si = (if params (f_fty f) = [] then None else Some (params (f_fty f)))"
    and "map Some stubs = map (map_of cbs) (mCbStubArgs info)" "length (mExtRefArgs info) < 2 ^ 64" "length (mCbStubArgs info) < 2 ^ 64"
  shows "call_func K (setBody (snd b) f) as n m = gstub_spec c s si info stubs K as n m"
proof -
  let ?st = "\<lparr>locals = (\<lambda>_. None), nloc = n, smem = m\<rparr>"
  obtain rv b1 where rv: "ret_pad (sRet si) (0, []) = (rv, b1)" by (cases "ret_pad (sRet si) (0, [])")
  obtain av b2 where av: "arg_pad (sArg si) (func_args f) b1 = (av, b2)" by (cases "arg_pad (sArg si) (func_args f) b1")
  obtain b3 where b3: "gstub_call c s cbs info rv av b2 = Inr b3" "b = load_ret (sRet si) rv b3"
    using assms(1) by (auto simp: gstub_body_def rv av result_simps)
  obtain rp n1 m1 where p1: "push (map_option (\<lambda>t. (t, undef_of t)) (sRet si)) (n, m) = (rp, n1, m1)" by (metis prod_cases3)
  obtain ap n2 m2 where p2: "push (map_option (\<lambda>ts. (structTy ts, SAgg as)) (sArg si)) (n1, m1) = (ap, n2, m2)" by (metis prod_cases3)
  obtain g xs n3 m3 where sp: "gcall_spec c s info stubs rp ap (n2, m2) = (g, xs, n3, m3)" by (metis prod_cases4)
  obtain st1 where "pushes K as (0, []) ?st (map_option (\<lambda>t. (t, undef_of t)) (sRet si)) (rv, b1) st1"
    using ret_pad_pushes [of K as "(0, [])" ?st "sRet si"] by (auto simp: rv)
  note st1 = pushesD [OF this, simplified, OF p1]
  have "case sArg si of None \<Rightarrow> True | Some us \<Rightarrow> us \<noteq> [] \<and> length us = length (func_args f)"
    by (simp add: assms(4) func_args_def)
  from arg_pad_pushes [where K = K and st = st1 and b = b1 and as = as, OF this func_args_eval [OF assms(3)]] obtain st2 where
    "pushes K as b1 st1 (map_option (\<lambda>ts. (structTy ts, SAgg as)) (sArg si)) (av, b2) st2"
    by (auto simp: av)
  note st2 = pushesD [OF this p2 [folded st1(4,5)]]
  have rv2: "eval as (locals st2) rv = Some rp" "below (fst b2) rv"
    using emits_eval [OF st2(1) st1(2)] st1(3) emits_below [OF st2(1) st1(2)] by simp_all
  from gstub_call_exec [OF b3(1) assms(2) rv2(1) st2(3) rv2(2) st2(2) assms(5-7) sp [folded st2(4,5)]]
  obtain fty vs b4 st4 where st4: "b3 = snd (CreateCall fty (VGlobal g) vs [] b4)" "emits K as b2 st2 b4 st4"
    "those (map (eval as (locals st4)) vs) = Some xs" "nloc st4 = n3" "smem st4 = m3" by blast
  have "eval as (locals st4) rv = Some rp" "below (fst b4) rv"
    using emits_eval [OF st4(2) rv2(2)] rv2(1) emits_below [OF st4(2) rv2(2)] by simp_all
  from exec_call_load_ret [OF emits_trans [OF emits_trans [OF st1(1) st2(1)] st4(2)] st4(3) this, of "sRet si" fty g "[]"]
  have ex: "exec_list K as (snd b) ?st = (case K (glob g) xs n3 m3 of
       None \<Rightarrow> Stuck
     | Some (r, m') \<Rightarrow> (case sRet si of None \<Rightarrow> Returned SUndef m'
         | Some t \<Rightarrow> (case load_at t m' rp of None \<Rightarrow> Stuck | Some v \<Rightarrow> Returned v m')))"
    unfolding b3(2) st4(1,4,5) .
  show ?thesis
    unfolding call_func_body ex gstub_spec_def p1 p2 sp prod.case Let_def
    by (cases "K (glob g) xs n3 m3"; cases "sRet si") (simp_all split: option.splits prod.splits)
qed

text \<open>What a callback stub does: the arguments read from the structure, the guest function called with
  them, its result stored.\<close>

definition has_args :: "StubInfo \<Rightarrow> smem \<Rightarrow> sval \<Rightarrow> sval list \<Rightarrow> bool" where
  "has_args st m ap xs \<longleftrightarrow> (case sArg st of
     None \<Rightarrow> xs = []
   | Some ts \<Rightarrow> length xs = length ts \<and> load_at (structTy ts) m ap = Some (SAgg xs))"

definition store_ret :: "StubInfo \<Rightarrow> sval \<Rightarrow> sval \<times> smem \<Rightarrow> smem option" where
  "store_ret st rp rm = (if sRet st = None then Some (snd rm) else store_at (ret_ty (sFunc st)) (fst rm) rp (snd rm))"

definition cb_stub_spec :: "StubInfo \<Rightarrow> calls \<Rightarrow> sval \<Rightarrow> sval \<Rightarrow> sval list \<Rightarrow> nat \<Rightarrow> smem \<Rightarrow> (sval \<times> smem) option" where
  "cb_stub_spec st K rp gf xs n m =
     Option.bind (K gf xs n m) (\<lambda>rm. map_option (\<lambda>m'. (SUndef, pop_frame n m')) (store_ret st rp rm))"

lemma exec_store_ret:
  assumes "emits K as (k, []) st b st1" "eval as (locals st1) v = Some x" "eval as (locals st1) p = Some q"
  shows "exec_list K as (snd (CreateRet None (CreateStore v p b))) st =
    (case store_at (val_ty v) x q (smem st1) of None \<Rightarrow> Stuck | Some m \<Rightarrow> Returned SUndef m)"
proof -
  from assms(1) have "exec_list K as (snd b) st = Cont st1" by (auto simp: emits_def)
  then show ?thesis using assms(2,3)
    by (cases "store_at (val_ty v) x q (smem st1)")
      (simp_all add: CreateStore_def CreateRet_def emit_def exec_list_append exec_simps)
qed

lemma load_args_emits:
  assumes "has_args si (smem st) ap xs" "eval as (locals st) av = Some ap" "load_args (sArg si) av b = (vs, b')"
  shows "\<exists>st'. emits K as b st b' st' \<and> smem st' = smem st \<and> nloc st' = nloc st \<and> (\<forall>v \<in> set vs. below (fst b') v) \<and>
    map (eval as (locals st')) vs = map Some xs"
proof (cases "sArg si")
  case None
  then show ?thesis using assms by (intro exI [of _ st]) (auto simp: has_args_def load_args_def)
next
  case (Some ts)
  let ?b1 = "snd (CreateLoad (structTy ts) av b)" and ?st1 = "st\<lparr>locals := (locals st)(fst b \<mapsto> SAgg xs)\<rparr>"
  have xs: "length xs = length ts" "load_at (structTy ts) (smem st) ap = Some (SAgg xs)"
    using assms(1) by (simp_all add: has_args_def Some)
  have e: "emits K as b st ?b1 ?st1" by (rule CreateLoad_emits [OF assms(2) xs(2)])
  have ex: "extract_values (VInst (fst b) (structTy ts)) 0 (length ts) ?b1 = (vs, b')"
    using assms(3) CreateLoad_value(1) [of "structTy ts" av b] by (simp add: load_args_def Some Let_def case_prod_beta)
  have "\<exists>st'. emits K as ?b1 ?st1 b' st' \<and> smem st' = smem ?st1 \<and> nloc st' = nloc ?st1 \<and> (\<forall>v \<in> set vs. below (fst b') v) \<and>
      map (eval as (locals st')) vs = map Some (take (length ts) (drop 0 xs))"
    by (rule extract_values_emits [OF _ _ _ ex]) (simp_all add: xs(1))
  then obtain st' where "emits K as ?b1 ?st1 b' st'" "smem st' = smem st" "nloc st' = nloc st" "\<forall>v \<in> set vs. below (fst b') v"
      "map (eval as (locals st')) vs = map Some xs"
    using xs(1) by auto
  with emits_trans [OF e] show ?thesis by blast
qed

text \<open>A callback stub calls the guest function it is given with the arguments read from the
  structure of the type of its signature, and stores the result where it is told to.\<close>

lemma cb_stub_runs:
  assumes "prints K (mGyhDebug s)" "has_args st m ap xs"
  shows "call_func K (setBody (snd (cb_stub_body c s hc st)) f) [rp, ap, gf] n m = cb_stub_spec st K rp gf xs n m"
proof -
  let ?st = "\<lparr>locals = (\<lambda>_. None), nloc = n, smem = m\<rparr>" and ?as = "[rp, ap, gf]"
  let ?vs = "[VInt 64 hc, VArg 2 ptrTy, VArg 0 ptrTy, VArg 1 ptrTy]"
  define b1 where "b1 = debug_call (coDebug c) (mGyhDebug s) (VGlobal (mGyhCallbackDebugFmt s) # ?vs) (0, [])"
  obtain vs b2 where r: "load_args (sArg st) (VArg 1 ptrTy) b1 = (vs, b2)" by (cases "load_args (sArg st) (VArg 1 ptrTy) b1")
  let ?q = "CreateCall (sFunc st) (VArg 2 ptrTy) vs (sAttrs st) b2"
  obtain st1 where st1: "emits K ?as (0, []) ?st b1 st1" "nloc st1 = n" "smem st1 = m"
    using debug_then [OF assms(1), of ?vs "(0, [])" ?as ?st "[SInt hc, gf, rp, ap]"] by (auto simp: b1_def)
  obtain st2 where st2: "emits K ?as b1 st1 b2 st2" "smem st2 = m" "nloc st2 = n" "map (eval ?as (locals st2)) vs = map Some xs"
    using load_args_emits [of st st1 ap xs ?as "VArg 1 ptrTy" b1 vs b2 K] assms(2) r st1 by auto
  have e: "emits K ?as (0, []) ?st b2 st2" by (rule emits_trans [OF st1(1) st2(1)])
  have xs: "those (map (eval ?as (locals st2)) vs) = Some xs" by (simp add: st2(4))
  have body: "cb_stub_body c s hc st = CreateRet None (if sRet st = None then snd ?q else CreateStore (fst ?q) (VArg 0 ptrTy) (snd ?q))"
    unfolding cb_stub_body_def Let_def b1_def [symmetric] r prod.case by (simp only: case_prod_beta)
  have "exec_list K ?as (snd (cb_stub_body c s hc st)) ?st =
    (case Option.bind (K gf xs n m) (store_ret st rp) of None \<Rightarrow> Stuck | Some m' \<Rightarrow> Returned SUndef m')"
  proof (cases "K gf xs n m")
    case None
    then have "exec_list K ?as (snd (snd ?q) @ rest) ?st = Stuck" for rest
      using exec_call_stuck [OF e _ xs, of "VArg 2 ptrTy" gf] st2(2,3) by simp
    then show ?thesis using None
      by (cases "sRet st") (simp_all add: body CreateRet_def CreateStore_def emit_def)
  next
    case (Some rm)
    let ?st3 = "st2\<lparr>locals := (locals st2)(fst b2 \<mapsto> fst rm), smem := snd rm\<rparr>"
    have e3: "emits K ?as (0, []) ?st (snd ?q) ?st3"
      by (rule emits_trans [OF e CreateCall_emits [where g = gf, OF _ xs]]) (use Some st2 in simp_all)
    show ?thesis
    proof (cases "sRet st")
      case None
      then show ?thesis using exec_emits_ret [OF e3, where r = None and v = SUndef] Some by (simp add: body store_ret_def)
    next
      case (Some t)
      then show ?thesis using exec_store_ret [OF e3, of "fst ?q" "fst rm" "VArg 0 ptrTy" rp] \<open>K gf xs n m = Some rm\<close>
        by (simp add: body store_ret_def)
    qed
  qed
  then show ?thesis
    by (cases "K gf xs n m") (simp_all add: call_func_body cb_stub_spec_def split: option.splits)
qed

end
