(* ===== verification/Plug_ChopSpec.thy ===== *)
theory Plug_ChopSpec
  imports Plug_ChopStub
begin

text \<open>
  The guest stage as a whole: it never aborts on the table of the analysis, replaces the bodies of the
  chosen functions by stubs and nothing else, and leaves tables, constructor and destructor that
  describe the library to the runtime.
\<close>

section \<open>Tables\<close>

lemma fold_fill:
  assumes "distinct (map fst ks)" "\<forall>k \<in> set ks. fst k < length xs"
  shows "length (fold (\<lambda>(i, v) xs. xs[i := Some v]) ks xs) = length xs \<and>
    (\<forall>i < length xs. fold (\<lambda>(i, v) xs. xs[i := Some v]) ks xs ! i = (case map_of ks i of None \<Rightarrow> xs ! i | Some v \<Rightarrow> Some v))"
  using assms
proof (induction ks arbitrary: xs)
  case (Cons k ks)
  obtain j w where k: "k = (j, w)" by (cases k)
  have "map_of ks j = None" using Cons.prems(1) by (simp add: k map_of_eq_None_iff)
  then show ?case using Cons.IH [of "xs[j := Some w]"] Cons.prems by (auto simp: k nth_list_update split: option.splits)
qed simp

text \<open>A vector is filled when the numbers are those from 0 up to its size, and then holds each entry at its
  number.\<close>

lemma fill_table_ok:
  assumes "distinct (map fst ks)" "fst ` set ks = {..<n}"
  shows "\<exists>vs. fill_table n ks = Inr vs \<and> length vs = n \<and> (\<forall>(i, v) \<in> set ks. vs ! i = v)"
proof -
  let ?f = "fold (\<lambda>(i, v) xs. xs[i := Some v]) ks (replicate n None)"
  define vs where "vs = map (\<lambda>i. the (map_of ks i)) [0..<n]"
  have lt: "\<forall>k \<in> set ks. fst k < n" using assms(2) by auto
  have F: "length ?f = n" "\<And>i. i < n \<Longrightarrow> ?f ! i = map_of ks i"
    using fold_fill [OF assms(1), of "replicate n None"] lt by (auto split: option.splits)
  have some: "map_of ks i = Some (the (map_of ks i))" if "i < n" for i
    using that assms(2) by (metis lessThan_iff map_of_eq_None_iff option.exhaust_sel)
  have "?f = map Some vs"
  proof (rule nth_equalityI)
    fix i assume "i < length ?f"
    then show "?f ! i = map Some vs ! i" using F some [of i] by (simp add: vs_def)
  qed (simp add: F(1) vs_def)
  then have "those ?f = Some vs" by (simp only: those_eq_Some)
  moreover have "\<not> (\<exists>k \<in> set ks. n \<le> fst k)" using lt by auto
  ultimately have "fill_table n ks = Inr vs" by (simp add: fill_table_def)
  moreover have "vs ! i = v" if "(i, v) \<in> set ks" for i v
    using that lt assms(1) by (auto simp: vs_def)
  ultimately show ?thesis by (auto simp: vs_def)
qed

lemma numbered_fill:
  assumes "numbered f xs" "length xs \<le> 2 ^ 32"
  shows "\<exists>vs. fill_table (length xs) (map (\<lambda>(k, x). (unat (f x), h k)) xs) = Inr vs \<and> length vs = length xs \<and>
    (\<forall>(k, x) \<in> set xs. unat (f x) < length xs \<and> vs ! unat (f x) = h k)"
proof -
  have u: "unat (of_nat n :: u32) = n" if "n < length xs" for n
    using that assms(2) by (simp add: unsigned_of_nat take_bit_nat_eq_self)
  have img: "(\<lambda>x. unat (f x)) ` snd ` set xs = {..<length xs}"
  proof -
    have "unat ` f ` snd ` set xs = unat ` (of_nat :: nat \<Rightarrow> u32) ` {..<length xs}"
      using assms(1) by (simp add: numbered_def)
    also have "\<dots> = {..<length xs}" using u by (force simp: image_iff)
    finally show ?thesis by (simp add: image_image)
  qed
  let ?ks = "map (\<lambda>(k, x). (unat (f x), h k)) xs"
  have "fst ` set ?ks = {..<length xs}" using img by (simp add: image_image case_prod_beta)
  moreover from this have "distinct (map fst ?ks)"
    by (intro card_distinct) (simp flip: set_map)
  ultimately obtain vs where vs: "fill_table (length xs) ?ks = Inr vs" "length vs = length xs" "\<forall>(i, v) \<in> set ?ks. vs ! i = v"
    using fill_table_ok by blast
  have "unat (f x) < length xs \<and> vs ! unat (f x) = h k" if "(k, x) \<in> set xs" for k x
    using that vs(3) img by force
  with vs(1,2) show ?thesis by blast
qed

lemma cb_entries_ok:
  assumes "\<forall>(h, st) \<in> set stubs. map_of cbs h = Some (g h)"
  shows "cb_entries cbs stubs = Inr (map (\<lambda>(h, st). (unat (sUid st), VGlobal (g h))) stubs)"
  using assms by (induction cbs stubs rule: cb_entries.induct) (auto split: option.splits)

text \<open>The contents of a table variable.\<close>

definition table_at :: "modstate \<Rightarrow> gvptr \<Rightarrow> val list option" where
  "table_at s p = (case map_of (m_gvars (fst s)) p of
     Some g \<Rightarrow> (case g_init g of Some (VAggr c t vs) \<Rightarrow> if g_ty g = t \<and> t = ptrArrayTy (length vs) \<and> g_const g then Some vs else None | _ \<Rightarrow> None)
   | None \<Rightarrow> None)"

lemma const_table_ok:
  assumes "ms_ok s" "uniq_ok U" "const_table U n vs s = (p, s')"
  shows "ms_ok s'" "grows s s'" "table_at s' p = Some vs" "p < snd s'" "m_funcs (fst s') = m_funcs (fst s)"
  using new_gvar_ok [OF assms(1,2) assms(3) [unfolded const_table_def Let_def]] by (simp_all add: table_at_def)

lemma table_at_grows: "grows s s' \<Longrightarrow> p < snd s \<Longrightarrow> table_at s' p = table_at s p"
  by (simp add: grows_def table_at_def)

section \<open>The stage, step by step\<close>

lemma value_names_new_function:
  assumes "new_function U t l n s = (p, s')" "n \<notin> set (value_names (fst s))" "uniq_ok U" "n \<noteq> []"
  shows "set (value_names (fst s')) = insert n (set (value_names (fst s)))"
proof -
  have "U (value_names (fst s)) n = n" using assms(2,3) by (simp add: uniq_ok_def)
  then have s': "s' = ((fst s)\<lparr>m_funcs := m_funcs (fst s) @ [(snd s, \<lparr>f_name = n, f_fty = t, f_linkage = l, f_attrs = [], f_blocks = [],
      f_intrinsic = 0, f_prefix = None, f_dso_local = False\<rparr>)]\<rparr>, Suc (snd s))"
    using assms(1) by (auto simp: new_function_def)
  let ?f = "filter (\<lambda>(n, p). n \<noteq> [])" and ?F = "map (\<lambda>(p, f). (f_name f, p)) (m_funcs (fst s))"
    and ?R = "map (\<lambda>(p, g). (g_name g, p)) (m_gvars (fst s)) @ map (\<lambda>(p, n). (n, p)) (m_aliases (fst s))"
  have "named_values (fst s') = ?f ?F @ (n, snd s) # ?f ?R" "named_values (fst s) = ?f ?F @ ?f ?R"
    using assms(4) by (simp_all add: named_values_def all_values_def s')
  then show ?thesis by (simp add: value_names_def)
qed

lemma getFunction_new:
  assumes "ms_ok s" "uniq_ok U" "new_function U t l n s = (p, s')" "n \<notin> set (value_names (fst s))" "n \<noteq> []"
  shows "getFunction (fst s') n = Some p"
proof -
  note ok = new_function_ok [OF assms(1-3)]
  have "U (value_names (fst s)) n = n" using assms(2,4) by (simp add: uniq_ok_def)
  then show ?thesis using ok(1) map_of_SomeD [OF ok(6)] assms(5) by (force simp: ms_ok_def getFunction_iff)
qed

lemma inject_decl_ok:
  assumes "ms_ok s" "uniq_ok U" "n \<notin> set (value_names (fst s))" "n \<noteq> []" "s' = inject_decl U (n, t, al) s"
  shows "ms_ok s'" "grows s s'" "getFunction (fst s') n \<noteq> None" "set (value_names (fst s')) = insert n (set (value_names (fst s)))"
proof -
  obtain p s1 where f: "new_function U t ExternalLinkage n s = (p, s1)" by (cases "new_function U t ExternalLinkage n s")
  have s': "s' = upd_func p (f_attrs_update (\<lambda>_. al)) s1" using assms(5) by (simp add: inject_decl_def f)
  note ok = new_function_ok [OF assms(1,2) f]
  have nm: "f_name (f_attrs_update (\<lambda>_. al) f) = f_name f" for f by simp
  show "ms_ok s'" "grows s s'" unfolding s' using upd_func_ok(1,2) [OF nm] ok by simp_all
  show "getFunction (fst s') n \<noteq> None" unfolding s' upd_func_ok(3) [OF nm] using getFunction_new [OF assms(1,2) f assms(3,4)] by simp
  show "set (value_names (fst s')) = insert n (set (value_names (fst s)))"
    unfolding s' value_names_def named_values_def upd_func_values [OF nm]
    using value_names_new_function [OF f assms(3,2,4)] by (simp add: value_names_def named_values_def)
qed

lemma inject_decls_ok:
  assumes "ms_ok s" "uniq_ok U" "distinct (map fst ds)" "\<forall>n \<in> set (map fst ds). n \<notin> set (value_names (fst s)) \<and> n \<noteq> []"
  shows "ms_ok (fold (inject_decl U) ds s) \<and> grows s (fold (inject_decl U) ds s) \<and>
    (\<forall>n \<in> set (map fst ds). getFunction (fst (fold (inject_decl U) ds s)) n \<noteq> None)"
  using assms
proof (induction ds arbitrary: s)
  case (Cons d ds)
  obtain n t al where d: "d = (n, t, al)" by (cases d)
  let ?s1 = "inject_decl U d s"
  have n: "n \<notin> set (value_names (fst s))" "n \<noteq> []" using Cons.prems(4) by (simp_all add: d)
  note ok = inject_decl_ok [OF Cons.prems(1,2) n refl, of t al, folded d]
  have "\<forall>n \<in> set (map fst ds). n \<notin> set (value_names (fst ?s1)) \<and> n \<noteq> []"
    using Cons.prems(3,4) ok(4) by (auto simp: d)
  with Cons.IH [OF ok(1) Cons.prems(2)] Cons.prems(3)
  have IH: "ms_ok (fold (inject_decl U) ds ?s1)" "grows ?s1 (fold (inject_decl U) ds ?s1)"
      "\<forall>n \<in> set (map fst ds). getFunction (fst (fold (inject_decl U) ds ?s1)) n \<noteq> None" by auto
  have "getFunction (fst (fold (inject_decl U) ds ?s1)) n \<noteq> None"
    using getFunction_grows [OF IH(2) ok(1)] ok(3) by blast
  then show ?case using IH grows_trans [OF ok(2) IH(2)] by (auto simp: d)
qed simp

text \<open>The names of the runtime.\<close>

definition runtime_names :: "string set" where
  "runtime_names = set (map fst guest_ll)"

lemma inject_module_ok:
  assumes "ms_ok s" "uniq_ok U" "runtime_names \<inter> set (value_names (fst s)) = {}"
  shows "ms_ok (inject_module U s)" "grows s (inject_module U s)" "n \<in> runtime_names \<Longrightarrow> \<exists>p. runtime_func (inject_module U s) n = Inr p"
proof -
  have "distinct (map fst guest_ll)" "\<forall>n \<in> set (map fst guest_ll). n \<noteq> []" by (simp_all add: guest_ll_def)
  with inject_decls_ok [OF assms(1,2), of guest_ll] assms(3)
  have *: "ms_ok (inject_module U s) \<and> grows s (inject_module U s) \<and> (\<forall>n \<in> runtime_names. getFunction (fst (inject_module U s)) n \<noteq> None)"
    unfolding inject_module_def runtime_names_def by blast
  then show "ms_ok (inject_module U s)" "grows s (inject_module U s)" by simp_all
  show "\<exists>p. runtime_func (inject_module U s) n = Inr p" if "n \<in> runtime_names"
    using * that by (force simp: runtime_func_def split: option.splits)
qed

lemma runtime_func_grows: "grows s s' \<Longrightarrow> ms_ok s \<Longrightarrow> runtime_func s n = Inr p \<Longrightarrow> runtime_func s' n = Inr p"
  using getFunction_grows by (fastforce simp: runtime_func_def split: option.splits)

lemma gen_debug_fmt_ok:
  assumes "ms_ok s" "uniq_ok U" "gen_debug_fmt U fmt s = (p, s')"
  shows "ms_ok s'" "grows s s'" "m_funcs (fst s') = m_funcs (fst s)"
  using new_gvar_ok [OF assms(1,2) assms(3) [unfolded gen_debug_fmt_def]] by simp_all

lemma gen_debug_ok:
  assumes "ms_ok (coMod s)" "uniq_ok U" "runtime_func (coMod s) ''__gyh_debug__'' = Inr dbg"
  shows "\<exists>f1 f2 m'. gen_debug U c s = Inr (s\<lparr>coMod := m', mGyhDebug := dbg, mGyhCallDebugFmt := f1, mGyhCallbackDebugFmt := f2\<rparr>) \<and>
    ms_ok m' \<and> grows (coMod s) m'"
proof -
  obtain f1 s1 where d1: "gen_debug_fmt U ((if coUseGRT c then ''__g_yh_call_grt__(%p, %d, %p, %p)''
      else ''__g_yh_call__(%p, %d, %p, %p, %p, %p)'') @ newline) (coMod s) = (f1, s1)" by (metis prod.exhaust)
  obtain f2 s2 where d2: "gen_debug_fmt U (''__g_yh_callback_%016llX(%p, %p, %p)'' @ newline) s1 = (f2, s2)" by (metis prod.exhaust)
  note o1 = gen_debug_fmt_ok [OF assms(1,2) d1]
  note o2 = gen_debug_fmt_ok [OF o1(1) assms(2) d2]
  have "gen_debug U c s = Inr (s\<lparr>coMod := s2, mGyhDebug := dbg, mGyhCallDebugFmt := f1, mGyhCallbackDebugFmt := f2\<rparr>)"
    unfolding gen_debug_def assms(3) bind_result_Inr d1 d2 prod.case Let_def ..
  then show ?thesis using o2(1) grows_trans [OF o1(2) o2(2)] by blast
qed

lemma gen_uid_ok:
  assumes "ms_ok (coMod s)" "uniq_ok U"
  shows "\<exists>p m'. gen_uid U H st s = s\<lparr>coMod := m', mGyhQlibUid := p\<rparr> \<and> ms_ok m' \<and> grows (coMod s) m' \<and> p < snd m' \<and>
    map_option g_init (map_of (m_gvars (fst m')) p) = Some (Some (VInt 32 (ucast (mModUid st))))"
proof -
  obtain p s1 where g: "new_gvar U i32Ty False ExternalLinkage (VInt 32 (ucast (mModUid st)))
      (''__gyh_qlib_uid_'' @ module_uid_hex H st) (coMod s) = (p, s1)" by (metis prod.exhaust)
  note ok = new_gvar_ok [OF assms g]
  have nm: "g_name (g_dso_local_update (\<lambda>_. True) x) = g_name x" for x by simp
  have "gen_uid U H st s = s\<lparr>coMod := upd_gvar p (g_dso_local_update (\<lambda>_. True)) s1, mGyhQlibUid := p\<rparr>"
    unfolding gen_uid_def g Let_def prod.case ..
  then show ?thesis using ok upd_gvar_ok [OF nm]
    by (intro exI [of _ p] exI [of _ "upd_gvar p (g_dso_local_update (\<lambda>_. True)) s1"]) (simp add: map_of_upd_gvar)
qed

text \<open>A callback stub in the module.\<close>

definition is_cb_stub :: "ChopOff_Config \<Rightarrow> ChopOff \<Rightarrow> modstate \<Rightarrow> gvptr \<Rightarrow> u64 \<times> StubInfo \<Rightarrow> bool" where
  "is_cb_stub c s m p hs \<longleftrightarrow> (\<exists>f0. map_of (m_funcs (fst m)) p = Some (setBody (snd (cb_stub_body c s (fst hs) (snd hs))) f0) \<and>
     f_fty f0 = voidFn [ptrTy, ptrTy, ptrTy] \<and> f_attrs f0 = cb_stub_attrs \<and> f_linkage f0 = WeakAnyLinkage)"

lemma gen_cb_stub_ok:
  assumes "ms_ok (coMod s)" "uniq_ok U"
  shows "\<exists>p m'. gen_cb_stub U H c hs (s, cbs) = (s\<lparr>coMod := m'\<rparr>, cbs @ [(fst hs, p)]) \<and> ms_ok m' \<and> grows (coMod s) m' \<and> p < snd m' \<and>
    snd (coMod s) \<le> p \<and> is_cb_stub c s m' p hs"
proof -
  obtain hc st where hs: "hs = (hc, st)" by (cases hs)
  obtain p s1 where f: "new_function U (voidFn [ptrTy, ptrTy, ptrTy]) WeakAnyLinkage (''__gyh_callback_'' @ hash2str H hc) (coMod s) = (p, s1)" by (metis prod.exhaust)
  note ok = new_function_ok [OF assms f]
  let ?g = "\<lambda>f. setBody (snd (cb_stub_body c s hc st)) (f\<lparr>f_attrs := cb_stub_attrs\<rparr>)"
  have nm: "f_name (?g f) = f_name f" for f by simp
  have "gen_cb_stub U H c hs (s, cbs) = (s\<lparr>coMod := upd_func p ?g s1\<rparr>, cbs @ [(fst hs, p)])"
    unfolding gen_cb_stub_def hs prod.case fst_conv snd_conv Let_def f ..
  moreover have "is_cb_stub c s (upd_func p ?g s1) p hs"
    using ok(6) by (simp add: is_cb_stub_def hs map_of_upd_func) (rule exI, rule conjI, rule refl, simp)
  ultimately show ?thesis using ok upd_func_ok [OF nm]
    by (intro exI [of _ p] exI [of _ "upd_func p ?g s1"]) simp
qed

lemma is_cb_stub_grows: "grows m m' \<Longrightarrow> p < snd m \<Longrightarrow> is_cb_stub c s m p hs \<Longrightarrow> is_cb_stub c s m' p hs"
  by (simp add: grows_def is_cb_stub_def)

lemma cb_stub_body_coMod [simp]: "cb_stub_body c (s\<lparr>coMod := m\<rparr>) hc st = cb_stub_body c s hc st"
  by (simp add: cb_stub_body_def)

lemma is_cb_stub_coMod [simp]: "is_cb_stub c (s\<lparr>coMod := m0\<rparr>) m p hs = is_cb_stub c s m p hs"
  by (simp add: is_cb_stub_def)

lemma fold_gen_cb_stub:
  assumes "ms_ok (coMod s)" "uniq_ok U" "n0 \<le> snd (coMod s)" "list_all2 (\<lambda>hs e. fst e = fst hs \<and> n0 \<le> snd e \<and> snd e < snd (coMod s) \<and> is_cb_stub c s (coMod s) (snd e) hs) hs0 cbs"
  shows "\<exists>m' cbs'. fold (gen_cb_stub U H c) hs (s, cbs) = (s\<lparr>coMod := m'\<rparr>, cbs') \<and> ms_ok m' \<and> grows (coMod s) m' \<and>
    list_all2 (\<lambda>hs e. fst e = fst hs \<and> n0 \<le> snd e \<and> snd e < snd m' \<and> is_cb_stub c s m' (snd e) hs) (hs0 @ hs) cbs'"
  using assms
proof (induction hs arbitrary: s cbs hs0)
  case Nil
  then show ?case by (intro exI [of _ "coMod s"] exI [of _ cbs]) simp
next
  case (Cons h hs)
  obtain p m1 where s1: "gen_cb_stub U H c h (s, cbs) = (s\<lparr>coMod := m1\<rparr>, cbs @ [(fst h, p)])" "ms_ok m1" "grows (coMod s) m1" "p < snd m1"
      "snd (coMod s) \<le> p" "is_cb_stub c s m1 p h"
    using gen_cb_stub_ok [OF Cons.prems(1,2), of H c h cbs] by blast
  have le: "snd (coMod s) \<le> snd m1" using s1(3) by (simp add: grows_def)
  have "list_all2 (\<lambda>hs e. fst e = fst hs \<and> n0 \<le> snd e \<and> snd e < snd m1 \<and> is_cb_stub c s m1 (snd e) hs) hs0 cbs"
    using Cons.prems(4) by (rule list_all2_mono) (use le is_cb_stub_grows [OF s1(3)] in auto)
  then have "list_all2 (\<lambda>hs e. fst e = fst hs \<and> n0 \<le> snd e \<and> snd e < snd m1 \<and> is_cb_stub c s m1 (snd e) hs) (hs0 @ [h]) (cbs @ [(fst h, p)])"
    using s1(4-6) Cons.prems(3) by (intro list_all2_appendI) simp_all
  from Cons.IH [of "s\<lparr>coMod := m1\<rparr>" "hs0 @ [h]" "cbs @ [(fst h, p)]"] this s1(2) Cons.prems(2,3) le
  obtain m' cbs' where "fold (gen_cb_stub U H c) hs (s\<lparr>coMod := m1\<rparr>, cbs @ [(fst h, p)]) = (s\<lparr>coMod := m'\<rparr>, cbs')" "ms_ok m'" "grows m1 m'"
      "list_all2 (\<lambda>hs e. fst e = fst hs \<and> n0 \<le> snd e \<and> snd e < snd m' \<and> is_cb_stub c s m' (snd e) hs) (hs0 @ h # hs) cbs'"
    by auto
  with s1(1) grows_trans [OF s1(3)] show ?case by (intro exI [of _ m'] exI [of _ cbs']) simp
qed

lemma gen_cb_stubs_ok:
  assumes "ms_ok (coMod s)" "uniq_ok U" "map_sorted (mCallbackStubs st)"
  shows "\<exists>m' cbs. gen_cb_stubs U H c st s = (s\<lparr>coMod := m'\<rparr>, cbs) \<and> ms_ok m' \<and> grows (coMod s) m' \<and>
    (\<forall>(h, si) \<in> set (mCallbackStubs st). \<exists>p. map_of cbs h = Some p \<and> snd (coMod s) \<le> p \<and> p < snd m' \<and> is_cb_stub c s m' p (h, si))"
proof -
  obtain m' cbs where r: "gen_cb_stubs U H c st s = (s\<lparr>coMod := m'\<rparr>, cbs)" "ms_ok m'" "grows (coMod s) m'"
      and l: "list_all2 (\<lambda>hs e. fst e = fst hs \<and> snd (coMod s) \<le> snd e \<and> snd e < snd m' \<and> is_cb_stub c s m' (snd e) hs) (mCallbackStubs st) cbs"
    using fold_gen_cb_stub [OF assms(1,2), of "snd (coMod s)" c "[]" "[]" H "mCallbackStubs st"] by (auto simp: gen_cb_stubs_def)
  have "map fst cbs = map fst (mCallbackStubs st)"
    using l by (induction rule: list_all2_induct) simp_all
  then have d: "distinct (map fst cbs)" using map_sorted_distinct [OF assms(3)] by simp
  have "\<exists>p. map_of cbs h = Some p \<and> snd (coMod s) \<le> p \<and> p < snd m' \<and> is_cb_stub c s m' p (h, si)" if "(h, si) \<in> set (mCallbackStubs st)" for h si
  proof -
    from that obtain i where i: "i < length (mCallbackStubs st)" "mCallbackStubs st ! i = (h, si)" by (auto simp: in_set_conv_nth)
    then have "fst (cbs ! i) = h \<and> snd (coMod s) \<le> snd (cbs ! i) \<and> snd (cbs ! i) < snd m' \<and> is_cb_stub c s m' (snd (cbs ! i)) (h, si)" "cbs ! i \<in> set cbs"
      using list_all2_nthD [OF l i(1)] list_all2_lengthD [OF l] by auto
    then show ?thesis using d by (cases "cbs ! i") auto
  qed
  with r show ?thesis by blast
qed

lemma gen_grt_ok:
  assumes "ms_ok (coMod s)" "uniq_ok U" "symtbl_wf st" "length (mCallbackStubs st) \<le> 2 ^ 32" "length (mGreftbl st) \<le> 2 ^ 32"
    and "\<forall>(h, si) \<in> set (mCallbackStubs st). map_of cbs h = Some (g h)"
  shows "\<exists>m' p q cb ext. gen_grt U st cbs s = Inr (s\<lparr>coMod := m', mGyhCbstubtbl := p, mGyhExtreftbl := q\<rparr>) \<and> ms_ok m' \<and>
    grows (coMod s) m' \<and> table_at m' p = Some cb \<and> table_at m' q = Some ext \<and> p < snd m' \<and> q < snd m' \<and>
    (\<forall>(h, si) \<in> set (mCallbackStubs st). unat (sUid si) < length cb \<and> cb ! unat (sUid si) = VGlobal (g h)) \<and>
    (\<forall>(r, uid) \<in> set (mGreftbl st). unat uid < length ext \<and> ext ! unat uid = VGlobal r)"
proof -
  have nb: "numbered sUid (mCallbackStubs st)" "numbered id (mGreftbl st)" using assms(3) by (simp_all add: symtbl_wf_def)
  obtain cb where cb: "fill_table (length (mCallbackStubs st)) (map (\<lambda>(h, si). (unat (sUid si), VGlobal (g h))) (mCallbackStubs st)) = Inr cb"
      "length cb = length (mCallbackStubs st)"
      "\<forall>(h, si) \<in> set (mCallbackStubs st). unat (sUid si) < length (mCallbackStubs st) \<and> cb ! unat (sUid si) = VGlobal (g h)"
    using numbered_fill [OF nb(1) assms(4), of "\<lambda>h. VGlobal (g h)"] by blast
  obtain ext where ext: "fill_table (length (mGreftbl st)) (map (\<lambda>(r, uid). (unat uid, VGlobal r)) (mGreftbl st)) = Inr ext"
      "length ext = length (mGreftbl st)"
      "\<forall>(r, uid) \<in> set (mGreftbl st). unat uid < length (mGreftbl st) \<and> ext ! unat uid = VGlobal r"
    using numbered_fill [OF nb(2) assms(5), of VGlobal] by (simp add: id_def) blast
  obtain p s1 where t1: "const_table U ''__gyh_cbstubtbl__'' cb (coMod s) = (p, s1)" by (metis prod.exhaust)
  obtain q s2 where t2: "const_table U ''__gyh_extreftbl__'' ext s1 = (q, s2)" by (metis prod.exhaust)
  note o1 = const_table_ok [OF assms(1,2) t1]
  note o2 = const_table_ok [OF o1(1) assms(2) t2]
  have "gen_grt U st cbs s = Inr (s\<lparr>coMod := s2, mGyhCbstubtbl := p, mGyhExtreftbl := q\<rparr>)"
    unfolding gen_grt_def cb_entries_ok [OF assms(6)] bind_result_Inr cb(1) t1 Let_def prod.case ext(1) t2 ..
  moreover have "p < snd s2" using o1(4) o2(2) by (simp add: grows_def)
  ultimately show ?thesis
    using o1 o2 table_at_grows [OF o2(2) o1(4)] grows_trans [OF o1(2) o2(2)] cb(2,3) ext(2,3)
    by (intro exI [of _ s2] exI [of _ p] exI [of _ q] exI [of _ cb] exI [of _ ext]) simp
qed

section \<open>Which functions are replaced\<close>

definition taken :: "ChopOff_Config \<Rightarrow> BwList \<Rightarrow> modul \<Rightarrow> gvptr \<Rightarrow> bool" where
  "taken c bw m p \<longleftrightarrow> chop_bw bw p \<noteq> Some False \<and> (\<exists>f. map_of (m_funcs m) p = Some f \<and> worth_chopping c bw p f)"

definition prefixed :: "ChopOff_Config \<Rightarrow> BwList \<Rightarrow> (gvptr \<times> FuncInfo) list \<Rightarrow> gvptr \<Rightarrow> func \<Rightarrow> func" where
  "prefixed c bw es p f = (case map_of es p of
     Some info \<Rightarrow> if coUseFCPcm c \<and> chop_bw bw p \<noteq> Some False then set_prefix (mUid info) f else f
   | None \<Rightarrow> f)"

lemma set_prefix_sel [simp]: "f_name (set_prefix u f) = f_name f" "f_blocks (set_prefix u f) = f_blocks f" "f_fty (set_prefix u f) = f_fty f"
  by (simp_all add: set_prefix_def)

text \<open>The modules agree up to changes of functions that keep names and blocks.\<close>

definition same_code :: "modstate \<Rightarrow> modstate \<Rightarrow> bool" where
  "same_code s s' \<longleftrightarrow> snd s' = snd s \<and> all_values (fst s') = all_values (fst s) \<and> m_gvars (fst s') = m_gvars (fst s) \<and>
     (\<forall>p. map_option f_blocks (map_of (m_funcs (fst s')) p) = map_option f_blocks (map_of (m_funcs (fst s)) p))"

lemma same_code_taken: "same_code s s' \<Longrightarrow> taken c bw (fst s') p = taken c bw (fst s) p"
proof -
  assume "same_code s s'"
  then have "map_option f_blocks (map_of (m_funcs (fst s')) p) = map_option f_blocks (map_of (m_funcs (fst s)) p)"
    by (simp add: same_code_def)
  then show ?thesis
    by (cases "map_of (m_funcs (fst s')) p"; cases "map_of (m_funcs (fst s)) p")
      (simp_all add: taken_def worth_chopping_def instructionCount_def all_ins_def)
qed

lemma calc_benefit_step:
  assumes "(p, info) = e" "map_of (m_funcs (fst s)) p \<noteq> None"
  shows "\<exists>s'. calc_benefit c bw e (s, bs, ds) = (s', if taken c bw (fst s) p then bs @ [e] else bs,
      if chop_bw bw p = Some True \<and> \<not> taken c bw (fst s) p then ds @ [p] else ds) \<and> same_code s s' \<and>
    (\<forall>q. map_of (m_funcs (fst s')) q = map_option (prefixed c bw [e] q) (map_of (m_funcs (fst s)) q))"
proof -
  obtain f where f: "map_of (m_funcs (fst s)) p = Some f" using assms(2) by blast
  let ?s' = "if chop_bw bw p \<noteq> Some False \<and> coUseFCPcm c then upd_func p (set_prefix (mUid info)) s else s"
  have "calc_benefit c bw e (s, bs, ds) = (?s', if taken c bw (fst s) p then bs @ [e] else bs,
      if chop_bw bw p = Some True \<and> \<not> taken c bw (fst s) p then ds @ [p] else ds)"
    by (auto simp: calc_benefit_def assms(1) [symmetric] f taken_def)
  moreover have "same_code s ?s'"
    using upd_func_values [of "set_prefix (mUid info)" p s] f by (auto simp: same_code_def map_of_upd_func)
  moreover have "map_of (m_funcs (fst ?s')) q = map_option (prefixed c bw [e] q) (map_of (m_funcs (fst s)) q)" for q
    by (auto simp: map_of_upd_func prefixed_def assms(1) [symmetric] option.map_ident cong: option.map_cong)
  ultimately show ?thesis by blast
qed

lemma same_code_trans: "same_code s s1 \<Longrightarrow> same_code s1 s2 \<Longrightarrow> same_code s s2"
  by (simp add: same_code_def)

lemma same_code_defined: "same_code s s' \<Longrightarrow> map_of (m_funcs (fst s)) p \<noteq> None \<Longrightarrow> map_of (m_funcs (fst s')) p \<noteq> None"
  unfolding same_code_def by (metis option.map_disc_iff)

lemma calc_benefits_fold:
  assumes "\<forall>e \<in> set es. map_of (m_funcs (fst s)) (fst e) \<noteq> None" "distinct (map fst es)"
  shows "\<exists>s'. fold (calc_benefit c bw) es (s, bs, ds) = (s', bs @ filter (\<lambda>e. taken c bw (fst s) (fst e)) es,
      ds @ map fst (filter (\<lambda>e. chop_bw bw (fst e) = Some True \<and> \<not> taken c bw (fst s) (fst e)) es)) \<and> same_code s s' \<and>
    (\<forall>q. map_of (m_funcs (fst s')) q = map_option (prefixed c bw es q) (map_of (m_funcs (fst s)) q))"
  using assms
proof (induction es arbitrary: s bs ds)
  case Nil
  have "prefixed c bw [] q f = f" for q f by (simp add: prefixed_def)
  then show ?case by (intro exI [of _ s]) (simp add: same_code_def option.map_ident)
next
  case (Cons e es)
  obtain p info where e: "(p, info) = e" by (cases e) auto
  let ?bs = "if taken c bw (fst s) p then bs @ [e] else bs"
    and ?ds = "if chop_bw bw p = Some True \<and> \<not> taken c bw (fst s) p then ds @ [p] else ds"
  obtain s1 where s1: "calc_benefit c bw e (s, bs, ds) = (s1, ?bs, ?ds)" "same_code s s1"
      "\<forall>q. map_of (m_funcs (fst s1)) q = map_option (prefixed c bw [e] q) (map_of (m_funcs (fst s)) q)"
    using calc_benefit_step [OF e, of s c bw bs ds] Cons.prems(1) e by auto
  have "\<forall>e \<in> set es. map_of (m_funcs (fst s1)) (fst e) \<noteq> None"
    using Cons.prems(1) same_code_defined [OF s1(2)] by simp
  from Cons.IH [OF this, of ?bs ?ds] Cons.prems(2)
  obtain s' where s': "fold (calc_benefit c bw) es (s1, ?bs, ?ds) = (s', ?bs @ filter (\<lambda>e. taken c bw (fst s) (fst e)) es,
      ?ds @ map fst (filter (\<lambda>e. chop_bw bw (fst e) = Some True \<and> \<not> taken c bw (fst s) (fst e)) es))" "same_code s1 s'"
      "\<forall>q. map_of (m_funcs (fst s')) q = map_option (prefixed c bw es q) (map_of (m_funcs (fst s1)) q)"
    unfolding same_code_taken [OF s1(2)] by auto
  have "prefixed c bw es q (prefixed c bw [e] q f) = prefixed c bw (e # es) q f" for q f
    using Cons.prems(2) e by (auto simp: prefixed_def map_of_eq_None_iff [symmetric] split: option.splits)
  then have "map_of (m_funcs (fst s')) q = map_option (prefixed c bw (e # es) q) (map_of (m_funcs (fst s)) q)" for q
    using s1(3) s'(3) by (simp add: option.map_comp comp_def)
  then show ?case using s1(1) s'(1) same_code_trans [OF s1(2) s'(2)] e by (intro exI [of _ s']) auto
qed

section \<open>Replacing the bodies\<close>

lemma lookup_stubs_ok: "\<forall>h \<in> set hs. map_of cbs h = Some (g h) \<Longrightarrow> lookup_stubs cbs hs = Inr (map (\<lambda>h. VGlobal (g h)) hs)"
  by (induction cbs hs rule: lookup_stubs.induct) simp_all

lemma gstub_body_total:
  assumes "\<forall>h \<in> set (mCbStubArgs info). map_of cbs h = Some (g h)"
  shows "\<exists>b. gstub_body c s cbs si info f = Inr b"
  using lookup_stubs_ok [OF assms] by (simp add: gstub_body_def gstub_call_def Let_def case_prod_beta)

lemma gstub_body_cong:
  assumes "mGyhQlibUid s' = mGyhQlibUid s" "mGyhCall s' = mGyhCall s" "mGyhCallGRT s' = mGyhCallGRT s" "mGyhDebug s' = mGyhDebug s"
    "mGyhCallDebugFmt s' = mGyhCallDebugFmt s"
  shows "gstub_body c s' cbs si info f = gstub_body c s cbs si info f"
  unfolding gstub_body_def gstub_call_def assms ..

text \<open>The stub of a function: the body generated for it, with the function's name, type, attributes and prefix
  data.\<close>

definition is_gstub :: "ChopOff_Config \<Rightarrow> ChopOff \<Rightarrow> Symtbl \<Rightarrow> CbStubs \<Rightarrow> FuncInfo \<Rightarrow> func \<Rightarrow> func \<Rightarrow> bool" where
  "is_gstub c s st cbs info f f' \<longleftrightarrow> (\<exists>si b. map_of (mCallingStubs st) (mStubType info) = Some si \<and>
     gstub_body c s cbs si info f = Inr b \<and> f' = setBody (snd b) (f\<lparr>f_linkage := ExternalLinkage\<rparr>))"

lemma chop_gfunc_ok:
  assumes "map_of (m_funcs (fst (coMod s))) p = Some f" "mStubType info \<in> fst ` set (mCallingStubs st)"
    and "\<forall>h \<in> set (mCbStubArgs info). map_of cbs h = Some (g h)"
  shows "\<exists>m' f'. chop_gfunc c st cbs (p, info) s = Inr (s\<lparr>coMod := m'\<rparr>) \<and> is_gstub c s st cbs info f f' \<and>
    snd m' = snd (coMod s) \<and> all_values (fst m') = all_values (fst (coMod s)) \<and> m_gvars (fst m') = m_gvars (fst (coMod s)) \<and>
    map_of (m_funcs (fst m')) = (map_of (m_funcs (fst (coMod s))))(p \<mapsto> f')"
proof -
  obtain si where si: "map_of (mCallingStubs st) (mStubType info) = Some si"
    using assms(2) by (metis map_of_eq_None_iff option.exhaust set_map)
  obtain b where b: "gstub_body c s cbs si info f = Inr b" using gstub_body_total [OF assms(3)] by blast
  let ?g = "\<lambda>f. setBody (snd b) (f\<lparr>f_linkage := ExternalLinkage\<rparr>)"
  have "chop_gfunc c st cbs (p, info) s = Inr (s\<lparr>coMod := upd_func p ?g (coMod s)\<rparr>)"
    by (simp add: chop_gfunc_def assms(1) si b)
  moreover have "is_gstub c s st cbs info f (?g f)" unfolding is_gstub_def using si b by blast
  moreover have "map_of (m_funcs (fst (upd_func p ?g (coMod s)))) = (map_of (m_funcs (fst (coMod s))))(p \<mapsto> ?g f)"
    by (rule ext) (simp add: map_of_upd_func assms(1))
  ultimately show ?thesis
    using upd_func_values [of ?g p "coMod s"] by (intro exI [of _ "upd_func p ?g (coMod s)"] exI [of _ "?g f"]) simp
qed

lemma is_gstub_cong:
  assumes "mGyhQlibUid s' = mGyhQlibUid s" "mGyhCall s' = mGyhCall s" "mGyhCallGRT s' = mGyhCallGRT s" "mGyhDebug s' = mGyhDebug s"
    "mGyhCallDebugFmt s' = mGyhCallDebugFmt s"
  shows "is_gstub c s' st cbs info f f' = is_gstub c s st cbs info f f'"
  unfolding is_gstub_def gstub_body_cong [OF assms] ..

lemma is_gstub_coMod [simp]: "is_gstub c (s\<lparr>coMod := m\<rparr>) st cbs info f f' = is_gstub c s st cbs info f f'"
  by (rule is_gstub_cong) simp_all

lemma chop_gfuncs_ok:
  assumes "\<forall>(p, info) \<in> set es. map_of (m_funcs (fst (coMod s))) p \<noteq> None \<and> mStubType info \<in> fst ` set (mCallingStubs st) \<and>
      (\<forall>h \<in> set (mCbStubArgs info). map_of cbs h = Some (g h))" "distinct (map fst es)"
  shows "\<exists>m'. chop_gfuncs c st cbs es s = Inr (s\<lparr>coMod := m'\<rparr>) \<and>
    snd m' = snd (coMod s) \<and> all_values (fst m') = all_values (fst (coMod s)) \<and> m_gvars (fst m') = m_gvars (fst (coMod s)) \<and>
    dom (map_of (m_funcs (fst m'))) = dom (map_of (m_funcs (fst (coMod s)))) \<and>
    (\<forall>p f. map_of (m_funcs (fst (coMod s))) p = Some f \<longrightarrow> (\<exists>f'. map_of (m_funcs (fst m')) p = Some f' \<and>
      (case map_of es p of None \<Rightarrow> f' = f | Some info \<Rightarrow> is_gstub c s st cbs info f f')))"
  using assms
proof (induction es arbitrary: s)
  case Nil
  then show ?case by (intro exI [of _ "coMod s"]) simp
next
  case (Cons e es)
  obtain p info where e: "e = (p, info)" by (cases e)
  have pre: "map_of (m_funcs (fst (coMod s))) p \<noteq> None" "mStubType info \<in> fst ` set (mCallingStubs st)"
      "\<forall>h \<in> set (mCbStubArgs info). map_of cbs h = Some (g h)"
    using Cons.prems(1) by (simp_all add: e)
  obtain f where f: "map_of (m_funcs (fst (coMod s))) p = Some f" using pre(1) by blast
  obtain m1 f1 where s1: "chop_gfunc c st cbs (p, info) s = Inr (s\<lparr>coMod := m1\<rparr>)" "is_gstub c s st cbs info f f1"
      "snd m1 = snd (coMod s)" "all_values (fst m1) = all_values (fst (coMod s))" "m_gvars (fst m1) = m_gvars (fst (coMod s))"
      "map_of (m_funcs (fst m1)) = (map_of (m_funcs (fst (coMod s))))(p \<mapsto> f1)"
    using chop_gfunc_ok [OF f pre(2,3), of c] by blast
  have np: "map_of es p = None" using Cons.prems(2) by (simp add: e map_of_eq_None_iff)
  have "\<forall>(p, info) \<in> set es. map_of (m_funcs (fst (coMod (s\<lparr>coMod := m1\<rparr>)))) p \<noteq> None \<and> mStubType info \<in> fst ` set (mCallingStubs st) \<and>
      (\<forall>h \<in> set (mCbStubArgs info). map_of cbs h = Some (g h))"
    using Cons.prems(1) by (auto simp: s1(6))
  from Cons.IH [OF this] Cons.prems(2) have "\<exists>m'. chop_gfuncs c st cbs es (s\<lparr>coMod := m1\<rparr>) = Inr (s\<lparr>coMod := m'\<rparr>) \<and>
      snd m' = snd m1 \<and> all_values (fst m') = all_values (fst m1) \<and> m_gvars (fst m') = m_gvars (fst m1) \<and>
      dom (map_of (m_funcs (fst m'))) = dom (map_of (m_funcs (fst m1))) \<and>
      (\<forall>q f. map_of (m_funcs (fst m1)) q = Some f \<longrightarrow> (\<exists>f'. map_of (m_funcs (fst m')) q = Some f' \<and>
        (case map_of es q of None \<Rightarrow> f' = f | Some info \<Rightarrow> is_gstub c s st cbs info f f')))"
    unfolding is_gstub_coMod by simp
  then obtain m' where m': "chop_gfuncs c st cbs es (s\<lparr>coMod := m1\<rparr>) = Inr (s\<lparr>coMod := m'\<rparr>)"
      "snd m' = snd m1" "all_values (fst m') = all_values (fst m1)" "m_gvars (fst m') = m_gvars (fst m1)"
      "dom (map_of (m_funcs (fst m'))) = dom (map_of (m_funcs (fst m1)))"
      "\<forall>q f. map_of (m_funcs (fst m1)) q = Some f \<longrightarrow> (\<exists>f'. map_of (m_funcs (fst m')) q = Some f' \<and>
        (case map_of es q of None \<Rightarrow> f' = f | Some info \<Rightarrow> is_gstub c s st cbs info f f'))"
    by blast
  have "\<exists>f'. map_of (m_funcs (fst m')) q = Some f' \<and> (case map_of (e # es) q of None \<Rightarrow> f' = h | Some info \<Rightarrow> is_gstub c s st cbs info h f')"
    if "map_of (m_funcs (fst (coMod s))) q = Some h" for q h
  proof (cases "q = p")
    case True
    then show ?thesis using m'(6) [rule_format, of p f1] s1(2,6) f that np by (auto simp: e)
  next
    case False
    then show ?thesis using m'(6) [rule_format, of q h] s1(6) that by (auto simp: e)
  qed
  moreover have "dom (map_of (m_funcs (fst m'))) = dom (map_of (m_funcs (fst (coMod s))))" using m'(5) s1(6) f by auto
  ultimately show ?case using s1 m' by (intro exI [of _ m']) (simp add: e)
qed

section \<open>Constructor and destructor\<close>

text \<open>A function that calls one function with fixed arguments.\<close>

lemma tor_body_exec:
  assumes "tor_body U c fmt fty target vs s = (b, s')" "prints K (mGyhDebug s)" "those (map (eval [] (\<lambda>_. None)) vs) = Some xs"
    and "\<forall>v \<in> set vs. below 0 v"
  shows "call_func K (setBody (snd b) f) [] n m = map_option (\<lambda>(r, m'). (SUndef, pop_frame n m')) (K (glob target) xs n m)"
proof -
  let ?st = "\<lparr>locals = (\<lambda>_. None), nloc = n, smem = m\<rparr>"
  obtain fp where b: "b = CreateRet None (snd (CreateCall fty (VGlobal target) vs [] (debug_call (coDebug c) (mGyhDebug s) (VGlobal fp # vs) (0, []))))"
    using assms(1) by (auto simp: tor_body_def Let_def split: prod.splits)
  obtain st1 where st1: "emits K [] (0, []) ?st (debug_call (coDebug c) (mGyhDebug s) (VGlobal fp # vs) (0, [])) st1"
      "nloc st1 = n" "smem st1 = m" "those (map (eval [] (locals st1)) vs) = Some xs"
    using debug_then [OF assms(2), of vs "(0, [])" "[]" ?st xs "coDebug c" fp] assms(3,4) by auto
  let ?q = "CreateCall fty (VGlobal target) vs [] (debug_call (coDebug c) (mGyhDebug s) (VGlobal fp # vs) (0, []))"
  show ?thesis
  proof (cases "K (glob target) xs n m")
    case None
    then have "exec_list K [] (snd b) ?st = Stuck"
      using exec_call_stuck [OF st1(1) _ st1(4), of "VGlobal target" "glob target" fty "[]"] st1(2,3) CreateRet_suffix [of None "snd ?q"]
      by (auto simp: b)
    then show ?thesis by (simp add: call_func_body None)
  next
    case (Some rm)
    obtain r m' where rm: "rm = (r, m')" by (cases rm)
    have "emits K [] (0, []) ?st (snd ?q) (st1\<lparr>locals := (locals st1)(fst (debug_call (coDebug c) (mGyhDebug s) (VGlobal fp # vs) (0, [])) \<mapsto> r), smem := m'\<rparr>)"
      by (rule emits_trans [OF st1(1) CreateCall_emits [where g = "glob target" and xs = xs]]) (use Some st1 rm in simp_all)
    from exec_emits_ret [OF this, where r = None and v = SUndef] have "exec_list K [] (snd b) ?st = Returned SUndef m'" by (simp add: b)
    then show ?thesis by (simp add: call_func_body Some rm)
  qed
qed

lemma tor_body_ok:
  assumes "ms_ok (coMod s)" "uniq_ok U"
  shows "\<exists>m'. snd (tor_body U c fmt fty target vs s) = s\<lparr>coMod := m'\<rparr> \<and> ms_ok m' \<and> grows (coMod s) m'"
proof (cases "coDebug c")
  case True
  obtain fp s1 where f: "gen_debug_fmt U (fmt @ newline) (coMod s) = (fp, s1)" by (metis prod.exhaust)
  then show ?thesis using gen_debug_fmt_ok [OF assms f] True by (intro exI [of _ s1]) (simp add: tor_body_def)
next
  case False
  then show ?thesis using assms by (intro exI [of _ "coMod s"]) (simp add: tor_body_def)
qed

text \<open>A function without parameters that makes one call.\<close>

definition runs_call :: "ChopOff \<Rightarrow> gvptr \<Rightarrow> gvptr \<times> sval list \<Rightarrow> bool" where
  "runs_call s p gx \<longleftrightarrow> (\<exists>f. map_of (m_funcs (fst (coMod s))) p = Some f \<and> (\<forall>K n m. prints K (mGyhDebug s) \<longrightarrow>
     call_func K f [] n m = map_option (\<lambda>(r, m'). (SUndef, pop_frame n m')) (K (glob (fst gx)) (snd gx) n m)))"

text \<open>The pointers later stages only read.\<close>

definition same_ptrs :: "ChopOff \<Rightarrow> ChopOff \<Rightarrow> bool" where
  "same_ptrs s s' \<longleftrightarrow> mGyhQlibUid s' = mGyhQlibUid s \<and> mGyhCall s' = mGyhCall s \<and> mGyhCallGRT s' = mGyhCallGRT s \<and>
     mGyhDebug s' = mGyhDebug s \<and> mGyhCallDebugFmt s' = mGyhCallDebugFmt s \<and> mGyhCallbackDebugFmt s' = mGyhCallbackDebugFmt s \<and>
     mGyhExtreftbl s' = mGyhExtreftbl s \<and> mGyhCbstubtbl s' = mGyhCbstubtbl s"

lemma same_ptrs_refl [simp]: "same_ptrs s s"
  by (simp add: same_ptrs_def)

lemma same_ptrs_trans: "same_ptrs s s1 \<Longrightarrow> same_ptrs s1 s2 \<Longrightarrow> same_ptrs s s2"
  by (simp add: same_ptrs_def)

text \<open>Giving a function created before the body generated by \<open>tor_body\<close>.\<close>

lemma tor_installed:
  assumes "ms_ok (coMod s)" "uniq_ok U" "map_of (m_funcs (fst (coMod s))) p = Some f0" "tor_body U c fmt fty g vs s = (b, s1)"
    and "snd m0 \<le> p" "grows m0 (coMod s)" "those (map (eval [] (\<lambda>_. None)) vs) = Some xs" "\<forall>v \<in> set vs. below 0 v"
    and "coMod s' = upd_func p (setBody (snd b)) (coMod s1)" "mGyhDebug s' = mGyhDebug s1"
  shows "ms_ok (coMod s')" "grows m0 (coMod s')" "\<exists>m'. s1 = s\<lparr>coMod := m'\<rparr>" "runs_call s' p (g, xs)"
    "q < snd (coMod s) \<Longrightarrow> table_at (coMod s') q = table_at (coMod s) q" "snd (coMod s) \<le> snd (coMod s')"
proof -
  obtain m1 where m1: "s1 = s\<lparr>coMod := m1\<rparr>" "ms_ok m1" "grows (coMod s) m1"
    using tor_body_ok [OF assms(1,2), of c fmt fty g vs] assms(4) by auto
  show "\<exists>m'. s1 = s\<lparr>coMod := m'\<rparr>" using m1(1) by blast
  have nm: "f_name (setBody (snd b) f) = f_name f" for f by simp
  show "ms_ok (coMod s')" "grows m0 (coMod s')"
    unfolding assms(9) using upd_func_ok(1,2) [OF nm] m1 assms(5) grows_trans [OF assms(6) m1(3)] by simp_all
  show "q < snd (coMod s) \<Longrightarrow> table_at (coMod s') q = table_at (coMod s) q"
    using table_at_grows [OF m1(3)] by (simp add: assms(9) m1(1) table_at_def)
  show "snd (coMod s) \<le> snd (coMod s')" using m1(3) by (simp add: assms(9) m1(1) grows_def)
  have "p < snd (coMod s)" using ms_ok_bound assms(1,3) by blast
  then have "map_of (m_funcs (fst (coMod s1))) p = Some f0" using m1(1,3) assms(3) by (simp add: grows_def)
  then have "map_of (m_funcs (fst (coMod s'))) p = Some (setBody (snd b) f0)" by (simp add: assms(9) map_of_upd_func)
  moreover have "mGyhDebug s' = mGyhDebug s" using assms(10) m1(1) by simp
  ultimately show "runs_call s' p (g, xs)"
    unfolding runs_call_def fst_conv snd_conv using tor_body_exec [OF assms(4) _ assms(7,8)] by metis
qed

definition gfunctbl_ok :: "ChopOff_Config \<Rightarrow> Symtbl \<Rightarrow> ChopOff \<Rightarrow> bool" where
  "gfunctbl_ok c st s \<longleftrightarrow> (coUseGRT c \<and> coUseFCPcm c \<longrightarrow> (\<exists>vs. table_at (coMod s) (mGyhGfunctbl s) = Some vs \<and> length vs = length (mFunctbl st) \<and>
     (\<forall>(p, info) \<in> set (mFunctbl st). vs ! unat (mUid info) = VGlobal p)))"

lemma gen_gfunctbl_ok:
  assumes "ms_ok (coMod s)" "uniq_ok U" "numbered mUid (mFunctbl st)" "length (mFunctbl st) \<le> 2 ^ 32"
  shows "\<exists>m' p vs. gen_gfunctbl U st s = Inr (s\<lparr>coMod := m', mGyhGfunctbl := p\<rparr>) \<and> ms_ok m' \<and> grows (coMod s) m' \<and>
    m_funcs (fst m') = m_funcs (fst (coMod s)) \<and> p < snd m' \<and> table_at m' p = Some vs \<and> length vs = length (mFunctbl st) \<and>
    (\<forall>(p, info) \<in> set (mFunctbl st). vs ! unat (mUid info) = VGlobal p)"
proof -
  obtain vs where vs: "fill_table (length (mFunctbl st)) (map (\<lambda>(p, info). (unat (mUid info), VGlobal p)) (mFunctbl st)) = Inr vs"
      "length vs = length (mFunctbl st)" "\<forall>(p, info) \<in> set (mFunctbl st). unat (mUid info) < length (mFunctbl st) \<and> vs ! unat (mUid info) = VGlobal p"
    using numbered_fill [OF assms(3,4), of VGlobal] by blast
  obtain p s1 where t: "const_table U ''__gyh_gfunctbl__'' vs (coMod s) = (p, s1)" by (metis prod.exhaust)
  note ok = const_table_ok [OF assms(1,2) t]
  have "gen_gfunctbl U st s = Inr (s\<lparr>coMod := s1, mGyhGfunctbl := p\<rparr>)"
    unfolding gen_gfunctbl_def vs(1) bind_result_Inr t Let_def prod.case ..
  then show ?thesis using ok vs(2,3) by (intro exI [of _ s1] exI [of _ p] exI [of _ vs]) auto
qed

text \<open>The call the constructor makes.\<close>

definition ctor_call :: "ChopOff_Config \<Rightarrow> Symtbl \<Rightarrow> ChopOff \<Rightarrow> gvptr \<times> sval list" where
  "ctor_call c st s =
     (if \<not> coUseGRT c then (mGyhCtor s, [glob (mGyhQlibUid s)])
      else if \<not> coUseFCPcm c then (mGyhCtorGRT s, [glob (mGyhQlibUid s), glob (mGyhExtreftbl s), glob (mGyhCbstubtbl s)])
      else (mGyhCtorFCPcm s, [glob (mGyhQlibUid s), glob (mGyhExtreftbl s), glob (mGyhCbstubtbl s), glob (mGyhGfunctbl s),
              SInt (ucast (of_nat (length (mFunctbl st)) :: u32))]))"

lemma ctor_body_ok:
  assumes "ms_ok (coMod s)" "uniq_ok U" "numbered mUid (mFunctbl st)" "length (mFunctbl st) \<le> 2 ^ 32"
    and "\<forall>n \<in> runtime_names. \<exists>p. runtime_func (coMod s) n = Inr p"
  shows "\<exists>fmt fty g vs xs s1. ctor_body U c st s = Inr (tor_body U c fmt fty g vs s1) \<and> ms_ok (coMod s1) \<and> grows (coMod s) (coMod s1) \<and>
    m_funcs (fst (coMod s1)) = m_funcs (fst (coMod s)) \<and> same_ptrs s s1 \<and> global_ctors s1 = global_ctors s \<and> global_dtors s1 = global_dtors s \<and>
    mGyhCtorHHH s1 = mGyhCtorHHH s \<and> those (map (eval [] (\<lambda>_. None)) vs) = Some xs \<and> (\<forall>v \<in> set vs. below 0 v) \<and>
    gfunctbl_ok c st s1 \<and> (coUseGRT c \<and> coUseFCPcm c \<longrightarrow> mGyhGfunctbl s1 < snd (coMod s1)) \<and> (g, xs) = ctor_call c st s1"
proof -
  have names: "''__gyh_ctor__'' \<in> runtime_names" "''__gyh_ctor_grt__'' \<in> runtime_names" "''__gyh_ctor_fcp_cm__'' \<in> runtime_names"
    by (simp_all add: runtime_names_def guest_ll_def)
  let ?uid = "VGlobal (mGyhQlibUid s)" and ?e = "VGlobal (mGyhExtreftbl s)" and ?c = "VGlobal (mGyhCbstubtbl s)"
  consider "\<not> coUseGRT c" | "coUseGRT c" "\<not> coUseFCPcm c" | "coUseGRT c" "coUseFCPcm c" by blast
  then show ?thesis
  proof cases
    case 1
    obtain p where p: "runtime_func (coMod s) ''__gyh_ctor__'' = Inr p" using assms(5) names(1) by blast
    show ?thesis
      by (rule exI [of _ "''__g_yh_ctor__(%p)''"], rule exI [of _ "voidFn [ptrTy]"], rule exI [of _ p], rule exI [of _ "[?uid]"],
          rule exI [of _ "[glob (mGyhQlibUid s)]"], rule exI [of _ "s\<lparr>mGyhCtor := p\<rparr>"])
        (use 1 assms(1) p in \<open>simp add: ctor_body_def same_ptrs_def gfunctbl_ok_def ctor_call_def\<close>)
  next
    case 2
    obtain p where p: "runtime_func (coMod s) ''__gyh_ctor_grt__'' = Inr p" using assms(5) names(2) by blast
    show ?thesis
      by (rule exI [of _ "''__g_yh_ctor_grt__(%p, %p, %p)''"], rule exI [of _ "voidFn [ptrTy, ptrTy, ptrTy]"], rule exI [of _ p],
          rule exI [of _ "[?uid, ?e, ?c]"], rule exI [of _ "[glob (mGyhQlibUid s), glob (mGyhExtreftbl s), glob (mGyhCbstubtbl s)]"],
          rule exI [of _ "s\<lparr>mGyhCtorGRT := p\<rparr>"])
        (use 2 assms(1) p in \<open>simp add: ctor_body_def same_ptrs_def gfunctbl_ok_def ctor_call_def\<close>)
  next
    case 3
    obtain p where p: "runtime_func (coMod s) ''__gyh_ctor_fcp_cm__'' = Inr p" using assms(5) names(3) by blast
    obtain m' q vs where g: "gen_gfunctbl U st (s\<lparr>mGyhCtorFCPcm := p\<rparr>) = Inr ((s\<lparr>mGyhCtorFCPcm := p\<rparr>)\<lparr>coMod := m', mGyhGfunctbl := q\<rparr>)"
      "ms_ok m'" "grows (coMod s) m'" "m_funcs (fst m') = m_funcs (fst (coMod s))" "q < snd m'" "table_at m' q = Some vs"
      "length vs = length (mFunctbl st)" "\<forall>(p, info) \<in> set (mFunctbl st). vs ! unat (mUid info) = VGlobal p"
      using gen_gfunctbl_ok [of "s\<lparr>mGyhCtorFCPcm := p\<rparr>", OF _ assms(2-4)] assms(1) by auto
    let ?n = "ucast (of_nat (length (mFunctbl st)) :: u32)" and ?s = "(s\<lparr>mGyhCtorFCPcm := p\<rparr>)\<lparr>coMod := m', mGyhGfunctbl := q\<rparr>"
    have "gfunctbl_ok c st ?s" using g(6-8) by (auto simp: gfunctbl_ok_def)
    then show ?thesis
      by (intro exI [of _ "''__g_yh_ctor_fcp_cm__(%p, %p, %p, %p, %d)''"] exI [of _ "voidFn [ptrTy, ptrTy, ptrTy, ptrTy, i32Ty]"] exI [of _ p]
          exI [of _ "[?uid, ?e, ?c, VGlobal q, VInt 32 ?n]"]
          exI [of _ "[glob (mGyhQlibUid s), glob (mGyhExtreftbl s), glob (mGyhCbstubtbl s), glob q, SInt ?n]"] exI [of _ ?s])
        (use 3 p g(1-5) in \<open>simp add: ctor_body_def same_ptrs_def ctor_call_def\<close>)
  qed
qed

lemma runs_call_grows:
  assumes "grows (coMod s) (coMod s')" "ms_ok (coMod s)" "runs_call s p gx" "mGyhDebug s' = mGyhDebug s"
  shows "runs_call s' p gx"
proof -
  obtain f where "map_of (m_funcs (fst (coMod s))) p = Some f" using assms(3) by (auto simp: runs_call_def)
  with ms_ok_bound [OF assms(2) this] assms(1) have "map_of (m_funcs (fst (coMod s'))) p = map_of (m_funcs (fst (coMod s))) p"
    by (simp add: grows_def)
  then show ?thesis using assms(3,4) by (simp add: runs_call_def)
qed

lemma gen_ctor_ok:
  assumes "ms_ok (coMod s)" "uniq_ok U" "numbered mUid (mFunctbl st)" "length (mFunctbl st) \<le> 2 ^ 32"
    and "\<forall>n \<in> runtime_names. \<exists>p. runtime_func (coMod s) n = Inr p"
  shows "\<exists>s'. gen_ctor U H c st s = Inr s' \<and> ms_ok (coMod s') \<and> grows (coMod s) (coMod s') \<and> same_ptrs s s' \<and> gfunctbl_ok c st s' \<and>
    (coUseGRT c \<and> coUseFCPcm c \<longrightarrow> mGyhGfunctbl s' < snd (coMod s')) \<and>
    global_ctors s' = global_ctors s @ [(0, mGyhCtorHHH s')] \<and> global_dtors s' = global_dtors s \<and>
    runs_call s' (mGyhCtorHHH s') (ctor_call c st s')"
proof -
  obtain ctor m1 where f1: "new_function U (voidFn []) ExternalLinkage (''__gyh_ctor_'' @ module_uid_hex H st) (coMod s) = (ctor, m1)" by (metis prod.exhaust)
  note o1 = new_function_ok [OF assms(1,2) f1]
  let ?s1 = "s\<lparr>coMod := m1, mGyhCtorHHH := ctor\<rparr>"
  have r1: "\<forall>n \<in> runtime_names. \<exists>p. runtime_func (coMod ?s1) n = Inr p" "ms_ok (coMod ?s1)"
    using assms(5) runtime_func_grows [OF o1(2) assms(1)] o1(1) by fastforce+
  obtain fmt fty g vs xs s2 where c: "ctor_body U c st ?s1 = Inr (tor_body U c fmt fty g vs s2)" "ms_ok (coMod s2)" "grows (coMod ?s1) (coMod s2)"
      "m_funcs (fst (coMod s2)) = m_funcs (fst (coMod ?s1))" "same_ptrs ?s1 s2" "global_ctors s2 = global_ctors ?s1" "global_dtors s2 = global_dtors ?s1"
      "mGyhCtorHHH s2 = mGyhCtorHHH ?s1" "those (map (eval [] (\<lambda>_. None)) vs) = Some xs" "\<forall>v \<in> set vs. below 0 v" "gfunctbl_ok c st s2"
      "coUseGRT c \<and> coUseFCPcm c \<longrightarrow> mGyhGfunctbl s2 < snd (coMod s2)" "(g, xs) = ctor_call c st s2"
    using ctor_body_ok [OF r1(2) assms(2-4) r1(1), of c] by (elim exE conjE) (rule that)
  obtain b s3 where t: "tor_body U c fmt fty g vs s2 = (b, s3)" by (metis prod.exhaust)
  define s4 where "s4 = s3\<lparr>coMod := upd_func ctor (setBody (snd b)) (coMod s3), global_ctors := global_ctors s3 @ [(0, ctor)]\<rparr>"
  have pre: "map_of (m_funcs (fst (coMod s2))) ctor = map_of (m_funcs (fst m1)) ctor" "snd (coMod s) \<le> ctor" "grows m1 (coMod s2)"
      "coMod s4 = upd_func ctor (setBody (snd b)) (coMod s3)" "mGyhDebug s4 = mGyhDebug s3"
    using o1(3) c(3,4) by (simp_all add: s4_def)
  note i = tor_installed [OF c(2) assms(2) trans [OF pre(1) o1(6)] t pre(2) grows_trans [OF o1(2) pre(3)] c(9,10) pre(4,5)]
  obtain m3 where m3: "s3 = s2\<lparr>coMod := m3\<rparr>" using i(3) by blast
  have "gen_ctor U H c st s = Inr s4"
    unfolding gen_ctor_def f1 Let_def prod.case c(1) t bind_result_Inr s4_def ..
  moreover have "same_ptrs s s4" using c(5) by (simp add: same_ptrs_def s4_def m3)
  moreover have gt: "mGyhGfunctbl s4 = mGyhGfunctbl s2" "snd (coMod s2) \<le> snd (coMod s4)"
    using i(6) by (simp_all add: s4_def m3)
  moreover have "coUseGRT c \<and> coUseFCPcm c \<longrightarrow> mGyhGfunctbl s4 < snd (coMod s4)" using c(12) gt by auto
  moreover have "gfunctbl_ok c st s4"
    using c(11,12) i(5) [of "mGyhGfunctbl s2"] gt(1) by (auto simp: gfunctbl_ok_def)
  moreover have "ctor_call c st s4 = (g, xs)" by (simp add: c(13) ctor_call_def s4_def m3)
  ultimately show ?thesis using i(1,2,4) c(6-8,12) by (intro exI [of _ s4]) (simp add: s4_def m3)
qed

lemma gen_dtor_ok:
  assumes "ms_ok (coMod s)" "uniq_ok U" "\<exists>p. runtime_func (coMod s) ''__gyh_dtor__'' = Inr p"
  shows "\<exists>s'. gen_dtor U H c st s = Inr s' \<and> ms_ok (coMod s') \<and> grows (coMod s) (coMod s') \<and> same_ptrs s s' \<and>
    mGyhGfunctbl s' = mGyhGfunctbl s \<and> mGyhCtorHHH s' = mGyhCtorHHH s \<and> ctor_call c st s' = ctor_call c st s \<and>
    global_ctors s' = global_ctors s \<and> global_dtors s' = global_dtors s @ [(0, mGyhDtorHHH s')] \<and>
    runs_call s' (mGyhDtorHHH s') (mGyhDtor s', [glob (mGyhQlibUid s')])"
proof -
  obtain dtor m1 where f1: "new_function U (voidFn []) ExternalLinkage (''__gyh_dtor_'' @ module_uid_hex H st) (coMod s) = (dtor, m1)" by (metis prod.exhaust)
  note o1 = new_function_ok [OF assms(1,2) f1]
  obtain q where q: "runtime_func m1 ''__gyh_dtor__'' = Inr q" using assms(3) runtime_func_grows [OF o1(2) assms(1)] by blast
  let ?s2 = "s\<lparr>coMod := m1, mGyhDtorHHH := dtor, mGyhDtor := q\<rparr>" and ?vs = "[VGlobal (mGyhQlibUid s)]"
  obtain b s3 where t: "tor_body U c ''__g_yh_dtor__(%p)'' (voidFn [ptrTy]) q ?vs ?s2 = (b, s3)" by (metis prod.exhaust)
  define s4 where "s4 = s3\<lparr>coMod := upd_func dtor (setBody (snd b)) (coMod s3), global_dtors := global_dtors s3 @ [(0, dtor)]\<rparr>"
  have pre: "ms_ok (coMod ?s2)" "map_of (m_funcs (fst (coMod ?s2))) dtor = map_of (m_funcs (fst m1)) dtor" "snd (coMod s) \<le> dtor" "grows (coMod s) (coMod ?s2)"
      "those (map (eval [] (\<lambda>_. None)) ?vs) = Some [glob (mGyhQlibUid s)]" "\<forall>v \<in> set ?vs. below 0 v"
      "coMod s4 = upd_func dtor (setBody (snd b)) (coMod s3)" "mGyhDebug s4 = mGyhDebug s3"
    using o1(1-3) by (simp_all add: s4_def)
  note i = tor_installed [OF pre(1) assms(2) trans [OF pre(2) o1(6)] t pre(3-8)]
  obtain m3 where m3: "s3 = ?s2\<lparr>coMod := m3\<rparr>" using i(3) by blast
  have "gen_dtor U H c st s = Inr s4"
    unfolding gen_dtor_def f1 Let_def prod.case q t bind_result_Inr s4_def ..
  then show ?thesis using i(1,2,4) by (intro exI [of _ s4]) (simp add: s4_def m3 same_ptrs_def ctor_call_def)
qed

lemma gen_ctor_dtor_ok:
  assumes "ms_ok (coMod s)" "uniq_ok U" "numbered mUid (mFunctbl st)" "length (mFunctbl st) \<le> 2 ^ 32"
    and "\<forall>n \<in> runtime_names. \<exists>p. runtime_func (coMod s) n = Inr p"
  shows "\<exists>s'. gen_ctor_dtor U H c st s = Inr s' \<and> ms_ok (coMod s') \<and> grows (coMod s) (coMod s') \<and> same_ptrs s s' \<and> gfunctbl_ok c st s' \<and>
    global_ctors s' = global_ctors s @ [(0, mGyhCtorHHH s')] \<and> global_dtors s' = global_dtors s @ [(0, mGyhDtorHHH s')] \<and>
    runs_call s' (mGyhCtorHHH s') (ctor_call c st s') \<and> runs_call s' (mGyhDtorHHH s') (mGyhDtor s', [glob (mGyhQlibUid s')])"
proof -
  obtain s1 where s1: "gen_ctor U H c st s = Inr s1" "ms_ok (coMod s1)" "grows (coMod s) (coMod s1)" "same_ptrs s s1" "gfunctbl_ok c st s1"
      "coUseGRT c \<and> coUseFCPcm c \<longrightarrow> mGyhGfunctbl s1 < snd (coMod s1)" "global_ctors s1 = global_ctors s @ [(0, mGyhCtorHHH s1)]"
      "global_dtors s1 = global_dtors s" "runs_call s1 (mGyhCtorHHH s1) (ctor_call c st s1)"
    using gen_ctor_ok [OF assms, of H c] by (elim exE conjE) (rule that)
  have "''__gyh_dtor__'' \<in> runtime_names" by (simp add: runtime_names_def guest_ll_def)
  then have "\<exists>p. runtime_func (coMod s1) ''__gyh_dtor__'' = Inr p"
    using assms(5) runtime_func_grows [OF s1(3) assms(1)] by blast
  from gen_dtor_ok [OF s1(2) assms(2) this, of H c st]
  obtain s2 where s2: "gen_dtor U H c st s1 = Inr s2" "ms_ok (coMod s2)" "grows (coMod s1) (coMod s2)" "same_ptrs s1 s2"
      "mGyhGfunctbl s2 = mGyhGfunctbl s1" "mGyhCtorHHH s2 = mGyhCtorHHH s1" "ctor_call c st s2 = ctor_call c st s1"
      "global_ctors s2 = global_ctors s1" "global_dtors s2 = global_dtors s1 @ [(0, mGyhDtorHHH s2)]"
      "runs_call s2 (mGyhDtorHHH s2) (mGyhDtor s2, [glob (mGyhQlibUid s2)])"
    by (elim exE conjE) (rule that)
  have "mGyhDebug s2 = mGyhDebug s1" using s2(4) by (simp add: same_ptrs_def)
  then have "runs_call s2 (mGyhCtorHHH s2) (ctor_call c st s2)"
    using runs_call_grows [OF s2(3) s1(2,9)] s2(6,7) by simp
  moreover have "gfunctbl_ok c st s2"
    using s1(5,6) s2(5) table_at_grows [OF s2(3)] by (auto simp: gfunctbl_ok_def)
  ultimately show ?thesis
    using s1 s2 grows_trans [OF s1(3) s2(3)] same_ptrs_trans [OF s1(4) s2(4)] by (intro exI [of _ s2]) (simp add: gen_ctor_dtor_def)
qed

section \<open>The whole stage\<close>

text \<open>Changing functions of the table only.\<close>

definition recodes :: "gvptr set \<Rightarrow> modstate \<Rightarrow> modstate \<Rightarrow> bool" where
  "recodes P s s' \<longleftrightarrow> snd s' = snd s \<and> all_values (fst s') = all_values (fst s) \<and> m_gvars (fst s') = m_gvars (fst s) \<and>
     (\<forall>p. (map_of (m_funcs (fst s')) p = None) = (map_of (m_funcs (fst s)) p = None)) \<and>
     (\<forall>p. p \<notin> P \<longrightarrow> map_of (m_funcs (fst s')) p = map_of (m_funcs (fst s)) p)"

lemma recodes_runtime: "recodes P s s' \<Longrightarrow> runtime_func s' n = runtime_func s n"
  using getNamedValue_same_values [of "fst s'" "fst s"]
  by (cases "getNamedValue (fst s) n") (simp_all add: recodes_def runtime_func_def getFunction_def)

lemma recodes_ms_ok: "recodes P s s' \<Longrightarrow> ms_ok s' = ms_ok s"
  by (rule ms_ok_same_values) (simp_all add: recodes_def)

lemma recodes_table: "recodes P s s' \<Longrightarrow> table_at s' p = table_at s p"
  by (simp add: recodes_def table_at_def)

lemma recodes_cb_stub: "recodes P s s' \<Longrightarrow> p \<notin> P \<Longrightarrow> is_cb_stub c t s' p hs = is_cb_stub c t s p hs"
  by (simp add: recodes_def is_cb_stub_def)

lemma recodes_trans: "recodes P s s1 \<Longrightarrow> recodes P s1 s2 \<Longrightarrow> recodes P s s2"
  by (simp add: recodes_def)

text \<open>The code a function has afterwards: a stub when it is taken, else its own; with prefix data where
  they are asked for.\<close>

definition chopped :: "ChopOff_Config \<Rightarrow> ChopOff \<Rightarrow> BwList \<Rightarrow> Symtbl \<Rightarrow> CbStubs \<Rightarrow> modul \<Rightarrow> gvptr \<Rightarrow> func \<Rightarrow> func \<Rightarrow> bool" where
  "chopped c s bw st cbs m p f f' \<longleftrightarrow>
     (case map_of (mFunctbl st) p of
       Some info \<Rightarrow> if taken c bw m p then is_gstub c s st cbs info (prefixed c bw (mFunctbl st) p f) f'
                    else f' = prefixed c bw (mFunctbl st) p f
     | None \<Rightarrow> f' = f)"

lemma map_of_filter_fst: "distinct (map fst es) \<Longrightarrow> map_of (filter (\<lambda>e. P (fst e)) es) p = (if P p then map_of es p else None)"
  by (induction es) (auto simp: map_of_eq_None_iff)

lemma chop_steps_ok:
  assumes wf: "symtbl_wf st" and fn: "\<forall>(p, info) \<in> set (mFunctbl st). map_of (m_funcs (fst (coMod s))) p \<noteq> None"
    and cb: "\<forall>(h, si) \<in> set (mCallbackStubs st). map_of cbs h = Some (g h)"
  shows "\<exists>m1 m' bs. calc_benefits c bw st (coMod s) = (m1, bs,
      map fst (filter (\<lambda>e. chop_bw bw (fst e) = Some True \<and> \<not> taken c bw (fst (coMod s)) (fst e)) (mFunctbl st))) \<and>
    chop_gfuncs c st cbs bs (s\<lparr>coMod := m1\<rparr>) = Inr (s\<lparr>coMod := m'\<rparr>) \<and> recodes (fst ` set (mFunctbl st)) (coMod s) m' \<and>
    (\<forall>p f. map_of (m_funcs (fst (coMod s))) p = Some f \<longrightarrow>
      (\<exists>f'. map_of (m_funcs (fst m')) p = Some f' \<and> chopped c s bw st cbs (fst (coMod s)) p f f'))"
proof -
  let ?es = "mFunctbl st" and ?m = "coMod s"
  let ?bs = "filter (\<lambda>e. taken c bw (fst ?m) (fst e)) ?es"
  have d: "distinct (map fst ?es)" using wf by (auto simp: symtbl_wf_def numbered_def dest: map_sorted_distinct)
  have "\<forall>e \<in> set ?es. map_of (m_funcs (fst ?m)) (fst e) \<noteq> None" using fn by auto
  from calc_benefits_fold [OF this d, of c bw "[]" "[]"] obtain m1 where
    m1: "calc_benefits c bw st ?m = (m1, ?bs, map fst (filter (\<lambda>e. chop_bw bw (fst e) = Some True \<and> \<not> taken c bw (fst ?m) (fst e)) ?es))"
      "same_code ?m m1" "\<forall>q. map_of (m_funcs (fst m1)) q = map_option (prefixed c bw ?es q) (map_of (m_funcs (fst ?m)) q)"
    by (auto simp: calc_benefits_def)
  have pre: "\<forall>(p, info) \<in> set ?bs. map_of (m_funcs (fst (coMod (s\<lparr>coMod := m1\<rparr>)))) p \<noteq> None \<and> mStubType info \<in> fst ` set (mCallingStubs st) \<and>
      (\<forall>h \<in> set (mCbStubArgs info). map_of cbs h = Some (g h))"
  proof (clarsimp, intro conjI ballI)
    fix p info assume pi: "(p, info) \<in> set ?es"
    have e: "entry_ok st info" using wf pi by (auto simp: symtbl_wf_def)
    show "\<exists>y. map_of (m_funcs (fst m1)) p = Some y" using fn pi m1(3) by auto
    show "mStubType info \<in> fst ` set (mCallingStubs st)" using e by (simp add: entry_ok_def)
    fix h assume "h \<in> set (mCbStubArgs info)"
    then show "map_of cbs h = Some (g h)" using e cb by (force simp: entry_ok_def)
  qed
  have "distinct (map fst ?bs)" using d by (simp add: distinct_map_filter)
  from chop_gfuncs_ok [OF pre this, of c]
  have "\<exists>m'. chop_gfuncs c st cbs ?bs (s\<lparr>coMod := m1\<rparr>) = Inr (s\<lparr>coMod := m'\<rparr>) \<and> snd m' = snd m1 \<and> all_values (fst m') = all_values (fst m1) \<and>
      m_gvars (fst m') = m_gvars (fst m1) \<and> dom (map_of (m_funcs (fst m'))) = dom (map_of (m_funcs (fst m1))) \<and>
      (\<forall>p f. map_of (m_funcs (fst m1)) p = Some f \<longrightarrow> (\<exists>f'. map_of (m_funcs (fst m')) p = Some f' \<and>
        (case map_of ?bs p of None \<Rightarrow> f' = f | Some info \<Rightarrow> is_gstub c s st cbs info f f')))"
    unfolding is_gstub_coMod by simp
  then obtain m' where m': "chop_gfuncs c st cbs ?bs (s\<lparr>coMod := m1\<rparr>) = Inr (s\<lparr>coMod := m'\<rparr>)" "snd m' = snd m1" "all_values (fst m') = all_values (fst m1)"
      "m_gvars (fst m') = m_gvars (fst m1)" "dom (map_of (m_funcs (fst m'))) = dom (map_of (m_funcs (fst m1)))"
      "\<forall>p f. map_of (m_funcs (fst m1)) p = Some f \<longrightarrow> (\<exists>f'. map_of (m_funcs (fst m')) p = Some f' \<and>
        (case map_of ?bs p of None \<Rightarrow> f' = f | Some info \<Rightarrow> is_gstub c s st cbs info f f'))"
    by blast
  have ch: "\<exists>f'. map_of (m_funcs (fst m')) p = Some f' \<and> chopped c s bw st cbs (fst ?m) p f f'" if "map_of (m_funcs (fst ?m)) p = Some f" for p f
  proof -
    have "map_of (m_funcs (fst m1)) p = Some (prefixed c bw ?es p f)" using m1(3) that by simp
    from m'(6) [rule_format, OF this] show ?thesis
      unfolding map_of_filter_fst [OF d] by (auto simp: chopped_def prefixed_def split: option.splits if_splits)
  qed
  have av: "all_values (fst m') = all_values (fst ?m)" using m'(3) m1(2) by (simp add: same_code_def)
  have dm: "(map_of (m_funcs (fst m')) p = None) = (map_of (m_funcs (fst ?m)) p = None)" for p
    using arg_cong [OF m'(5), of "\<lambda>D. p \<in> D"] m1(3)
    by (cases "map_of (m_funcs (fst m')) p"; cases "map_of (m_funcs (fst ?m)) p") (simp_all add: dom_def)
  have "map_of (m_funcs (fst m')) p = map_of (m_funcs (fst ?m)) p" if "p \<notin> fst ` set ?es" for p
  proof (cases "map_of (m_funcs (fst ?m)) p")
    case None
    then show ?thesis using dm by simp
  next
    case (Some f)
    have "map_of ?es p = None" using that by (simp add: map_of_eq_None_iff)
    then show ?thesis using ch [OF Some] Some by (simp add: chopped_def)
  qed
  then have "recodes (fst ` set ?es) ?m m'"
    using m'(2-4) m1(2) dm av by (simp add: recodes_def same_code_def)
  with m1(1) m'(1) ch show ?thesis by blast
qed


text \<open>The tables of global references, by number.\<close>

definition grt_ok :: "Symtbl \<Rightarrow> CbStubs \<Rightarrow> ChopOff \<Rightarrow> bool" where
  "grt_ok st cbs s \<longleftrightarrow> (\<exists>cb ext. table_at (coMod s) (mGyhCbstubtbl s) = Some cb \<and> table_at (coMod s) (mGyhExtreftbl s) = Some ext \<and>
     (\<forall>(h, si) \<in> set (mCallbackStubs st). \<exists>p. map_of cbs h = Some p \<and> unat (sUid si) < length cb \<and> cb ! unat (sUid si) = VGlobal p) \<and>
     (\<forall>(r, uid) \<in> set (mGreftbl st). unat uid < length ext \<and> ext ! unat uid = VGlobal r))"

lemma chop_init_ok:
  assumes "ms_ok m" "uniq_ok U" "runtime_names \<inter> set (value_names (fst m)) = {}"
  shows "\<exists>s. chop_init U H c st m = Inr s \<and> ms_ok (coMod s) \<and> grows m (coMod s) \<and> global_ctors s = [] \<and> global_dtors s = [] \<and>
    (\<forall>n \<in> runtime_names. \<exists>p. runtime_func (coMod s) n = Inr p)"
proof -
  let ?s0 = "ChopOff_new (inject_module U m)"
  have coMod0: "coMod ?s0 = inject_module U m" by (simp add: ChopOff_new_def)
  note o0 = inject_module_ok [OF assms(1-3)]
  have in_names: "''__gyh_debug__'' \<in> runtime_names" "''__gyh_call__'' \<in> runtime_names" "''__gyh_callback_return__'' \<in> runtime_names"
    "''__gyh_call_grt__'' \<in> runtime_names" by (simp_all add: runtime_names_def guest_ll_def)
  obtain dbg where dbg: "runtime_func (coMod ?s0) ''__gyh_debug__'' = Inr dbg" using o0(3) [OF in_names(1)] unfolding coMod0 by blast
  obtain f1 f2 m1 where d: "gen_debug U c ?s0 = Inr (?s0\<lparr>coMod := m1, mGyhDebug := dbg, mGyhCallDebugFmt := f1, mGyhCallbackDebugFmt := f2\<rparr>)"
      "ms_ok m1" "grows (coMod ?s0) m1"
    using gen_debug_ok [OF _ assms(2) dbg, of c] o0(1) coMod0 by (metis (no_types))
  define s1 where "s1 = ?s0\<lparr>coMod := m1, mGyhDebug := dbg, mGyhCallDebugFmt := f1, mGyhCallbackDebugFmt := f2\<rparr>"
  have s1: "m1 = coMod s1" by (simp add: s1_def)
  obtain u m2 where u: "gen_uid U H st s1 = s1\<lparr>coMod := m2, mGyhQlibUid := u\<rparr>" "ms_ok m2" "grows m1 m2"
    using gen_uid_ok [of s1 U H st, folded s1, OF d(2) assms(2)] by (elim exE conjE) (rule that)
  have g2: "grows (inject_module U m) m2" using d(3) u(3) unfolding coMod0 by (rule grows_trans)
  have rt: "\<exists>p. runtime_func m2 n = Inr p" if "n \<in> runtime_names" for n
    using o0(3) [OF that] runtime_func_grows [OF g2 o0(1)] by blast
  obtain call cbret where call: "runtime_func m2 ''__gyh_call__'' = Inr call" "runtime_func m2 ''__gyh_callback_return__'' = Inr cbret"
    using rt in_names by blast
  obtain callgrt where grt: "(if coUseGRT c then runtime_func m2 ''__gyh_call_grt__'' else Inr 0) = Inr callgrt"
    using rt [OF in_names(4)] by (cases "coUseGRT c") auto
  define s2 where "s2 = (s1\<lparr>coMod := m2, mGyhQlibUid := u\<rparr>)\<lparr>mGyhCall := call, mGyhCallbackReturn := cbret, mGyhCallGRT := callgrt\<rparr>"
  have s2: "coMod s2 = m2" "global_ctors s2 = []" "global_dtors s2 = []" by (simp_all add: s2_def s1_def ChopOff_new_def)
  have "coMod (s1\<lparr>coMod := m2, mGyhQlibUid := u\<rparr>) = m2" by simp
  then have "chop_init U H c st m = Inr s2"
    unfolding chop_init_def d(1) bind_result_Inr s1_def [symmetric] Let_def u(1) s2_def by (simp only: call grt bind_result_Inr)
  then show ?thesis using u(2) grows_trans [OF o0(2) g2] rt s2 by (intro exI [of _ s2]) simp
qed

lemma chop_stubs_ok:
  assumes "ms_ok (coMod s)" "uniq_ok U" "symtbl_wf st" "length (mCallbackStubs st) \<le> 2 ^ 32" "length (mGreftbl st) \<le> 2 ^ 32"
  shows "\<exists>s' cbs. chop_stubs U H c st s = Inr (s', cbs) \<and> ms_ok (coMod s') \<and> grows (coMod s) (coMod s') \<and>
    global_ctors s' = global_ctors s \<and> global_dtors s' = global_dtors s \<and>
    (\<forall>(h, si) \<in> set (mCallbackStubs st). \<exists>p. map_of cbs h = Some p \<and> snd (coMod s) \<le> p \<and> p < snd (coMod s') \<and> is_cb_stub c s' (coMod s') p (h, si)) \<and>
    (coUseGRT c \<longrightarrow> grt_ok st cbs s' \<and> mGyhCbstubtbl s' < snd (coMod s') \<and> mGyhExtreftbl s' < snd (coMod s'))"
proof -
  have srt: "map_sorted (mCallbackStubs st)" using assms(3) by (simp add: symtbl_wf_def numbered_def)
  obtain m1 cbs where cb: "gen_cb_stubs U H c st s = (s\<lparr>coMod := m1\<rparr>, cbs)" "ms_ok m1" "grows (coMod s) m1"
      "\<forall>(h, si) \<in> set (mCallbackStubs st). \<exists>p. map_of cbs h = Some p \<and> snd (coMod s) \<le> p \<and> p < snd m1 \<and> is_cb_stub c s m1 p (h, si)"
    using gen_cb_stubs_ok [OF assms(1,2) srt, of H c] by (elim exE conjE) (rule that)
  show ?thesis
  proof (cases "coUseGRT c")
    case False
    then show ?thesis using cb by (intro exI [of _ "s\<lparr>coMod := m1\<rparr>"] exI [of _ cbs]) (simp add: chop_stubs_def)
  next
    case True
    let ?g = "\<lambda>h. the (map_of cbs h)" and ?s1 = "s\<lparr>coMod := m1\<rparr>"
    have g: "\<forall>(h, si) \<in> set (mCallbackStubs st). map_of cbs h = Some (?g h)" using cb(4) by fastforce
    have "ms_ok (coMod ?s1)" using cb(2) by simp
    from gen_grt_ok [OF this assms(2-5) g]
    obtain m2 p q ct ext where r: "gen_grt U st cbs ?s1 = Inr (?s1\<lparr>coMod := m2, mGyhCbstubtbl := p, mGyhExtreftbl := q\<rparr>)" "ms_ok m2" "grows (coMod ?s1) m2"
        "table_at m2 p = Some ct" "table_at m2 q = Some ext" "p < snd m2" "q < snd m2"
        "\<forall>(h, si) \<in> set (mCallbackStubs st). unat (sUid si) < length ct \<and> ct ! unat (sUid si) = VGlobal (?g h)"
        "\<forall>(r, uid) \<in> set (mGreftbl st). unat uid < length ext \<and> ext ! unat uid = VGlobal r"
      by (elim exE conjE) (rule that)
    define s2 where "s2 = ?s1\<lparr>coMod := m2, mGyhCbstubtbl := p, mGyhExtreftbl := q\<rparr>"
    have gr: "grows m1 m2" using r(3) by simp
    have "\<exists>p. map_of cbs h = Some p \<and> snd (coMod s) \<le> p \<and> p < snd m2 \<and> is_cb_stub c s2 m2 p (h, si)" if "(h, si) \<in> set (mCallbackStubs st)" for h si
    proof -
      from cb(4) that obtain p where p: "map_of cbs h = Some p" "snd (coMod s) \<le> p" "p < snd m1" "is_cb_stub c s m1 p (h, si)" by blast
      have "cb_stub_body c s2 = cb_stub_body c s" by (intro ext) (simp add: cb_stub_body_def s2_def)
      then have "is_cb_stub c s2 m2 p (h, si)" using is_cb_stub_grows [OF gr p(3,4)] by (simp add: is_cb_stub_def)
      moreover have "p < snd m2" using p(3) gr by (simp add: grows_def)
      ultimately show ?thesis using p(1,2) by blast
    qed
    moreover have "grt_ok st cbs s2"
      unfolding grt_ok_def by (rule exI [of _ ct], rule exI [of _ ext]) (use r(4,5,8,9) g in \<open>fastforce simp: s2_def\<close>)
    moreover have "chop_stubs U H c st s = Inr (s2, cbs)" using r(1) True by (simp add: chop_stubs_def cb(1) s2_def)
    ultimately show ?thesis
      using r(2,6,7) grows_trans [OF cb(3) gr] by (intro exI [of _ s2] exI [of _ cbs]) (auto simp: s2_def)
  qed
qed

text \<open>What the stage expects of the module and of the symbol table.\<close>

definition chop_ready :: "uniquer \<Rightarrow> Symtbl \<Rightarrow> modstate \<Rightarrow> bool" where
  "chop_ready U st m \<longleftrightarrow> ms_ok m \<and> uniq_ok U \<and> runtime_names \<inter> set (value_names (fst m)) = {} \<and> symtbl_wf st \<and>
     (\<forall>(p, info) \<in> set (mFunctbl st). map_of (m_funcs (fst m)) p \<noteq> None) \<and>
     length (mCallbackStubs st) \<le> 2 ^ 32 \<and> length (mGreftbl st) \<le> 2 ^ 32 \<and> length (mFunctbl st) \<le> 2 ^ 32"

text \<open>The global values of the module afterwards, and the tables and constructors.\<close>

definition chop_frame :: "ChopOff_Config \<Rightarrow> BwList \<Rightarrow> Symtbl \<Rightarrow> CbStubs \<Rightarrow> modstate \<Rightarrow> ChopOff \<Rightarrow> bool" where
  "chop_frame c bw st cbs m s \<longleftrightarrow>
     (\<forall>p f. map_of (m_funcs (fst m)) p = Some f \<longrightarrow>
        (\<exists>f'. map_of (m_funcs (fst (coMod s))) p = Some f' \<and> chopped c s bw st cbs (fst m) p f f')) \<and>
     (\<forall>p g. map_of (m_gvars (fst m)) p = Some g \<longrightarrow> map_of (m_gvars (fst (coMod s))) p = Some g) \<and>
     (\<forall>(h, si) \<in> set (mCallbackStubs st). \<exists>p. map_of cbs h = Some p \<and> is_cb_stub c s (coMod s) p (h, si))"

definition chop_registers :: "ChopOff_Config \<Rightarrow> Symtbl \<Rightarrow> CbStubs \<Rightarrow> ChopOff \<Rightarrow> bool" where
  "chop_registers c st cbs s \<longleftrightarrow> (coUseGRT c \<longrightarrow> grt_ok st cbs s) \<and> gfunctbl_ok c st s \<and>
     global_ctors s = [(0, mGyhCtorHHH s)] \<and> global_dtors s = [(0, mGyhDtorHHH s)] \<and>
     runs_call s (mGyhCtorHHH s) (ctor_call c st s) \<and> runs_call s (mGyhDtorHHH s) (mGyhDtor s, [glob (mGyhQlibUid s)])"

lemma taken_cong: "map_of (m_funcs m') p = map_of (m_funcs m) p \<Longrightarrow> taken c bw m' p = taken c bw m p"
  by (simp add: taken_def)

lemma chopped_cong:
  assumes "same_ptrs s s'" "map_of (m_funcs m') p = map_of (m_funcs m) p"
  shows "chopped c s' bw st cbs m' p f f' = chopped c s bw st cbs m p f f'"
proof -
  have "is_gstub c s' st cbs info g f' = is_gstub c s st cbs info g f'" for info g
    using assms(1) by (intro is_gstub_cong) (simp_all add: same_ptrs_def)
  then show ?thesis using assms(2) by (simp add: chopped_def taken_cong [OF assms(2)] split: option.splits)
qed

lemma is_cb_stub_ptrs: "same_ptrs s s' \<Longrightarrow> is_cb_stub c s' m p hs = is_cb_stub c s m p hs"
proof -
  assume "same_ptrs s s'"
  then have "cb_stub_body c s' = cb_stub_body c s" by (intro ext) (simp add: cb_stub_body_def same_ptrs_def)
  then show ?thesis by (simp add: is_cb_stub_def)
qed

lemma ms_ok_bound_gvar: "ms_ok s \<Longrightarrow> map_of (m_gvars (fst s)) p = Some g \<Longrightarrow> p < snd s"
  by (force simp: ms_ok_def addrs_def dest: map_of_SomeD)

lemma frame_after_tables:
  assumes gr: "grows m (coMod s2)" and ok: "ms_ok m" and sp: "same_ptrs s2 s4" and rc: "recodes P (coMod s2) m3" and g4: "grows m3 (coMod s4)"
    and P: "\<forall>p \<in> P. p < snd m"
    and cb: "\<forall>(h, si) \<in> set (mCallbackStubs st). \<exists>p. map_of cbs h = Some p \<and> snd m \<le> p \<and> p < snd (coMod s2) \<and> is_cb_stub c s2 (coMod s2) p (h, si)"
    and ch: "\<forall>p f. map_of (m_funcs (fst (coMod s2))) p = Some f \<longrightarrow>
      (\<exists>f'. map_of (m_funcs (fst m3)) p = Some f' \<and> chopped c s2 bw st cbs (fst (coMod s2)) p f f')"
  shows "chop_frame c bw st cbs m s4"
  unfolding chop_frame_def
proof (intro conjI allI impI)
  have sz: "snd m \<le> snd (coMod s2)" "snd m3 = snd (coMod s2)" using gr rc by (simp_all add: grows_def recodes_def)
  show "\<exists>f'. map_of (m_funcs (fst (coMod s4))) p = Some f' \<and> chopped c s4 bw st cbs (fst m) p f f'" if f: "map_of (m_funcs (fst m)) p = Some f" for p f
  proof -
    have b: "p < snd m" by (rule ms_ok_bound [OF ok f])
    then have e: "map_of (m_funcs (fst (coMod s2))) p = map_of (m_funcs (fst m)) p" using gr by (simp add: grows_def)
    from ch [rule_format, OF trans [OF e f]] obtain f' where f': "map_of (m_funcs (fst m3)) p = Some f'" "chopped c s2 bw st cbs (fst (coMod s2)) p f f'" by blast
    have "map_of (m_funcs (fst (coMod s4))) p = Some f'" using f'(1) g4 b sz by (simp add: grows_def)
    then show ?thesis using f'(2) chopped_cong [OF sp e [symmetric]] by blast
  qed
  show "map_of (m_gvars (fst (coMod s4))) p = Some g" if g: "map_of (m_gvars (fst m)) p = Some g" for p g
    using ms_ok_bound_gvar [OF ok g] g gr rc g4 by (simp add: grows_def recodes_def)
  show "\<forall>(h, si) \<in> set (mCallbackStubs st). \<exists>p. map_of cbs h = Some p \<and> is_cb_stub c s4 (coMod s4) p (h, si)"
  proof clarify
    fix h si assume "(h, si) \<in> set (mCallbackStubs st)"
    with cb obtain p where p: "map_of cbs h = Some p" "snd m \<le> p" "p < snd (coMod s2)" "is_cb_stub c s2 (coMod s2) p (h, si)" by blast
    have "p \<notin> P" using P p(2) by auto
    then have "is_cb_stub c s2 m3 p (h, si)" using recodes_cb_stub [OF rc] p(4) by simp
    then have "is_cb_stub c s2 (coMod s4) p (h, si)" using is_cb_stub_grows [OF g4] p(3) sz(2) by simp
    then show "\<exists>p. map_of cbs h = Some p \<and> is_cb_stub c s4 (coMod s4) p (h, si)" using p(1) is_cb_stub_ptrs [OF sp] by blast
  qed
qed

lemma grt_ok_after:
  assumes "grt_ok st cbs s2" "mGyhCbstubtbl s2 < snd (coMod s2)" "mGyhExtreftbl s2 < snd (coMod s2)" "same_ptrs s2 s4"
    "recodes P (coMod s2) m3" "grows m3 (coMod s4)"
  shows "grt_ok st cbs s4"
proof -
  have "snd m3 = snd (coMod s2)" using assms(5) by (simp add: recodes_def)
  then have "table_at (coMod s4) q = table_at (coMod s2) q" if "q < snd (coMod s2)" for q
    using that table_at_grows [OF assms(6)] recodes_table [OF assms(5)] by simp
  then have "table_at (coMod s4) (mGyhCbstubtbl s4) = table_at (coMod s2) (mGyhCbstubtbl s2)" "table_at (coMod s4) (mGyhExtreftbl s4) = table_at (coMod s2) (mGyhExtreftbl s2)"
    using assms(2-4) by (simp_all add: same_ptrs_def)
  then show ?thesis using assms(1) by (simp add: grt_ok_def)
qed

lemma chop_off_spec:
  assumes "chop_ready U st m"
  shows "\<exists>s cbs. chop_off U H c bw st m =
      Inr (s, map fst (filter (\<lambda>e. chop_bw bw (fst e) = Some True \<and> \<not> taken c bw (fst m) (fst e)) (mFunctbl st))) \<and>
    chop_frame c bw st cbs m s \<and> chop_registers c st cbs s \<and> ms_ok (coMod s)"
proof -
  have r: "ms_ok m" "uniq_ok U" "runtime_names \<inter> set (value_names (fst m)) = {}" "symtbl_wf st" "length (mCallbackStubs st) \<le> 2 ^ 32"
    "length (mGreftbl st) \<le> 2 ^ 32" "length (mFunctbl st) \<le> 2 ^ 32" "\<forall>(p, info) \<in> set (mFunctbl st). map_of (m_funcs (fst m)) p \<noteq> None"
    using assms by (simp_all add: chop_ready_def)
  obtain s1 where s1: "chop_init U H c st m = Inr s1" "ms_ok (coMod s1)" "grows m (coMod s1)" "global_ctors s1 = []" "global_dtors s1 = []"
      "\<forall>n \<in> runtime_names. \<exists>p. runtime_func (coMod s1) n = Inr p"
    using chop_init_ok [OF r(1-3), of H c st] by (elim exE conjE) (rule that)
  obtain s2 cbs where s2: "chop_stubs U H c st s1 = Inr (s2, cbs)" "ms_ok (coMod s2)" "grows (coMod s1) (coMod s2)"
      "global_ctors s2 = global_ctors s1" "global_dtors s2 = global_dtors s1"
      "\<forall>(h, si) \<in> set (mCallbackStubs st). \<exists>p. map_of cbs h = Some p \<and> snd (coMod s1) \<le> p \<and> p < snd (coMod s2) \<and> is_cb_stub c s2 (coMod s2) p (h, si)"
      "coUseGRT c \<longrightarrow> grt_ok st cbs s2 \<and> mGyhCbstubtbl s2 < snd (coMod s2) \<and> mGyhExtreftbl s2 < snd (coMod s2)"
    using chop_stubs_ok [OF s1(2) r(2,4-6), of H c] by (elim exE conjE) (rule that)
  have g2: "grows m (coMod s2)" using s1(3) s2(3) by (rule grows_trans)
  have same: "map_of (m_funcs (fst (coMod s2))) p = map_of (m_funcs (fst m)) p" if "(p, info) \<in> set (mFunctbl st)" for p info
    using that r(8) g2 ms_ok_bound [OF r(1)] by (fastforce simp: grows_def)
  have fn: "\<forall>(p, info) \<in> set (mFunctbl st). map_of (m_funcs (fst (coMod s2))) p \<noteq> None" using r(8) same by fastforce
  have cb: "\<forall>(h, si) \<in> set (mCallbackStubs st). map_of cbs h = Some (the (map_of cbs h))" using s2(6) by fastforce
  obtain m1 m3 bs where s3: "calc_benefits c bw st (coMod s2) = (m1, bs,
        map fst (filter (\<lambda>e. chop_bw bw (fst e) = Some True \<and> \<not> taken c bw (fst (coMod s2)) (fst e)) (mFunctbl st)))"
      "chop_gfuncs c st cbs bs (s2\<lparr>coMod := m1\<rparr>) = Inr (s2\<lparr>coMod := m3\<rparr>)" "recodes (fst ` set (mFunctbl st)) (coMod s2) m3"
      "\<forall>p f. map_of (m_funcs (fst (coMod s2))) p = Some f \<longrightarrow>
        (\<exists>f'. map_of (m_funcs (fst m3)) p = Some f' \<and> chopped c s2 bw st cbs (fst (coMod s2)) p f f')"
    using chop_steps_ok [OF r(4) fn cb, of c bw] by (elim exE conjE) (rule that)
  let ?s3 = "s2\<lparr>coMod := m3\<rparr>"
  have rt: "\<forall>n \<in> runtime_names. \<exists>p. runtime_func (coMod ?s3) n = Inr p"
    using s1(6) runtime_func_grows [OF s2(3) s1(2)] recodes_runtime [OF s3(3)] by fastforce
  have "ms_ok (coMod ?s3)" "numbered mUid (mFunctbl st)" using recodes_ms_ok [OF s3(3)] s2(2) r(4) by (simp_all add: symtbl_wf_def)
  from gen_ctor_dtor_ok [OF this(1) r(2) this(2) r(7) rt, of H c]
  obtain s4 where s4: "gen_ctor_dtor U H c st ?s3 = Inr s4" "ms_ok (coMod s4)" "grows (coMod ?s3) (coMod s4)" "same_ptrs ?s3 s4" "gfunctbl_ok c st s4"
      "global_ctors s4 = global_ctors ?s3 @ [(0, mGyhCtorHHH s4)]" "global_dtors s4 = global_dtors ?s3 @ [(0, mGyhDtorHHH s4)]"
      "runs_call s4 (mGyhCtorHHH s4) (ctor_call c st s4)" "runs_call s4 (mGyhDtorHHH s4) (mGyhDtor s4, [glob (mGyhQlibUid s4)])"
    by (elim exE conjE) (rule that)
  have sp: "same_ptrs s2 s4" "grows m3 (coMod s4)" using s4(3,4) by (simp_all add: same_ptrs_def)
  have eq: "filter (\<lambda>e. chop_bw bw (fst e) = Some True \<and> \<not> taken c bw (fst (coMod s2)) (fst e)) (mFunctbl st) =
      filter (\<lambda>e. chop_bw bw (fst e) = Some True \<and> \<not> taken c bw (fst m) (fst e)) (mFunctbl st)"
    using taken_cong [OF same] by (intro filter_cong) auto
  have "chop_off U H c bw st m = Inr (s4, map fst (filter (\<lambda>e. chop_bw bw (fst e) = Some True \<and> \<not> taken c bw (fst m) (fst e)) (mFunctbl st)))"
    unfolding chop_off_def s1(1) bind_result_Inr s2(1) prod.case s3(1) Let_def s3(2) s4(1) eq ..
  moreover have "chop_frame c bw st cbs m s4"
  proof (rule frame_after_tables [OF g2 r(1) sp(1) s3(3) sp(2) _ _ s3(4)])
    show "\<forall>p \<in> fst ` set (mFunctbl st). p < snd m" using r(8) ms_ok_bound [OF r(1)] by fastforce
    show "\<forall>(h, si) \<in> set (mCallbackStubs st). \<exists>p. map_of cbs h = Some p \<and> snd m \<le> p \<and> p < snd (coMod s2) \<and> is_cb_stub c s2 (coMod s2) p (h, si)"
      using s2(6) s1(3) by (fastforce simp: grows_def)
  qed
  moreover have "chop_registers c st cbs s4"
    using s4(5-9) s1(4,5) s2(4,5,7) grt_ok_after [OF _ _ _ sp(1) s3(3) sp(2)] by (simp add: chop_registers_def)
  ultimately show ?thesis using s4(2) by blast
qed

section \<open>Properties\<close>

text \<open>The structure and the result type of the stub of a function are those of the function: the table was
  built without two signatures getting the same hash.\<close>

definition stubs_typed :: "Symtbl \<Rightarrow> modul \<Rightarrow> bool" where
  "stubs_typed st m \<longleftrightarrow> (\<forall>(p, info) \<in> set (mFunctbl st). \<forall>f si. map_of (m_funcs m) p = Some f \<longrightarrow>
     map_of (mCallingStubs st) (mStubType info) = Some si \<longrightarrow>
     sArg si = (if params (f_fty f) = [] then None else Some (params (f_fty f))) \<and>
     sRet si = (if ret_ty (f_fty f) = VoidTy then None else Some (ret_ty (f_fty f))))"

lemma length_distinct_keys: "distinct xs \<Longrightarrow> set xs \<subseteq> fst ` set ys \<Longrightarrow> length xs \<le> length ys"
  by (metis List.finite_set card_image_le card_length card_mono distinct_card finite_imageI le_trans)

lemma entry_sizes:
  assumes "symtbl_wf st" "(p, info) \<in> set (mFunctbl st)" "length (mCallbackStubs st) \<le> 2 ^ 32" "length (mGreftbl st) \<le> 2 ^ 32"
  shows "length (mExtRefArgs info) < 2 ^ 64" "length (mCbStubArgs info) < 2 ^ 64"
proof -
  have e: "entry_ok st info" using assms(1,2) by (auto simp: symtbl_wf_def)
  have "length (mExtRefArgs info) \<le> 2 ^ 32" "length (mCbStubArgs info) \<le> 2 ^ 32"
    using e length_distinct_keys [of "mExtRefArgs info" "mGreftbl st"] length_distinct_keys [of "mCbStubArgs info" "mCallbackStubs st"] assms(3,4)
    by (auto simp: entry_ok_def intro: le_trans)
  then show "length (mExtRefArgs info) < 2 ^ 64" "length (mCbStubArgs info) < 2 ^ 64" by simp_all
qed

lemma cb_stub_list:
  assumes "\<forall>(h, si) \<in> set (mCallbackStubs st). \<exists>q. map_of cbs h = Some q \<and> P q (h, si)" "set hs \<subseteq> fst ` set (mCallbackStubs st)"
  shows "\<exists>qs. map Some qs = map (map_of cbs) hs \<and> list_all2 (\<lambda>h q. \<exists>si. (h, si) \<in> set (mCallbackStubs st) \<and> P q (h, si)) hs qs"
  using assms(2)
proof (induction hs)
  case (Cons h hs)
  then obtain qs si where qs: "map Some qs = map (map_of cbs) hs" "list_all2 (\<lambda>h q. \<exists>si. (h, si) \<in> set (mCallbackStubs st) \<and> P q (h, si)) hs qs"
    and si: "(h, si) \<in> set (mCallbackStubs st)" by auto
  with assms(1) obtain q where "map_of cbs h = Some q" "P q (h, si)" by blast
  with qs si show ?case by (intro exI [of _ "q # qs"]) auto
qed simp

lemma taken_stub:
  assumes "chop_frame c bw st cbs m s" "symtbl_wf st" "(p, info) \<in> set (mFunctbl st)" "map_of (m_funcs (fst m)) p = Some f" "taken c bw (fst m) p"
  shows "\<exists>si b f0. map_of (m_funcs (fst (coMod s))) p = Some (setBody (snd b) f0) \<and> map_of (mCallingStubs st) (mStubType info) = Some si \<and>
    gstub_body c s cbs si info (prefixed c bw (mFunctbl st) p f) = Inr b"
proof -
  have "map_of (mFunctbl st) p = Some info"
    using assms(2,3) by (auto simp: symtbl_wf_def numbered_def dest: map_sorted_distinct)
  then show ?thesis using assms(1,4,5) by (force simp: chop_frame_def chopped_def is_gstub_def)
qed

lemma chopped_function_runs:
  assumes "chop_ready U st m" "stubs_typed st (fst m)" "chop_frame c bw st cbs m s" "(p, info) \<in> set (mFunctbl st)"
    and "taken c bw (fst m) p" "map_of (m_funcs (fst m)) p = Some f"
  shows "\<exists>f' si stubs. map_of (m_funcs (fst (coMod s))) p = Some f' \<and> map_of (mCallingStubs st) (mStubType info) = Some si \<and>
    list_all2 (\<lambda>h q. \<exists>cs. (h, cs) \<in> set (mCallbackStubs st) \<and> is_cb_stub c s (coMod s) q (h, cs)) (mCbStubArgs info) stubs \<and>
    (\<forall>K as n mem. prints K (mGyhDebug s) \<longrightarrow> length as = length (params (f_fty f)) \<longrightarrow>
      call_func K f' as n mem = gstub_spec c s si info stubs K as n mem)"
proof -
  have r: "symtbl_wf st" "length (mCallbackStubs st) \<le> 2 ^ 32" "length (mGreftbl st) \<le> 2 ^ 32"
    using assms(1) by (simp_all add: chop_ready_def)
  let ?f = "prefixed c bw (mFunctbl st) p f"
  obtain si b f0 where g: "map_of (m_funcs (fst (coMod s))) p = Some (setBody (snd b) f0)" "map_of (mCallingStubs st) (mStubType info) = Some si"
      "gstub_body c s cbs si info ?f = Inr b"
    using taken_stub [OF assms(3) r(1) assms(4,6,5)] by blast
  have "set (mCbStubArgs info) \<subseteq> fst ` set (mCallbackStubs st)" using r(1) assms(4) by (auto simp: symtbl_wf_def entry_ok_def)
  moreover have "\<forall>(h, si) \<in> set (mCallbackStubs st). \<exists>q. map_of cbs h = Some q \<and> is_cb_stub c s (coMod s) q (h, si)"
    using assms(3) by (simp add: chop_frame_def)
  ultimately obtain stubs where q: "map Some stubs = map (map_of cbs) (mCbStubArgs info)"
      "list_all2 (\<lambda>h q. \<exists>cs. (h, cs) \<in> set (mCallbackStubs st) \<and> is_cb_stub c s (coMod s) q (h, cs)) (mCbStubArgs info) stubs"
    using cb_stub_list [of st cbs "is_cb_stub c s (coMod s)"] by blast
  have ty: "f_fty ?f = f_fty f" by (simp add: prefixed_def split: option.splits)
  have sa: "sArg si = (if params (f_fty ?f) = [] then None else Some (params (f_fty ?f)))"
    using assms(2,4,6) g(2) by (fastforce simp: stubs_typed_def ty)
  have "call_func K (setBody (snd b) f0) as n mem = gstub_spec c s si info stubs K as n mem"
    if "prints K (mGyhDebug s)" "length as = length (params (f_fty f))" for K as n mem
    using gstub_runs [OF g(3) that(1) that(2) [folded ty] sa q(1) entry_sizes [OF r(1) assms(4) r(2,3)]]
    by (simp add: call_func_def setBody_def)
  with g(1,2) q(2) show ?thesis by blast
qed

text \<open>A table with one function, which refers to another and calls back.\<close>

definition sample_symtbl :: Symtbl where
  "sample_symtbl = Symtbl_new\<lparr>mCallingStubs := [(7, (StubInfo_new (FunctionTy VoidTy [] False) [])\<lparr>sUid := 0\<rparr>)],
     mCallbackStubs := [(9, (StubInfo_new (FunctionTy VoidTy [] False) [])\<lparr>sUid := 0\<rparr>)],
     mFunctbl := [(1, \<lparr>mUid = 0, mStubType = 7, mExtRefArgs = [2], mCbStubArgs = [9]\<rparr>)], mGreftbl := [(2, 0)]\<rparr>"

definition sample_chop :: "bool \<Rightarrow> ChopOff_Config" where
  "sample_chop grt = \<lparr>coDebug = True, coUseGRT = grt, coUseFCPcm = grt, coMinBasicBlocks = 0, coMinInstructions = 0\<rparr>"

text \<open>A way of choosing new names.\<close>

definition sample_uniq :: uniquer where
  "sample_uniq ns n = (if n \<in> set ns then replicate (Suc (sum_list (map length ns))) CHR ''.'' else n)"

lemma sample_uniq_ok: "uniq_ok sample_uniq"
proof -
  have "length x \<le> sum_list (map length ns)" if "x \<in> set ns" for x and ns :: "string list"
    using that member_le_sum_list [of "length x" "map length ns"] by simp
  then have "replicate (Suc (sum_list (map length ns))) CHR ''.'' \<notin> set ns" for ns :: "string list" by fastforce
  then show ?thesis by (simp add: uniq_ok_def sample_uniq_def)
qed

lemma sample_chop_ready: "chop_ready sample_uniq sample_symtbl (sample_module, 3)"
  by (auto simp: chop_ready_def sample_uniq_ok ms_ok_def mod_wf_def addrs_def all_values_def named_values_def value_names_def
      runtime_names_def guest_ll_def sample_module_simps symtbl_wf_def numbered_def map_sorted_def entry_ok_def sample_symtbl_def
      Symtbl_new_def lessThan_Suc)

lemma sample_stubs_typed: "stubs_typed sample_symtbl sample_module"
  by (simp add: stubs_typed_def sample_symtbl_def sample_module_simps StubInfo_new_def)

lemma sample_taken: "taken (sample_chop grt) (kNULL\<lparr>mFCPcmChopOthers := False\<rparr>) sample_module 1"
  by (simp add: taken_def chop_bw_def kNULL_def sample_module_simps worth_chopping_def sample_chop_def instructionCount_def all_ins_def)





text \<open>C30. Calling a function the guest stage replaced puts its arguments in a structure, the addresses of
  the global values it uses and of its callback stubs in two arrays (unless the global tables are used),
  calls the runtime with the number of the function and returns what the runtime left in the place for
  the result, with its stack cells freed.  Whatever the runtime does, including not returning, the stub
  does.\<close>

theorem chopped_function_calls_runtime:
  assumes "chop_ready U st m" "stubs_typed st (fst m)" "chop_off U H c bw st m = Inr (s, ds)" "(p, info) \<in> set (mFunctbl st)"
    and "taken c bw (fst m) p" "map_of (m_funcs (fst m)) p = Some f"
  shows "\<exists>f' si stubs. map_of (m_funcs (fst (coMod s))) p = Some f' \<and> map_of (mCallingStubs st) (mStubType info) = Some si \<and>
    list_all2 (\<lambda>h q. \<exists>cs. (h, cs) \<in> set (mCallbackStubs st) \<and> is_cb_stub c s (coMod s) q (h, cs)) (mCbStubArgs info) stubs \<and>
    (\<forall>K as n mem. prints K (mGyhDebug s) \<longrightarrow> length as = length (params (f_fty f)) \<longrightarrow>
      call_func K f' as n mem = gstub_spec c s si info stubs K as n mem)"
proof -
  obtain cbs where "chop_frame c bw st cbs m s" using chop_off_spec [OF assms(1), of H c bw] assms(3) by auto
  from chopped_function_runs [OF assms(1,2) this assms(4-6)] show ?thesis .
qed

theorem chopped_function_calls_runtime_witness:
  "\<exists>s f' si stubs. map_of (m_funcs (fst (coMod s))) 1 = Some f' \<and>
     call_func (\<lambda>g xs n m. Some (SUndef, m)) f' [] 0 (\<lambda>_. None) =
       gstub_spec (sample_chop False) s si \<lparr>mUid = 0, mStubType = 7, mExtRefArgs = [2], mCbStubArgs = [9]\<rparr> stubs
         (\<lambda>g xs n m. Some (SUndef, m)) [] 0 (\<lambda>_. None)"
proof -
  let ?info = "\<lparr>mUid = 0, mStubType = 7, mExtRefArgs = [2], mCbStubArgs = [9]\<rparr>"
  obtain s ds where s: "chop_off sample_uniq sample_llvm (sample_chop False) kNULL sample_symtbl (sample_module, 3) = Inr (s, ds)"
    using chop_off_spec [OF sample_chop_ready, of sample_llvm "sample_chop False" kNULL] by blast
  have i: "(1, ?info) \<in> set (mFunctbl sample_symtbl)" "taken (sample_chop False) kNULL (fst (sample_module, 3)) 1"
    "map_of (m_funcs (fst (sample_module, 3 :: gvptr))) 1 = Some sample_main" "stubs_typed sample_symtbl (fst (sample_module, 3))"
    using sample_taken [of False] sample_stubs_typed by (simp_all add: sample_symtbl_def kNULL_def sample_module_def)
  note c = chopped_function_calls_runtime [OF sample_chop_ready i(4) s i(1-3)]
  have "prints (\<lambda>g xs n m. Some (SUndef, m)) (mGyhDebug s)" by (simp add: prints_def)
  moreover have "length [] = length (params (f_fty sample_main))" by (simp add: sample_module_simps)
  ultimately show ?thesis using c by blast
qed

text \<open>C31. A callback stub of the chopped module calls the guest function it is given with the arguments
  read from the structure of the type of its signature, and stores the result where it is told to.\<close>

theorem callback_stub_calls_guest:
  assumes "chop_ready U st m" "chop_off U H c bw st m = Inr (s, ds)" "(h, si) \<in> set (mCallbackStubs st)"
  shows "\<exists>q f'. map_of (m_funcs (fst (coMod s))) q = Some f' \<and> (\<forall>K mem ap xs rp gf n. prints K (mGyhDebug s) \<longrightarrow> has_args si mem ap xs \<longrightarrow>
    call_func K f' [rp, ap, gf] n mem = cb_stub_spec si K rp gf xs n mem)"
proof -
  obtain cbs where "chop_frame c bw st cbs m s" using chop_off_spec [OF assms(1), of H c bw] assms(2) by auto
  then obtain q f0 where "map_of (m_funcs (fst (coMod s))) q = Some (setBody (snd (cb_stub_body c s h si)) f0)"
    using assms(3) by (fastforce simp: chop_frame_def is_cb_stub_def)
  then show ?thesis using cb_stub_runs by blast
qed

theorem callback_stub_calls_guest_witness:
  "\<exists>(s :: ChopOff) si q f'. map_of (m_funcs (fst (coMod s))) q = Some f' \<and>
     call_func (\<lambda>g xs n m. Some (SUndef, m)) f' [SNull, SNull, glob 2] 0 (\<lambda>_. None) =
       cb_stub_spec si (\<lambda>g xs n m. Some (SUndef, m)) SNull (glob 2) [] 0 (\<lambda>_. None)"
proof -
  obtain s ds where s: "chop_off sample_uniq sample_llvm (sample_chop False) kNULL sample_symtbl (sample_module, 3) = Inr (s, ds)"
    using chop_off_spec [OF sample_chop_ready, of sample_llvm "sample_chop False" kNULL] by blast
  let ?si = "(StubInfo_new (FunctionTy VoidTy [] False) [])\<lparr>sUid := 0\<rparr>"
  have i: "(9, ?si) \<in> set (mCallbackStubs sample_symtbl)" by (simp add: sample_symtbl_def)
  have "prints (\<lambda>g xs n m. Some (SUndef, m)) (mGyhDebug s)" "has_args ?si (\<lambda>_. None) SNull []"
    by (simp_all add: prints_def has_args_def StubInfo_new_def)
  moreover obtain q f' where f: "map_of (m_funcs (fst (coMod s))) q = Some f'"
      "\<forall>K mem ap xs rp gf n. prints K (mGyhDebug s) \<longrightarrow> has_args ?si mem ap xs \<longrightarrow>
        call_func K f' [rp, ap, gf] n mem = cb_stub_spec ?si K rp gf xs n mem"
    using callback_stub_calls_guest [OF sample_chop_ready s i] by blast
  ultimately have "call_func (\<lambda>g xs n m. Some (SUndef, m)) f' [SNull, SNull, glob 2] 0 (\<lambda>_. None) =
      cb_stub_spec ?si (\<lambda>g xs n m. Some (SUndef, m)) SNull (glob 2) [] 0 (\<lambda>_. None)" by simp
  with f(1) show ?thesis by blast
qed

end
