(* ===== verification/Plug_TakeCode.thy ===== *)
theory Plug_TakeCode
  imports Plug_TakeOut Plug_ChopSpec
begin

text \<open>
  What the code generated by the host stage does when it runs: expanded operands, calls back into the
  guest, the choice of the fast path across modules, and the stubs the runtime calls.
\<close>

section \<open>Operands\<close>

text \<open>A constant made of numbers, global values of the set \<open>P\<close>, aggregates and constant expressions.\<close>

fun const_plain :: "gvptr set \<Rightarrow> val \<Rightarrow> bool" where
  "const_plain P (VGlobal p) = (p \<in> P)"
| "const_plain P (VInt w n) = True"
| "const_plain P VNull = True"
| "const_plain P (VUndef t) = True"
| "const_plain P (VPoison t) = True"
| "const_plain P (VData s) = True"
| "const_plain P (VConst t n) = True"
| "const_plain P (VAggr a t vs) = (a = aggr_kind t \<and> length (elem_tys t) = length vs \<and> vs \<noteq> [] \<and> (\<forall>v \<in> set vs. const_plain P v))"
| "const_plain P (VExpr k t vs) = (\<forall>v \<in> set vs. const_plain P v)"
| "const_plain P v = False"

text \<open>The value of such a constant.\<close>

fun const_val :: "val \<Rightarrow> sval" where
  "const_val (VGlobal p) = glob p"
| "const_val (VInt w n) = SInt n"
| "const_val VNull = SNull"
| "const_val (VUndef t) = undef_of t"
| "const_val (VPoison t) = undef_of t"
| "const_val (VData s) = SData s"
| "const_val (VConst t n) = SConst t n"
| "const_val (VAggr a t vs) = SAgg (map const_val vs)"
| "const_val (VExpr k t vs) = SExpr k t (map const_val vs)"
| "const_val v = SUndef"

lemma eval_const: "const_plain P v \<Longrightarrow> eval as l v = Some (const_val v)"
proof (induction P v rule: const_plain.induct)
  case (8 P a t vs)
  then have "map (eval as l) vs = map Some (map const_val vs)" by simp
  then have "those (map (eval as l) vs) = Some (map const_val vs)" by (simp only: those_eq_Some)
  then show ?case by simp
next
  case (9 P k t vs)
  then have "map (eval as l) vs = map Some (map const_val vs)" by simp
  then have "those (map (eval as l) vs) = Some (map const_val vs)" by (simp only: those_eq_Some)
  then show ?case by simp
qed simp_all

text \<open>The operations of constant expressions depend on their operands only.\<close>

definition pure_exprs :: "calls \<Rightarrow> bool" where
  "pure_exprs K \<longleftrightarrow> (\<forall>k t xs n m. K (SOp k t) xs n m = Some (SExpr k t xs, m))"

lemma CreateInsertElement_emits:
  assumes "eval as (locals st) a = Some (SAgg xs)" "k < length xs" "eval as (locals st) v = Some y"
    and "below (fst b) a" "below (fst b) v"
  shows "\<exists>st'. emits K as b st (snd (CreateInsertElement a v k b)) st' \<and> smem st' = smem st \<and> nloc st' = nloc st \<and>
    eval as (locals st') (fst (CreateInsertElement a v k b)) = Some (SAgg (xs[k := y])) \<and>
    below (fst (snd (CreateInsertElement a v k b))) (fst (CreateInsertElement a v k b)) \<and> val_ty (fst (CreateInsertElement a v k b)) = val_ty a"
proof (cases "if is_const v then fold_insert a v k else None")
  case None
  let ?st = "st\<lparr>locals := (locals st)(fst b \<mapsto> SAgg (xs[k := y]))\<rparr>"
  have "emits K as b st (snd (emit (new_ins 0 (InsertElement k) (val_ty a) [a, v]) b)) ?st"
    by (rule emit_emits) (use assms in \<open>simp_all add: exec_simps\<close>)
  then show ?thesis unfolding CreateInsertElement_def None by (intro exI [of _ ?st]) (simp add: new_ins_def prod_eq_iff)
next
  case (Some c)
  then have "fold_insert a v k = Some c" by (simp split: if_splits)
  from eval_fold_insert [OF this assms(1,3-5)] show ?thesis
    unfolding CreateInsertElement_def Some by (intro exI [of _ st]) simp
qed

lemma insert_elements_emits:
  assumes "eval as (locals st) a = Some (SAgg xs)" "k + length vs \<le> length xs" "map (eval as (locals st)) vs = map Some ys"
    and "below (fst b) a" "\<forall>v \<in> set vs. below (fst b) v"
  shows "\<exists>st'. emits K as b st (snd (insert_elements a k vs b)) st' \<and> smem st' = smem st \<and> nloc st' = nloc st \<and>
    below (fst (snd (insert_elements a k vs b))) (fst (insert_elements a k vs b)) \<and>
    eval as (locals st') (fst (insert_elements a k vs b)) = Some (SAgg (take k xs @ ys @ drop (k + length ys) xs))"
  using assms
proof (induction a k vs b arbitrary: xs ys st rule: insert_elements.induct)
  case (1 a k b)
  then show ?case by (intro exI [of _ st]) simp
next
  case (2 a k v vs b)
  from 2(4) obtain y zs where ys: "ys = y # zs" by (cases ys) auto
  let ?r = "CreateInsertElement a v k b"
  obtain st1 where st1: "emits K as b st (snd ?r) st1" "smem st1 = smem st" "nloc st1 = nloc st"
      "eval as (locals st1) (fst ?r) = Some (SAgg (xs[k := y]))" "below (fst (snd ?r)) (fst ?r)"
    using CreateInsertElement_emits [of as st a xs k v y b K] 2 ys by auto
  have m: "map (eval as (locals st)) vs = map Some zs" using 2(4) ys by simp
  have "map (eval as (locals st1)) vs = map (eval as (locals st)) vs" using emits_eval [OF st1(1)] 2(6) by simp
  note ev = trans [OF this m]
  have bl: "\<forall>v \<in> set vs. below (fst (snd ?r)) v" using 2(6) emits_below [OF st1(1)] by simp
  have "\<exists>st'. emits K as (snd ?r) st1 (snd (insert_elements (fst ?r) (Suc k) vs (snd ?r))) st' \<and> smem st' = smem st1 \<and> nloc st' = nloc st1 \<and>
      below (fst (snd (insert_elements (fst ?r) (Suc k) vs (snd ?r)))) (fst (insert_elements (fst ?r) (Suc k) vs (snd ?r))) \<and>
      eval as (locals st') (fst (insert_elements (fst ?r) (Suc k) vs (snd ?r))) =
        Some (SAgg (take (Suc k) (xs[k := y]) @ zs @ drop (Suc k + length zs) (xs[k := y])))"
    by (rule 2(1) [OF refl _ _ _ _ bl]) (use st1 2(3) ev in simp_all)
  moreover have "take (Suc k) (xs[k := y]) @ zs @ drop (Suc k + length zs) (xs[k := y]) = take k xs @ ys @ drop (k + length ys) xs"
    using 2(3) ys by (simp add: take_Suc_conv_app_nth)
  ultimately show ?case using st1(1-3) by (auto simp: Let_def intro: emits_trans)
qed

lemma insert_elements_all:
  assumes "length (elem_tys t) = length vs" "vs \<noteq> []" "map (eval as (locals st)) vs = map Some ys" "\<forall>v \<in> set vs. below (fst b) v"
  shows "\<exists>st'. emits K as b st (snd (insert_elements (VUndef t) 0 vs b)) st' \<and> smem st' = smem st \<and> nloc st' = nloc st \<and>
    below (fst (snd (insert_elements (VUndef t) 0 vs b))) (fst (insert_elements (VUndef t) 0 vs b)) \<and>
    eval as (locals st') (fst (insert_elements (VUndef t) 0 vs b)) = Some (SAgg ys)"
proof -
  have ne: "elem_tys t \<noteq> []" using assms(1,2) by auto
  have l: "length ys = length vs" using arg_cong [OF assms(3), of length] by simp
  have "eval as (locals st) (VUndef t) = Some (SAgg (map undef_of (elem_tys t)))" using undef_of_aggregate [OF ne] by simp
  from insert_elements_emits [OF this _ assms(3) _ assms(4), of 0 K] show ?thesis using assms(1) l by simp
qed

lemma expand_aggregate_emits:
  assumes "length (elem_tys t) = length vs" "vs \<noteq> []" "map (eval as (locals st)) vs = map Some ys" "\<forall>v \<in> set vs. below (fst b) v"
  shows "\<exists>st'. emits K as b st (snd (expand_aggregate a t vs b)) st' \<and> smem st' = smem st \<and> nloc st' = nloc st \<and>
    below (fst (snd (expand_aggregate a t vs b))) (fst (expand_aggregate a t vs b)) \<and>
    eval as (locals st') (fst (expand_aggregate a t vs b)) = Some (SAgg ys)"
proof (cases "a = AVector")
  case True
  then show ?thesis using insert_elements_all [OF assms, of K] by (simp add: expand_aggregate_def)
next
  case False
  then show ?thesis
    using insert_all_emits [OF assms, of "fst (insert_values (VUndef t) 0 vs b)" "snd (insert_values (VUndef t) 0 vs b)" K]
    by (auto simp: expand_aggregate_def)
qed

text \<open>The references of a function, with the values the code has for them.\<close>

definition refs_eval :: "(gvptr \<times> val) list \<Rightarrow> gvptr set \<Rightarrow> sval list \<Rightarrow> nat \<Rightarrow> sstate \<Rightarrow> bool" where
  "refs_eval refs P as n st \<longleftrightarrow> (\<forall>p \<in> P. \<exists>v. map_of refs p = Some v \<and> eval as (locals st) v = Some (glob p) \<and> below n v)"

lemma refs_eval_emits: "refs_eval refs P as (fst b) st \<Longrightarrow> emits K as b st b' st' \<Longrightarrow> refs_eval refs P as (fst b') st'"
  unfolding refs_eval_def by (metis emits_eval emits_below)

lemma operand_same:
  assumes "TakeOut_do_operand x k v b = Inr (v, b)" "const_plain P v"
  shows "\<exists>w b' st'. TakeOut_do_operand x k v b = Inr (w, b') \<and> emits K as b st b' st' \<and> smem st' = smem st \<and> nloc st' = nloc st \<and>
    eval as (locals st') w = Some (const_val v) \<and> below (fst b') w"
proof -
  have "below (fst b) v" using assms(2) by (induction P v rule: const_plain.induct) simp_all
  with assms(1) eval_const [OF assms(2)] show ?thesis by (intro exI [of _ v] exI [of _ b] exI [of _ st]) simp
qed

text \<open>Expanding an operand: the code in front computes the value the constant has.\<close>

lemma do_operand_emits:
  assumes "pure_exprs K"
  shows "const_plain P v \<Longrightarrow> refs_eval (xRefs x) P as (fst b) st \<Longrightarrow>
    \<exists>w b' st'. TakeOut_do_operand x k v b = Inr (w, b') \<and> emits K as b st b' st' \<and> smem st' = smem st \<and> nloc st' = nloc st \<and>
      eval as (locals st') w = Some (const_val v) \<and> below (fst b') w"
  and "\<forall>v \<in> set vs. const_plain P v \<Longrightarrow> refs_eval (xRefs x) P as (fst b) st \<Longrightarrow>
    \<exists>ws b' st'. TakeOut_do_operands x k vs b = Inr (ws, b') \<and> emits K as b st b' st' \<and> smem st' = smem st \<and> nloc st' = nloc st \<and>
      map (eval as (locals st')) ws = map Some (map const_val vs) \<and> (\<forall>w \<in> set ws. below (fst b') w)"
  and "(md :: md) = md"
proof (induction x k v b and x k vs b and x k md b arbitrary: st and st rule: TakeOut_do_operand_TakeOut_do_operands_TakeOut_do_metadata.induct)
  case (1 x k p b)
  then obtain v where "map_of (xRefs x) p = Some v" "eval as (locals st) v = Some (glob p)" "below (fst b) v" by (auto simp: refs_eval_def)
  then show ?case by (intro exI [of _ v] exI [of _ b] exI [of _ st]) simp
next
  case (2 x k a t vs b)
  from 2(2) have t: "length (elem_tys t) = length vs" "vs \<noteq> []" "\<forall>v \<in> set vs. const_plain P v" by simp_all
  from 2(1) [OF t(3) 2(3)] obtain ws b' st' where s: "TakeOut_do_operands x k vs b = Inr (ws, b')" "emits K as b st b' st'" "smem st' = smem st"
      "nloc st' = nloc st" "map (eval as (locals st')) ws = map Some (map const_val vs)" "\<forall>w \<in> set ws. below (fst b') w" by blast
  show ?case
  proof (cases "ws = vs")
    case True
    with s show ?thesis using eval_const [OF 2(2), of as "locals st'"]
      by (intro exI [of _ "VAggr a t vs"] exI [of _ b'] exI [of _ st']) simp
  next
    case False
    have l: "length ws = length vs" using arg_cong [OF s(5), of length] by simp
    have "ws \<noteq> []" using l t(2) by auto
    from expand_aggregate_emits [OF trans [OF t(1) l [symmetric]] this s(5,6), of K a] obtain st2 where
      e: "emits K as b' st' (snd (expand_aggregate a t ws b')) st2" "smem st2 = smem st'" "nloc st2 = nloc st'"
        "below (fst (snd (expand_aggregate a t ws b'))) (fst (expand_aggregate a t ws b'))"
        "eval as (locals st2) (fst (expand_aggregate a t ws b')) = Some (SAgg (map const_val vs))" by blast
    with s(1,3,4) False emits_trans [OF s(2) e(1)] show ?thesis
      by (intro exI [of _ "fst (expand_aggregate a t ws b')"] exI [of _ "snd (expand_aggregate a t ws b')"] exI [of _ st2]) simp
  qed
next
  case (3 x k e t vs b)
  from 3(2) have t: "\<forall>v \<in> set vs. const_plain P v" by simp
  from 3(1) [OF t 3(3)] obtain ws b' st' where s: "TakeOut_do_operands x k vs b = Inr (ws, b')" "emits K as b st b' st'" "smem st' = smem st"
      "nloc st' = nloc st" "map (eval as (locals st')) ws = map Some (map const_val vs)" "\<forall>w \<in> set ws. below (fst b') w" by blast
  show ?case
  proof (cases "ws = vs")
    case True
    with s show ?thesis using eval_const [OF 3(2), of as "locals st'"]
      by (intro exI [of _ "VExpr e t vs"] exI [of _ b'] exI [of _ st']) simp
  next
    case False
    let ?i = "new_ins 0 (OtherOp e) t ws"
    let ?st = "st'\<lparr>locals := (locals st')(fst b' \<mapsto> SExpr e t (map const_val vs))\<rparr>"
    have "those (map (eval as (locals st')) ws) = Some (map const_val vs)" using s(5) by (simp only: those_eq_Some)
    then have e: "emits K as b' st' (snd (emit ?i b')) ?st"
      using assms by (intro emit_emits) (simp_all add: exec_simps exec_call_def pure_exprs_def)
    from emits_trans [OF s(2) e] s(1,3,4) False show ?thesis
      by (intro exI [of _ "fst (emit ?i b')"] exI [of _ "snd (emit ?i b')"] exI [of _ ?st]) (simp add: new_ins_def prod_eq_iff)
  qed
next
  case (7 x k b)
  then show ?case by (intro exI [of _ "[]"] exI [of _ b] exI [of _ st]) simp
next
  case (8 x k v vs b)
  from 8(1) [of st] 8(3,4) obtain w b1 st1 where w: "TakeOut_do_operand x k v b = Inr (w, b1)" "emits K as b st b1 st1" "smem st1 = smem st"
      "nloc st1 = nloc st" "eval as (locals st1) w = Some (const_val v)" "below (fst b1) w" by auto
  have "\<forall>v \<in> set vs. const_plain P v" using 8(3) by simp
  from 8(2) [OF this refs_eval_emits [OF 8(4) w(2)]] obtain ws b2 st2 where
    s: "TakeOut_do_operands x k vs b1 = Inr (ws, b2)" "emits K as b1 st1 b2 st2" "smem st2 = smem st1" "nloc st2 = nloc st1"
      "map (eval as (locals st2)) ws = map Some (map const_val vs)" "\<forall>w \<in> set ws. below (fst b2) w" by blast
  have "eval as (locals st2) w = Some (const_val v)" "below (fst b2) w" using emits_eval [OF s(2) w(6)] w(5) emits_below [OF s(2) w(6)] by simp_all
  with w(1,3,4) s emits_trans [OF w(2) s(2)] show ?case
    by (intro exI [of _ "w # ws"] exI [of _ b2] exI [of _ st2]) simp
qed (rule operand_same; simp; fail | simp)+

section \<open>Calls back into the guest\<close>

text \<open>The stack the code of a callback builds: the place for the result and the structure of the
  arguments.\<close>

definition callback_frame :: "instr \<Rightarrow> sval list \<Rightarrow> nat \<times> smem \<Rightarrow> sval \<times> sval \<times> nat \<times> smem" where
  "callback_frame i xs fr =
     (let (rp, fr1) = push (if i_ty i = VoidTy then None else Some (i_ty i, undef_of (i_ty i))) fr;
          (ap, fr2) = push (if i_ops i = [] then None else Some (structTy (map val_ty (i_ops i)), SAgg xs)) fr1
      in (rp, ap, fr2))"

lemma callback_code_emits:
  assumes "prints K (tGyhDebug t)" "eval as (locals st) cbStub = Some cb" "eval as (locals st) (i_callee i) = Some gf"
    and "map (eval as (locals st)) (i_ops i) = map Some xs" "below (fst b) cbStub" "below (fst b) (i_callee i)" "\<forall>v \<in> set (i_ops i). below (fst b) v"
    and "callback_frame i xs (nloc st, smem st) = (rp, ap, n2, m2)"
    and "K (glob (tGyhCallback t)) [cb, gf, rp, ap] n2 m2 = Some (r, m3)" "i_ty i \<noteq> VoidTy \<Longrightarrow> load_at (i_ty i) m3 rp = Some v"
  shows "\<exists>st'. emits K as b st (snd (callback_code c t cbStub i b)) st' \<and> nloc st' = nloc st \<and> smem st' = pop_frame (nloc st) m3 \<and>
    (if i_ty i = VoidTy then fst (callback_code c t cbStub i b) = None
     else \<exists>w. fst (callback_code c t cbStub i b) = Some w \<and> val_ty w = i_ty i \<and> eval as (locals st') w = Some v \<and> below (fst (snd (callback_code c t cbStub i b))) w)"
proof -
  let ?rt = "if i_ty i = VoidTy then None else Some (i_ty i)" and ?at = "if i_ops i = [] then None else Some (map val_ty (i_ops i))"
  let ?save = "VInst (fst b) ptrTy"
  obtain b1 where ss: "CreateStackSave b = (?save, b1)" by (cases "CreateStackSave b") (auto simp: CreateStackSave_def emit_def new_ins_def)
  have fb1: "fst b1 = Suc (fst b)" using CreateStackSave_value(2) [of b] by (simp add: ss)
  define st1 where "st1 = st\<lparr>locals := (locals st)(fst b \<mapsto> SStack (nloc st))\<rparr>"
  have e1: "emits K as b st b1 st1" using CreateStackSave_emits [of K as b st] by (simp add: st1_def ss)
  obtain rv b2 where rv: "ret_pad ?rt b1 = (rv, b2)" by (metis prod.exhaust)
  obtain av b3 where av: "arg_pad ?at (i_ops i) b2 = (av, b3)" by (metis prod.exhaust)
  obtain n1 m1 where p1: "push (map_option (\<lambda>t. (t, undef_of t)) ?rt) (nloc st1, smem st1) = (rp, n1, m1)"
      and p2: "push (map_option (\<lambda>us. (structTy us, SAgg xs)) ?at) (n1, m1) = (ap, n2, m2)"
    using assms(8) by (cases "push (map_option (\<lambda>t. (t, undef_of t)) ?rt) (nloc st1, smem st1)")
      (auto simp: callback_frame_def st1_def split: prod.splits if_splits)
  obtain st2 where "pushes K as b1 st1 (map_option (\<lambda>t. (t, undef_of t)) ?rt) (rv, b2) st2"
    using ret_pad_pushes [of K as b1 st1 ?rt] rv by auto
  note s2 = pushesD [OF this p1]
  have e12: "emits K as b st b2 st2" by (rule emits_trans [OF e1 s2(1)])
  have "map (eval as (locals st2)) (i_ops i) = map (eval as (locals st)) (i_ops i)" using emits_eval [OF e12] assms(7) by simp
  note xs = trans [OF this assms(4)]
  have "case ?at of None \<Rightarrow> True | Some us \<Rightarrow> us \<noteq> [] \<and> length us = length (i_ops i)" by simp
  moreover have "\<forall>v \<in> set (i_ops i). below (fst b2) v" using assms(7) emits_below [OF e12] by simp
  ultimately obtain st3 where "pushes K as b2 st2 (map_option (\<lambda>us. (structTy us, SAgg xs)) ?at) (av, b3) st3"
    using arg_pad_pushes [of "i_ops i" ?at as st2 xs b2 K] xs av by auto
  note s3 = pushesD [OF this, unfolded s2(4,5), OF p2]
  have e13: "emits K as b st b3 st3" by (rule emits_trans [OF e12 s3(1)])
  let ?as = "[cbStub, i_callee i, rv, av]"
  have bl: "\<forall>v \<in> set ?as. below (fst b3) v" using assms(5,6) emits_below [OF e13] emits_below [OF s3(1) s2(2)] s3(2) by simp
  have "those (map (eval as (locals st3)) ?as) = Some [cb, gf, rp, ap]"
    using emits_eval [OF e13 assms(5)] emits_eval [OF e13 assms(6)] emits_eval [OF s3(1) s2(2)] assms(2,3) s2(3) s3(3) by simp
  from debug_then [OF assms(1) bl this, of "toDebug c" "tGyhCallbackDebugFmt t"] obtain st4 where
    st4: "emits K as b3 st3 (debug_call (toDebug c) (tGyhDebug t) (VGlobal (tGyhCallbackDebugFmt t) # ?as) b3) st4" "nloc st4 = nloc st3" "smem st4 = smem st3"
      "those (map (eval as (locals st4)) ?as) = Some [cb, gf, rp, ap]" by blast
  define b4 where "b4 = debug_call (toDebug c) (tGyhDebug t) (VGlobal (tGyhCallbackDebugFmt t) # ?as) b3"
  let ?fty = "voidFn [ptrTy, ptrTy, ptrTy, ptrTy]"
  let ?b5 = "snd (CreateCall ?fty (VGlobal (tGyhCallback t)) ?as [] b4)"
  define st5 where "st5 = st4\<lparr>locals := (locals st4)(fst b4 \<mapsto> r), smem := m3\<rparr>"
  have e5: "emits K as b4 st4 ?b5 st5" unfolding st5_def
    by (rule CreateCall_emits [where g = "glob (tGyhCallback t)", OF _ st4(4)]) (use assms(9) st4(2,3) s3(4,5) in simp_all)
  have e15: "emits K as b st ?b5 st5" using emits_trans [OF emits_trans [OF e13 st4(1)] e5 [unfolded b4_def]] by (simp only: b4_def)
  have e35: "emits K as b3 st3 ?b5 st5" using emits_trans [OF st4(1) e5 [unfolded b4_def]] by (simp only: b4_def)
  have save: "eval as (locals st') ?save = Some (SStack (nloc st))" if "emits K as b1 st1 b' st'" for b' st'
    using emits_eval [OF that, of ?save] by (simp add: st1_def fb1)
  have e25: "emits K as b1 st1 ?b5 st5" by (rule emits_trans [OF emits_trans [OF s2(1) s3(1)] e35])
  have cc: "callback_code c t cbStub i b = (let (ret, b6) = (if i_ty i = VoidTy then (None, ?b5) else apfst Some (CreateLoad (i_ty i) rv ?b5))
      in (ret, CreateStackRestore ?save b6))"
    unfolding callback_code_def Let_def ss prod.case rv av b4_def by (simp only: case_prod_beta)
  show ?thesis
  proof (cases "i_ty i = VoidTy")
    case True
    let ?st6 = "st5\<lparr>nloc := nloc st, smem := pop_frame (nloc st) (smem st5)\<rparr>"
    have "emits K as ?b5 st5 (CreateStackRestore ?save ?b5) ?st6" by (rule CreateStackRestore_emits [OF save [OF e25]])
    from emits_trans [OF e15 this] show ?thesis unfolding cc using True by (intro exI [of _ ?st6]) (simp add: st5_def)
  next
    case False
    let ?b6 = "snd (CreateLoad (i_ty i) rv ?b5)" and ?st6 = "st5\<lparr>locals := (locals st5)(fst ?b5 \<mapsto> v)\<rparr>"
    have "below (fst b3) rv" using emits_below [OF s3(1) s2(2)] .
    then have "eval as (locals st5) rv = Some rp" using emits_eval [OF e35] emits_eval [OF s3(1) s2(2)] s2(3) by simp
    then have e6: "emits K as ?b5 st5 ?b6 ?st6"
      by (rule CreateLoad_emits) (use assms(10) False in \<open>simp add: st5_def\<close>)
    let ?st7 = "?st6\<lparr>nloc := nloc st, smem := pop_frame (nloc st) (smem ?st6)\<rparr>"
    have e7: "emits K as ?b6 ?st6 (CreateStackRestore ?save ?b6) ?st7"
      by (rule CreateStackRestore_emits [OF save [OF emits_trans [OF e25 e6]]])
    let ?w = "VInst (fst ?b5) (i_ty i)"
    have r: "callback_code c t cbStub i b = (Some ?w, CreateStackRestore ?save ?b6)"
      unfolding cc using False by (cases "CreateLoad (i_ty i) rv ?b5") (auto simp: CreateLoad_def emit_def new_ins_def)
    have "below (fst (CreateStackRestore ?save ?b6)) ?w" using emits_below [OF e7, of ?w] by simp
    with emits_trans [OF emits_trans [OF e15 e6] e7] show ?thesis
      unfolding r using False by (intro exI [of _ ?st7]) (simp add: st5_def)
  qed
qed

text \<open>The runtime: a callback runs the guest function it is given as the stub.\<close>

definition runs_callback :: "calls \<Rightarrow> gvptr \<Rightarrow> calls \<Rightarrow> modul \<Rightarrow> bool" where
  "runs_callback K cbk Kg gm \<longleftrightarrow> (\<forall>q f rp ap gf n m. map_of (m_funcs gm) q = Some f \<longrightarrow>
     K (glob cbk) [glob q, gf, rp, ap] n m = call_func Kg f [rp, ap, gf] n m)"

lemma pop_frame_twice: "n \<le> n' \<Longrightarrow> pop_frame n (pop_frame n' m) = pop_frame n m"
  by (rule ext) (simp add: pop_frame_def split: obj.splits)

lemma pop_frame_upd: "n \<le> k \<Longrightarrow> pop_frame n (m(OLoc k := x)) = pop_frame n m"
  by (rule ext) (simp add: pop_frame_def split: obj.splits)

lemma pop_frame_below: "k < n \<Longrightarrow> pop_frame n m (OLoc k) = m (OLoc k)"
  by (simp add: pop_frame_def)

text \<open>The signature of the stub fits the call.\<close>

definition stub_fits :: "StubInfo \<Rightarrow> instr \<Rightarrow> bool" where
  "stub_fits si i \<longleftrightarrow> sRet si = (if i_ty i = VoidTy then None else Some (i_ty i)) \<and> ret_ty (sFunc si) = i_ty i \<and>
     sArg si = (if i_ops i = [] then None else Some (map val_ty (i_ops i)))"

lemma callback_frame_shape:
  assumes "callback_frame i xs (n, m) = (rp, ap, n2, m2)" "stub_fits si i" "length xs = length (i_ops i)"
  shows "n \<le> n2" "has_args si m2 ap xs" "pop_frame n m2 = pop_frame n m"
    "i_ty i \<noteq> VoidTy \<Longrightarrow> rp = SPtr (OLoc n) 0 \<and> n < n2 \<and> m2 (OLoc n) = Some (i_ty i, undef_of (i_ty i))"
proof -
  have e: "callback_frame i xs (n, m) = (rp, ap, n2, m2)" "sArg si = (if i_ops i = [] then None else Some (map val_ty (i_ops i)))"
    using assms(1,2) by (simp_all add: stub_fits_def)
  show "n \<le> n2" using e(1) by (auto simp: callback_frame_def push_def split: if_splits)
  show "has_args si m2 ap xs" using e assms(3)
    by (cases "i_ops i = []") (auto simp: callback_frame_def push_def has_args_def load_cell_def split: if_splits)
  show "pop_frame n m2 = pop_frame n m" using e(1) by (auto simp: callback_frame_def push_def pop_frame_upd split: if_splits)
  show "i_ty i \<noteq> VoidTy \<Longrightarrow> rp = SPtr (OLoc n) 0 \<and> n < n2 \<and> m2 (OLoc n) = Some (i_ty i, undef_of (i_ty i))"
    using e(1) by (auto simp: callback_frame_def push_def split: if_splits)
qed

lemma host_callback:
  assumes "prints K (tGyhDebug t)" "runs_callback K (tGyhCallback t) Kg gm" "prints Kg (mGyhDebug s)"
    and "map_of (m_funcs gm) q = Some (setBody (snd (cb_stub_body cc s h si)) f0)" "stub_fits si i"
    and "eval as (locals st) cbStub = Some (glob q)" "eval as (locals st) (i_callee i) = Some gf"
    and "map (eval as (locals st)) (i_ops i) = map Some xs" "below (fst b) cbStub" "below (fst b) (i_callee i)" "\<forall>v \<in> set (i_ops i). below (fst b) v"
    and "callback_frame i xs (nloc st, smem st) = (rp, ap, n2, m2)"
    and "Kg gf xs n2 m2 = Some (r, m3)" "i_ty i \<noteq> VoidTy \<Longrightarrow> m3 (OLoc (nloc st)) \<noteq> None"
  shows "\<exists>st'. emits K as b st (snd (callback_code c t cbStub i b)) st' \<and> nloc st' = nloc st \<and> smem st' = pop_frame (nloc st) m3 \<and>
    (if i_ty i = VoidTy then fst (callback_code c t cbStub i b) = None
     else \<exists>w. fst (callback_code c t cbStub i b) = Some w \<and> val_ty w = i_ty i \<and> eval as (locals st') w = Some r \<and> below (fst (snd (callback_code c t cbStub i b))) w)"
proof -
  have l: "length xs = length (i_ops i)" using arg_cong [OF assms(8), of length] by simp
  note fr = callback_frame_shape [OF assms(12,5) l]
  let ?m4 = "if i_ty i = VoidTy then m3 else m3(OLoc (nloc st) \<mapsto> (i_ty i, r))"
  have "store_ret si rp (r, m3) = Some ?m4"
    using assms(5,14) fr(4) by (auto simp: store_ret_def stub_fits_def)
  then have k: "K (glob (tGyhCallback t)) [glob q, gf, rp, ap] n2 m2 = Some (SUndef, pop_frame n2 ?m4)"
    using assms(2,4) cb_stub_runs [OF assms(3) fr(2)] assms(13) by (simp add: runs_callback_def cb_stub_spec_def)
  have ld: "load_at (i_ty i) (pop_frame n2 ?m4) rp = Some r" if "i_ty i \<noteq> VoidTy"
    using that fr(4) by (simp add: pop_frame_below load_cell_def)
  have "pop_frame (nloc st) (pop_frame n2 ?m4) = pop_frame (nloc st) m3"
    using fr(1) by (simp add: pop_frame_twice pop_frame_upd)
  with callback_code_emits [OF assms(1,6-11,12) k ld] show ?thesis by simp
qed

section \<open>The fast path across modules\<close>

text \<open>The two words in front of a function.\<close>

definition prefix_words :: "smem \<Rightarrow> gvptr \<Rightarrow> u64 \<Rightarrow> u64 \<Rightarrow> bool" where
  "prefix_words m p magic addr \<longleftrightarrow> load_at i64Ty m (SPtr (OGlob p) (- 2)) = Some (SInt magic) \<and>
     load_at i64Ty m (SPtr (OGlob p) (- 1)) = Some (SInt addr)"

lemma sint_minus_words [simp]: "sint (- 1 :: u64) = - 1" "sint (- 2 :: u64) = - 2"
  by (simp_all add: signed_take_bit_eq_if_positive)

lemma exec_emits_condbr:
  assumes "emits K as (n, []) st b st'" "eval as (locals st') v = Some (SInt x)"
  shows "exec_list K as (snd (CreateCondBr v l r b)) st = Jump (if x = 1 then l else r) st'"
proof -
  let ?i = "(new_ins 0 CondBr VoidTy [v, VBlock l, VBlock r])\<lparr>i_id := fst b\<rparr>"
  have "exec_branch (eval as (locals st')) ?i st' = Jump (if x = 1 then l else r) st'"
    using assms(2) by (cases v) (simp_all add: exec_branch_def new_ins_def)
  then have "exec_ins K as ?i st' = Jump (if x = 1 then l else r) st'"
    using assms(2) by (simp add: exec_ins_def new_ins_def Let_def)
  moreover have "exec_list K as (snd b) st = Cont st'" using assms(1) by (auto simp: emits_def)
  ultimately show ?thesis by (simp add: CreateCondBr_def emit_def exec_list_append)
qed

lemma fcp_cm_check_runs:
  assumes "eval as (locals st) callee = Some (glob p)" "below n callee" "prefix_words (smem st) p magic addr"
    and "fcp_cm_check callee l r (n, []) = (v, b')"
  shows "\<exists>st'. exec_list K as (snd b') st = Jump (if magic = Symtbl_kFCPcmMagic XOR addr then l else r) st' \<and>
    smem st' = smem st \<and> nloc st' = nloc st \<and> (\<forall>i < n. locals st' i = locals st i) \<and>
    eval as (locals st') v = Some (SInt addr) \<and> below (fst b') v \<and> n \<le> fst b'"
proof -
  let ?b0 = "(n, [] :: instr list)"
  let ?b1 = "snd (CreateGEP callee (- 2) ?b0)" and ?st1 = "st\<lparr>locals := (locals st)(n \<mapsto> SPtr (OGlob p) (- 2))\<rparr>"
  let ?b2 = "snd (CreateLoad i64Ty (VInst n ptrTy) ?b1)" and ?st2 = "?st1\<lparr>locals := (locals ?st1)(Suc n \<mapsto> SInt magic)\<rparr>"
  let ?b3 = "snd (CreateGEP callee (- 1) ?b2)" and ?st3 = "?st2\<lparr>locals := (locals ?st2)(Suc (Suc n) \<mapsto> SPtr (OGlob p) (- 1))\<rparr>"
  let ?b4 = "snd (CreateLoad i64Ty (VInst (Suc (Suc n)) ptrTy) ?b3)"
  let ?st4 = "?st3\<lparr>locals := (locals ?st3)(Suc (Suc (Suc n)) \<mapsto> SInt addr)\<rparr>" and ?a = "VInst (Suc (Suc (Suc n))) i64Ty"
  let ?b5 = "snd (CreateXor (VInt 64 Symtbl_kFCPcmMagic) ?a ?b4)"
  let ?st5 = "?st4\<lparr>locals := (locals ?st4)(Suc (Suc (Suc (Suc n))) \<mapsto> SInt (Symtbl_kFCPcmMagic XOR addr))\<rparr>"
  let ?x = "VInst (Suc (Suc (Suc (Suc n)))) (val_ty (VInt 64 Symtbl_kFCPcmMagic))"
  let ?b6 = "snd (CreateICmpEQ (VInst (Suc n) i64Ty) ?x ?b5)" and ?y = "if magic = Symtbl_kFCPcmMagic XOR addr then 1 else 0 :: u64"
  let ?st6 = "?st5\<lparr>locals := (locals ?st5)(Suc (Suc (Suc (Suc (Suc n)))) \<mapsto> SInt ?y)\<rparr>" and ?c = "VInst (Suc (Suc (Suc (Suc (Suc n))))) (IntegerTy 1)"
  have e1: "emits K as ?b0 st ?b1 ?st1" using CreateGEP_emits [OF assms(1), of K ?b0 "- 2"] by simp
  have c1: "eval as (locals st') callee = Some (glob p)" if "emits K as ?b0 st b st'" for b st'
    using emits_eval [OF that, of callee] assms(1,2) by simp
  have e2: "emits K as ?b0 st ?b2 ?st2"
    using emits_trans [OF e1 CreateLoad_emits [where q = "SPtr (OGlob p) (- 2)" and x = "SInt magic" and t = i64Ty and p = "VInst n ptrTy"]] assms(3)
    by (simp add: prefix_words_def)
  have e3: "emits K as ?b0 st ?b3 ?st3" using emits_trans [OF e2 CreateGEP_emits [OF c1 [OF e2], of K ?b2 "- 1"]] by simp
  have e4: "emits K as ?b0 st ?b4 ?st4"
    using emits_trans [OF e3 CreateLoad_emits [where q = "SPtr (OGlob p) (- 1)" and x = "SInt addr" and t = i64Ty and p = "VInst (Suc (Suc n)) ptrTy"]] assms(3)
    by (simp add: prefix_words_def)
  have e5: "emits K as ?b0 st ?b5 ?st5"
    using emits_trans [OF e4 CreateXor_emits [where x = Symtbl_kFCPcmMagic and y = addr and v = "VInt 64 Symtbl_kFCPcmMagic" and w = ?a]] by simp
  have e6: "emits K as ?b0 st ?b6 ?st6"
    using emits_trans [OF e5 CreateICmpEQ_emits [where x = magic and y = "Symtbl_kFCPcmMagic XOR addr" and v = "VInst (Suc n) i64Ty" and w = ?x]] by simp
  have "b' = CreateCondBr ?c l r ?b6" "v = ?a"
    using assms(4) by (auto simp: fcp_cm_check_def Let_def case_prod_beta)
  moreover have "eval as (locals ?st6) ?c = Some (SInt ?y)" by simp
  ultimately show ?thesis using exec_emits_condbr [OF e6, of ?c ?y l r]
    by (intro exI [of _ ?st6]) (simp add: CreateCondBr_def)
qed

lemma fcp_cm_left_runs:
  assumes "eval as (locals st) a = Some (SInt addr)" "below n a" "map (eval as (locals st)) (i_ops i) = map Some xs"
    and "\<forall>v \<in> set (i_ops i). below n v" "i_op i = Call" "K (SAddr addr) xs (nloc st) (smem st) = Some (r, m)"
    and "fcp_cm_left a i bb (n, []) = (v, b')"
  shows "\<exists>st'. exec_list K as (snd b') st = Jump bb st' \<and> smem st' = m \<and> nloc st' = nloc st \<and>
    (\<forall>i < n. locals st' i = locals st i) \<and> eval as (locals st') v = Some r \<and> below (fst b') v \<and> n \<le> fst b'"
proof -
  let ?b0 = "(n, [] :: instr list)"
  let ?b1 = "snd (CreateIntToPtr a ?b0)" and ?st1 = "st\<lparr>locals := (locals st)(n \<mapsto> SAddr addr)\<rparr>"
  let ?i = "i\<lparr>i_callee := VInst n ptrTy\<rparr>" and ?st2 = "st\<lparr>locals := (locals st)(n \<mapsto> SAddr addr, Suc n \<mapsto> r), smem := m\<rparr>"
  have e1: "emits K as ?b0 st ?b1 ?st1" using CreateIntToPtr_emits [OF assms(1), of K ?b0] by simp
  have "map (eval as (locals ?st1)) (i_ops i) = map (eval as (locals st)) (i_ops i)" using emits_eval [OF e1] assms(4) by simp
  note ev = trans [OF this assms(3)]
  have "those (map (eval as (locals ?st1)) (i_ops i)) = Some xs" using ev by (simp only: those_eq_Some)
  then have "exec_ins K as (?i\<lparr>i_id := Suc n\<rparr>) ?st1 = Cont ?st2"
    using assms(5,6) by (simp add: exec_ins_def exec_call_def bind_local_def)
  then have "emits K as ?b1 ?st1 (snd (emit ?i ?b1)) ?st2" by (intro emit_emits) simp_all
  then have e2: "emits K as ?b0 st (snd (emit ?i ?b1)) ?st2" by (rule emits_trans [OF e1])
  have "b' = CreateBr bb (snd (emit ?i ?b1))" "v = VInst (Suc n) (i_ty i)"
    using assms(7) by (auto simp: fcp_cm_left_def Let_def case_prod_beta)
  then show ?thesis using exec_emits_br [OF e2, of bb] by (intro exI [of _ ?st2]) (simp add: CreateBr_def)
qed

section \<open>Stubs of the host\<close>

text \<open>The stub of the fast path: the arguments come from the structure, the result goes where the caller
  wants it.\<close>

lemma fcp_stub_runs:
  assumes "prints K (tGyhDebug t)" "toUseGRT c" "has_args si m ap xs" "hstub_args c t f si info = (args, b)"
    and "sArg si = (if params (f_fty f) = [] then None else Some (params (f_fty f)))"
  shows "call_func K (setBody (snd (fcp_stub f hfunc si args b)) f0) [rp, ap] n m = cb_stub_spec (si\<lparr>sFunc := f_fty f\<rparr>) K rp (glob hfunc) xs n m"
proof -
  let ?st = "\<lparr>locals = (\<lambda>_. None), nloc = n, smem = m\<rparr>" and ?as = "[rp, ap]"
  let ?vs = "[VInt 32 (ucast (mUid info)), VArg 0 ptrTy, VArg 1 ptrTy]"
  define b1 where "b1 = debug_call (toDebug c) (tGyhDebug t) (VGlobal (tGyhCallDebugFmt t) # ?vs) (0, [])"
  have "\<forall>v \<in> set ?vs. below (fst (0, [])) v" by simp
  moreover have "those (map (eval ?as (locals ?st)) ?vs) = Some [SInt (ucast (mUid info)), rp, ap]" by simp
  ultimately obtain st1 where st1: "emits K ?as (0, []) ?st b1 st1" "nloc st1 = n" "smem st1 = m"
    using debug_then [OF assms(1), of ?vs "(0, [])" ?as ?st _ "toDebug c" "tGyhCallDebugFmt t"] by (auto simp: b1_def)
  have la: "load_args (sArg si) (VArg 1 ptrTy) b1 = (args, b)"
    using assms(2,4,5) by (auto simp: hstub_args_def b1_def load_args_def Let_def case_prod_beta split: option.splits if_splits)
  have "has_args si (smem st1) ap xs" "eval ?as (locals st1) (VArg 1 ptrTy) = Some ap" using assms(3) st1(3) by simp_all
  from load_args_emits [OF this la, of K] obtain st2 where
    st2: "emits K ?as b1 st1 b st2" "smem st2 = smem st1" "nloc st2 = nloc st1" "map (eval ?as (locals st2)) args = map Some xs" by blast
  note e2 = emits_trans [OF st1(1) st2(1)]
  have ev: "those (map (eval ?as (locals st2)) args) = Some xs" using st2(4) by (simp only: those_eq_Some)
  let ?q = "CreateCall (f_fty f) (VGlobal hfunc) args [] b"
  show ?thesis
  proof (cases "K (glob hfunc) xs n m")
    case None
    have "\<exists>rest. snd (fcp_stub f hfunc si args b) = snd (snd ?q) @ rest"
      using CreateRet_suffix by (auto simp: fcp_stub_def Let_def case_prod_beta CreateStore_def emit_def CreateRet_def)
    then obtain rest where "snd (fcp_stub f hfunc si args b) = snd (snd ?q) @ rest" ..
    moreover have "exec_list K ?as (snd (snd ?q) @ rest) ?st = Stuck"
      by (rule exec_call_stuck [OF e2 _ ev]) (use None st1 st2 in simp_all)
    ultimately show ?thesis using None by (simp add: call_func_body cb_stub_spec_def)
  next
    case (Some rm)
    let ?st3 = "st2\<lparr>locals := (locals st2)(fst b \<mapsto> fst rm), smem := snd rm\<rparr>"
    have "emits K ?as b st2 (snd ?q) ?st3"
      by (rule CreateCall_emits [OF _ ev]) (use Some st1 st2 in simp_all)
    note e3 = emits_trans [OF e2 this]
    show ?thesis
    proof (cases "sRet si")
      case None
      then have "exec_list K ?as (snd (fcp_stub f hfunc si args b)) ?st = Returned SUndef (snd rm)"
        using exec_emits_ret [OF e3, where r = None and v = SUndef] by (simp add: fcp_stub_def Let_def case_prod_beta)
      then show ?thesis using Some None by (simp add: call_func_body cb_stub_spec_def store_ret_def)
    next
      case (Some u)
      then have "snd (fcp_stub f hfunc si args b) = snd (CreateRet None (CreateStore (fst ?q) (VArg 0 ptrTy) (snd ?q)))"
        by (simp add: fcp_stub_def Let_def case_prod_beta)
      then have "exec_list K ?as (snd (fcp_stub f hfunc si args b)) ?st =
          (case store_at (ret_ty (f_fty f)) (fst rm) rp (snd rm) of None \<Rightarrow> Stuck | Some m \<Rightarrow> Returned SUndef m)"
        using exec_store_ret [OF e3, of "fst ?q" "fst rm" "VArg 0 ptrTy" rp] by simp
      then show ?thesis using \<open>K (glob hfunc) xs n m = Some rm\<close> Some
        by (simp add: call_func_body cb_stub_spec_def store_ret_def split: option.splits)
    qed
  qed
qed

end
