(* ===== verification/Plug_TakeRun.thy ===== *)
theory Plug_TakeRun
  imports Plug_TakeCode
begin

text \<open>
  The host stage as a whole: what it leaves in the module it builds, and when it returns.
\<close>

section \<open>The module of the host as it grows\<close>

text \<open>Addresses not yet used, and going from one module to another with the functions that are there, those
  of \<open>Q\<close> apart, left as they are.\<close>

definition fresh_from :: "modstate \<Rightarrow> bool" where
  "fresh_from s \<longleftrightarrow> (\<forall>q \<ge> snd s. map_of (m_funcs (fst s)) q = None)"

definition hext :: "gvptr set \<Rightarrow> modstate \<Rightarrow> modstate \<Rightarrow> bool" where
  "hext Q s s' \<longleftrightarrow> snd s \<le> snd s' \<and> (fresh_from s \<longrightarrow> fresh_from s') \<and>
     (\<forall>q. q < snd s \<longrightarrow> q \<notin> Q \<longrightarrow> map_of (m_funcs (fst s')) q = map_of (m_funcs (fst s)) q)"

lemma hext_refl [simp]: "hext Q s s"
  by (simp add: hext_def)

lemma hext_mono: "hext Q s s' \<Longrightarrow> Q \<subseteq> Q' \<Longrightarrow> hext Q' s s'"
  by (auto simp: hext_def)

lemma hext_trans: "hext Q s s1 \<Longrightarrow> hext Q s1 s2 \<Longrightarrow> hext Q s s2"
  by (simp add: hext_def)

lemma hext_new_function: "hext Q s (snd (new_function U fty l n s))"
  by (auto simp: hext_def fresh_from_def new_function_def map_add_def split: option.splits)

lemma hext_new_gvar: "hext Q s (snd (new_gvar U t c l i n s))"
  by (simp add: hext_def fresh_from_def new_gvar_def)

lemma hext_upd_func: "hext {p} s (upd_func p g s)"
  by (simp add: hext_def fresh_from_def map_of_upd_func upd_func_def [of p g s, THEN arg_cong [of _ _ snd]])

text \<open>A function changed before anybody saw it.\<close>

lemma hext_upd_new: "hext Q s s1 \<Longrightarrow> snd s \<le> p \<Longrightarrow> hext Q s (upd_func p g s1)"
  by (auto simp: hext_def fresh_from_def map_of_upd_func upd_func_def [of p g s1, THEN arg_cong [of _ _ snd]])

lemma intrinsic_decl_hext: "hext Q s (snd (intrinsic_decl L f s))"
proof (cases "getFunction (fst s) (f_name f)")
  case None
  obtain p s1 where n: "new_function (uniq L) (f_fty f) ExternalLinkage (f_name f) s = (p, s1)" by (metis prod.exhaust)
  have "hext Q s s1" using hext_new_function [of Q s "uniq L" "f_fty f" ExternalLinkage "f_name f"] n by simp
  moreover have "snd s \<le> p" using n by (auto simp: new_function_def)
  ultimately show ?thesis using None n by (simp add: intrinsic_decl_def hext_upd_new)
qed (simp add: intrinsic_decl_def)

lemma place_mod [simp]: "wMod (place i b w) = wMod w"
  by (simp add: place_def)

lemma keep_mod [simp]: "wMod (keep i w) = wMod w"
  by (simp add: keep_def)

lemma do_fcp_cm_mod:
  assumes "do_fcp_cm L c t i rest w = Inr (rest', w')"
  shows "wMod w' = wMod w"
proof -
  obtain hf b1 where 1: "fcp_cm_check (i_callee i) (wLabel w + 1) (wLabel w + 2) (wNext w, []) = (hf, b1)" by (metis prod.exhaust)
  obtain lr b2 where 2: "fcp_cm_left hf i (wId w) (fst b1, []) = (lr, b2)" by (metis prod.exhaust)
  note r = assms [unfolded do_fcp_cm_def Let_def 1 2 prod.case]
  from r obtain rr b3 where 3: "do_callback L c t i (fst b2, []) = Inr (rr, b3)"
    by (cases "do_callback L c t i (fst b2, [])") auto
  note r1 = r [unfolded 3 bind_result_Inr prod.case]
  show ?thesis using r1 by (cases rr) (simp_all, auto)
qed

lemma do_other_call_mod:
  assumes "do_other_call L c m t i rest w = Inr (rest', w')"
  shows "wMod w' = wMod w"
proof -
  from assms obtain callee b where o: "TakeOut_do_operand (operand_env_of L m t i) (length (all_values m)) (i_callee i) (wNext w, []) = Inr (callee, b)"
    unfolding do_other_call_def by (cases "TakeOut_do_operand (operand_env_of L m t i) (length (all_values m)) (i_callee i) (wNext w, [])") auto
  note r = assms [unfolded do_other_call_def o bind_result_Inr prod.case Let_def]
  show ?thesis
  proof (cases "toUseFCPcm c")
    case True
    then show ?thesis using r do_fcp_cm_mod by fastforce
  next
    case False
    then show ?thesis using r by (cases "do_callback L c t (i\<lparr>i_callee := callee\<rparr>) (wNext (place i b w), [])") auto
  qed
qed

lemma do_intrinsic_hext: "hext Q (wMod w) (wMod (do_intrinsic L f i w))"
proof -
  obtain q s where d: "intrinsic_decl L f (wMod w) = (q, s)" by (metis prod.exhaust)
  have "wMod (do_intrinsic L f i w) = s" unfolding do_intrinsic_def d prod.case Let_def by (simp split: prod.split)
  then show ?thesis using intrinsic_decl_hext [of Q "wMod w" L f] d by simp
qed

text \<open>What \<open>do_instruction\<close> may do, after the operands.\<close>

lemma do_instruction_cases:
  assumes "do_instruction L c m t i rest w = Inr (rest', w')"
  obtains ops b i1 w1 where "TakeOut_do_operands (operand_env_of L m t i) (length (all_values m)) (i_ops i) (wNext w, []) = Inr (ops, b)"
    and "i1 = i\<lparr>i_ops := ops\<rparr>" "w1 = place i b w"
    and "(rest' = rest \<and> w' = keep i1 w1 \<and> \<not> is_call i) \<or>
      (\<exists>p f q. rest' = rest \<and> w' = keep (i1\<lparr>i_callee := VGlobal q\<rparr>) w1 \<and> is_call i \<and> getCalledFunction m i1 = Some (p, f) \<and>
         (map_of (mWhiteCallees t) p = Some q \<or> toUseFCP c \<and> \<not> isIntrinsic f \<and> map_of (mFcpFuncMap t) p = Some q)) \<or>
      (\<exists>p f. rest' = rest \<and> w' = do_intrinsic L f i1 w1 \<and> is_call i \<and> getCalledFunction m i1 = Some (p, f) \<and> isIntrinsic f \<and>
         map_of (mWhiteCallees t) p = None) \<or>
      (do_other_call L c m t i1 rest w1 = Inr (rest', w') \<and> is_call i)"
proof -
  from assms obtain ops b where o: "TakeOut_do_operands (operand_env_of L m t i) (length (all_values m)) (i_ops i) (wNext w, []) = Inr (ops, b)"
    unfolding do_instruction_def by (cases "TakeOut_do_operands (operand_env_of L m t i) (length (all_values m)) (i_ops i) (wNext w, [])") auto
  note r = assms [unfolded do_instruction_def o bind_result_Inr prod.case Let_def]
  show thesis
  proof (rule that [OF o refl refl], cases "is_call i")
    case call: True
    let ?g = "getCalledFunction m (i\<lparr>i_ops := ops\<rparr>)"
    show "(rest' = rest \<and> w' = keep (i\<lparr>i_ops := ops\<rparr>) (place i b w) \<and> \<not> is_call i) \<or>
      (\<exists>p f q. rest' = rest \<and> w' = keep (i\<lparr>i_ops := ops\<rparr>\<lparr>i_callee := VGlobal q\<rparr>) (place i b w) \<and> is_call i \<and> ?g = Some (p, f) \<and>
         (map_of (mWhiteCallees t) p = Some q \<or> toUseFCP c \<and> \<not> isIntrinsic f \<and> map_of (mFcpFuncMap t) p = Some q)) \<or>
      (\<exists>p f. rest' = rest \<and> w' = do_intrinsic L f (i\<lparr>i_ops := ops\<rparr>) (place i b w) \<and> is_call i \<and> ?g = Some (p, f) \<and> isIntrinsic f \<and>
         map_of (mWhiteCallees t) p = None) \<or>
      (do_other_call L c m t (i\<lparr>i_ops := ops\<rparr>) rest (place i b w) = Inr (rest', w') \<and> is_call i)"
    proof (cases ?g)
      case (Some pf)
      obtain p f where pf: "pf = (p, f)" by (cases pf)
      note r1 = r [unfolded Some pf option.case prod.case]
      show ?thesis
      proof (cases "map_of (mWhiteCallees t) p")
        case None
        show ?thesis
        proof (cases "isIntrinsic f")
          case False
          show ?thesis using r1 None False call Some pf
            by (cases "if toUseFCP c then map_of (mFcpFuncMap t) p else None") (simp_all split: if_splits)
        qed (use r1 None call Some pf in simp)
      qed (use r1 call Some pf in auto)
    qed (use r call in simp)
  qed (use r in simp)
qed

lemma do_instruction_hext:
  assumes "do_instruction L c m t i rest w = Inr (rest', w')"
  shows "hext {} (wMod w) (wMod w')"
  using assms
proof (rule do_instruction_cases, goal_cases)
  case (1 ops b i1 w1)
  then have w: "wMod w1 = wMod w" by simp
  from 1(4) show ?case
    by (elim disjE exE conjE) (use do_intrinsic_hext [of _ w1] w in \<open>simp_all add: do_other_call_mod\<close>)
qed

lemma do_block_hext: "do_block L c m t is w = Inr w' \<Longrightarrow> hext {} (wMod w) (wMod w')"
proof (induction L c m t "is" w rule: do_block.induct)
  case (2 L c m t i rest w)
  from 2(2) obtain r w1 where d: "do_instruction L c m t i rest w = Inr (r, w1)" "do_block L c m t r w1 = Inr w'"
    by (cases "do_instruction L c m t i rest w") auto
  show ?case by (rule hext_trans [OF do_instruction_hext [OF d(1)] 2(1) [OF d(1) refl d(2)]])
qed simp

lemma do_blocks_hext: "do_blocks L c m t n w = Inr w' \<Longrightarrow> hext {} (wMod w) (wMod w')"
proof (induction L c m t n w rule: do_blocks.induct)
  case (2 L c m t n w)
  show ?case
  proof (cases "wTodo w")
    case (Cons bb bbs)
    then obtain w1 where w1: "do_block L c m t (b_ins bb) (w\<lparr>wId := b_id bb, wName := b_name bb, wOut := [], wTodo := bbs\<rparr>) = Inr w1"
        "do_blocks L c m t n (w1\<lparr>wDone := wDone w1 @ [new_block (wId w1) (wName w1) (wOut w1)]\<rparr>) = Inr w'"
      using 2(2) by (cases "do_block L c m t (b_ins bb) (w\<lparr>wId := b_id bb, wName := b_name bb, wOut := [], wTodo := bbs\<rparr>)") auto
    from 2(1) [OF Cons w1] do_block_hext [OF w1(1)] show ?thesis by (simp add: hext_def)
  qed (use 2 in simp)
qed simp

lemma rewrite_body_hext: "rewrite_body L c m t f vs b = Inr (bs, s) \<Longrightarrow> hext {} (tModule t) s"
  unfolding rewrite_body_def Let_def by (auto simp: result_simps case_prod_beta split: list.splits dest!: do_blocks_hext)

text \<open>The fields of \<open>TakeOut\<close> the generation of functions does not change.\<close>

definition same_rt :: "TakeOut \<Rightarrow> TakeOut \<Rightarrow> bool" where
  "same_rt t t' \<longleftrightarrow> tGyhDebug t' = tGyhDebug t \<and> tGyhCallDebugFmt t' = tGyhCallDebugFmt t \<and>
     tGyhCallbackDebugFmt t' = tGyhCallbackDebugFmt t \<and> tGyhCallback t' = tGyhCallback t \<and> tGyhExtreftbl t' = tGyhExtreftbl t \<and>
     tGyhCbstubtbl t' = tGyhCbstubtbl t \<and> mWhiteCallees t' = mWhiteCallees t \<and> mFcpFuncMap t' = mFcpFuncMap t"

lemma same_rt_refl [simp]: "same_rt t t"
  by (simp add: same_rt_def)

lemma same_rt_trans: "same_rt t t1 \<Longrightarrow> same_rt t1 t2 \<Longrightarrow> same_rt t t2"
  by (simp add: same_rt_def)

lemma function_entry_rt:
  assumes "function_entry c st f hf info b t = Inr (vs, b1, t1)"
  shows "same_rt t t1 \<and> tModule t1 = tModule t \<and> mHstubRetPad t1 = mHstubRetPad t"
  using assms unfolding function_entry_def
  by (auto simp: same_rt_def Let_def result_simps case_prod_beta split: if_splits)

lemma do_function_hext:
  assumes "TakeOut_do_function L c m st f q info b t = Inr t'"
  shows "hext {q} (tModule t) (tModule t') \<and> same_rt t t'"
proof -
  from assms obtain hf vs b1 t1 bs s where f: "function_entry c st f hf info b t = Inr (vs, b1, t1)" "rewrite_body L c m t1 f vs b1 = Inr (bs, s)"
      and t': "t' = t1\<lparr>tModule := upd_func q (\<lambda>g. set_blocks bs (g\<lparr>f_attrs := drop_fn_attrs (f_attrs f)\<rparr>)) s\<rparr>"
    by (auto simp: TakeOut_do_function_def result_simps split: option.splits)
  have "hext {q} (tModule t) s" using rewrite_body_hext [OF f(2)] function_entry_rt [OF f(1)] by (auto intro: hext_mono)
  then show ?thesis using hext_trans [OF _ hext_upd_func] function_entry_rt [OF f(1)] by (auto simp: t' same_rt_def)
qed

text \<open>The functions a conversion writes: the stub, and on the fast path the function behind it.\<close>

definition fcp_targets :: "TakeOut \<Rightarrow> gvptr \<Rightarrow> gvptr set" where
  "fcp_targets t p = {h. map_of (mFcpFuncMap t) p = Some h}"

lemma do_hstubcvt_hext:
  assumes "do_hstubcvt L c m st p f hstub si info t = Inr t'"
  shows "hext (insert hstub (fcp_targets t p)) (tModule t) (tModule t') \<and> same_rt t t'"
proof (cases "toUseGRT c \<and> toUseFCP c")
  case True
  let ?Q = "insert hstub (fcp_targets t p)" and ?a = "hstub_args c t f si info"
  from assms True obtain hfunc t3 where h: "map_of (mFcpFuncMap t) p = Some hfunc" and
      f: "TakeOut_do_function L c m st f hfunc info (0, []) (t\<lparr>mHstubArgs := fst ?a, mExtRefsMap := [], mCbStubMap := [],
            tModule := upd_func hstub (setBody (snd (fcp_stub f hfunc si (fst ?a) (snd ?a)))) (tModule t)\<rparr>) = Inr t3" and
      t': "t' = t3\<lparr>tModule := upd_func hstub (f_attrs_update (\<lambda>_. [[EnumAttr OptimizeNone, EnumAttr NoInline]])) (tModule t3)\<rparr>"
    by (auto simp: do_hstubcvt_def Let_def result_simps case_prod_beta split: option.splits)
  have s: "hext ?Q s (upd_func hstub g s)" for s g by (rule hext_mono [OF hext_upd_func]) simp
  have "hext ?Q (upd_func hstub (setBody (snd (fcp_stub f hfunc si (fst ?a) (snd ?a)))) (tModule t)) (tModule t3)"
    using do_function_hext [OF f] h by (auto simp: fcp_targets_def intro: hext_mono)
  then have "hext ?Q (tModule t) (tModule t')" unfolding t' by (auto intro: hext_trans [OF s] hext_trans [OF _ s])
  moreover have "same_rt t t'" using do_function_hext [OF f] by (auto simp: t' same_rt_def)
  ultimately show ?thesis ..
next
  case False
  let ?Q = "insert hstub (fcp_targets t p)" and ?a = "hstub_args c t f si info"
  from assms False obtain refs cbs b1 t2 where
      f: "TakeOut_do_function L c m st f hstub info b1 (t\<lparr>mHstubArgs := fst ?a, mExtRefsMap := refs, mCbStubMap := cbs,
            mHstubRetPad := VArg 0 ptrTy\<rparr>) = Inr t2" and
      t': "t' = t2\<lparr>tModule := upd_func hstub (f_attrs_update (\<lambda>_. hstub_attrs c)) (tModule t2)\<rparr>"
    by (auto simp: do_hstubcvt_def Let_def result_simps case_prod_beta)
  have "hext ?Q (tModule t) (tModule t2)" using do_function_hext [OF f] by (auto intro: hext_mono)
  moreover have "hext ?Q (tModule t2) (tModule t')" unfolding t' by (simp add: hext_mono [OF hext_upd_func])
  ultimately show ?thesis using do_function_hext [OF f] by (auto simp: t' same_rt_def intro: hext_trans)
qed

section \<open>The stubs of the host\<close>

text \<open>Stub \<open>h\<close> of the module of \<open>t'\<close> was made for function \<open>p\<close>: it, and on the fast path the function behind
  it, are as the conversion left them.\<close>

definition hstub_made :: "take_llvm \<Rightarrow> TakeOut_Config \<Rightarrow> modul \<Rightarrow> Symtbl \<Rightarrow> TakeOut \<Rightarrow> gvptr \<Rightarrow> FuncInfo \<Rightarrow> gvptr \<Rightarrow> bool" where
  "hstub_made L c m st t' p info h \<longleftrightarrow> (\<exists>f si t0 t1. map_of (m_funcs m) p = Some f \<and> map_of (mCallingStubs st) (mStubType info) = Some si \<and>
     do_hstubcvt L c m st p f h si info t0 = Inr t1 \<and> same_rt t0 t' \<and> map_of (m_funcs (fst (tModule t0))) h \<noteq> None \<and> h < snd (tModule t0) \<and>
     h < snd (tModule t') \<and> (\<forall>p'. h \<notin> fcp_targets t' p') \<and>
     (\<forall>q \<in> insert h (fcp_targets t' p). map_of (m_funcs (fst (tModule t'))) q = map_of (m_funcs (fst (tModule t1))) q))"

lemma same_rt_targets: "same_rt t t' \<Longrightarrow> fcp_targets t' p = fcp_targets t p"
  by (simp add: fcp_targets_def same_rt_def)

text \<open>The functions of the fast path: different ones for different functions, all declared.\<close>

definition fcp_ok :: "TakeOut \<Rightarrow> bool" where
  "fcp_ok t \<longleftrightarrow> inj_on (map_of (mFcpFuncMap t)) (dom (map_of (mFcpFuncMap t))) \<and> (\<forall>p. \<forall>h \<in> fcp_targets t p. h < snd (tModule t))"

lemma hstub_made_mono:
  assumes "hstub_made L c m st t p info h" "hext Q (tModule t) (tModule t')" "same_rt t t'" "fcp_ok t"
    and "h \<notin> Q" "fcp_targets t p \<inter> Q = {}"
  shows "hstub_made L c m st t' p info h"
proof -
  from assms(1) obtain f si t0 t1 where o: "map_of (m_funcs m) p = Some f" "map_of (mCallingStubs st) (mStubType info) = Some si"
      "do_hstubcvt L c m st p f h si info t0 = Inr t1" "same_rt t0 t" "map_of (m_funcs (fst (tModule t0))) h \<noteq> None \<and> h < snd (tModule t0)"
      "h < snd (tModule t)" "\<forall>p'. h \<notin> fcp_targets t p'"
      "\<forall>q \<in> insert h (fcp_targets t p). map_of (m_funcs (fst (tModule t))) q = map_of (m_funcs (fst (tModule t1))) q"
    unfolding hstub_made_def by blast
  have "\<forall>q \<in> insert h (fcp_targets t p). map_of (m_funcs (fst (tModule t'))) q = map_of (m_funcs (fst (tModule t1))) q"
  proof
    fix q assume q: "q \<in> insert h (fcp_targets t p)"
    then have "q < snd (tModule t)" "q \<notin> Q" using o(6) assms(4-6) by (auto simp: fcp_ok_def)
    then have "map_of (m_funcs (fst (tModule t'))) q = map_of (m_funcs (fst (tModule t))) q" using assms(2) by (simp add: hext_def)
    with q o(8) show "map_of (m_funcs (fst (tModule t'))) q = map_of (m_funcs (fst (tModule t1))) q" by auto
  qed
  moreover have "h < snd (tModule t')" using o(6) assms(2) by (simp add: hext_def)
  ultimately show ?thesis unfolding hstub_made_def same_rt_targets [OF assms(3)]
    using o(1-3,5,7) same_rt_trans [OF o(4) assms(3)] by blast
qed

lemma new_internal_spec:
  assumes "new_internal L fty n t = (h, t')" "fresh_from (tModule t)"
  shows "h = snd (tModule t)" "hext {} (tModule t) (tModule t')" "same_rt t t'" "map_of (m_funcs (fst (tModule t'))) h \<noteq> None"
    "snd (tModule t') = Suc h" "fresh_from (tModule t')" "\<And>f. map_of (m_funcs (fst (tModule t'))) h = Some f \<Longrightarrow> f_fty f = fty"
proof -
  let ?s = "new_function (uniq L) fty InternalLinkage n (tModule t)"
  have e: "h = snd (tModule t)" "t' = t\<lparr>tModule := upd_func h (f_dso_local_update (\<lambda>_. True)) (snd ?s)\<rparr>"
    using assms(1) by (auto simp: new_internal_def Let_def case_prod_beta new_function_def)
  show "h = snd (tModule t)" by (rule e)
  have x: "hext {} (tModule t) (snd ?s)" by (rule hext_new_function)
  show "hext {} (tModule t) (tModule t')" unfolding e(2) using hext_upd_new [OF x] e(1) by simp
  then show "fresh_from (tModule t')" using assms(2) by (simp add: hext_def)
  show "same_rt t t'" by (simp add: e(2) same_rt_def)
  have n: "map_of (m_funcs (fst (tModule t))) h = None" using assms(2) e(1) by (simp add: fresh_from_def)
  have f: "map_of (m_funcs (fst (snd ?s))) h = Some \<lparr>f_name = uniq L (value_names (fst (tModule t))) n, f_fty = fty, f_linkage = InternalLinkage,
      f_attrs = [], f_blocks = [], f_intrinsic = 0, f_prefix = None, f_dso_local = False\<rparr>"
    using n by (auto simp: new_function_def e(1) map_add_def)
  show "map_of (m_funcs (fst (tModule t'))) h \<noteq> None" using f by (simp add: e(2) map_of_upd_func)
  show "f_fty f = fty" if "map_of (m_funcs (fst (tModule t'))) h = Some f" for f
    using f that by (auto simp: e(2) map_of_upd_func)
  show "snd (tModule t') = Suc h" by (simp add: e upd_func_def new_function_def)
qed

text \<open>An entry of the table of stubs.\<close>

definition table_entry :: "take_llvm \<Rightarrow> TakeOut_Config \<Rightarrow> modul \<Rightarrow> Symtbl \<Rightarrow> gvptr list \<Rightarrow> TakeOut \<Rightarrow> gvptr \<times> FuncInfo \<Rightarrow> nat \<times> val \<Rightarrow> bool" where
  "table_entry L c m st black t e kv \<longleftrightarrow> fst kv = unat (mUid (snd e)) \<and>
     (if fst e \<in> set black then snd kv = VNull else \<exists>h. snd kv = VGlobal h \<and> hstub_made L c m st t (fst e) (snd e) h)"

lemma gen_hstub_spec:
  assumes "gen_hstub L c m st black e t = Inr (kv, t')" "fresh_from (tModule t)" "fcp_ok t"
  shows "table_entry L c m st black t' e kv" "same_rt t t'" "fcp_ok t'" "hext (fcp_targets t (fst e)) (tModule t) (tModule t')"
proof -
  obtain p info where e: "e = (p, info)" by (cases e)
  have "table_entry L c m st black t' e kv \<and> same_rt t t' \<and> fcp_ok t' \<and> hext (fcp_targets t (fst e)) (tModule t) (tModule t')"
  proof (cases "p \<in> set black")
    case True
    then show ?thesis using assms by (auto simp: gen_hstub_def e table_entry_def)
  next
    case False
    note r = assms(1) [unfolded gen_hstub_def e prod.case]
    obtain h t1 where n: "new_internal L (hstubTy c) (''__gyh_call_'' @ nat_digits (unat (mUid info))) t = (h, t1)" by (metis prod.exhaust)
    from r False obtain f si where fs: "map_of (m_funcs m) p = Some f" "map_of (mCallingStubs st) (mStubType info) = Some si"
      by (cases "map_of (m_funcs m) p"; cases "map_of (mCallingStubs st) (mStubType info)") auto
    with r False n have "bind_result (do_hstubcvt L c m st p f h si info t1) (\<lambda>t2. Inr ((unat (mUid info), VGlobal h), t2)) = Inr (kv, t')" by simp
    then have d: "do_hstubcvt L c m st p f h si info t1 = Inr t'" and kv: "kv = (unat (mUid info), VGlobal h)"
      by (cases "do_hstubcvt L c m st p f h si info t1"; simp)+
    note ni = new_internal_spec [OF n assms(2)]
    note x = do_hstubcvt_hext [OF d]
    have n1: "h < snd (tModule t1)" using ni(5) by simp
    have rt: "same_rt t t'" using same_rt_trans [OF ni(3)] x by blast
    have tg: "fcp_targets t1 p = fcp_targets t p" "fcp_targets t' p' = fcp_targets t p'" for p'
      using same_rt_targets [OF ni(3)] same_rt_targets [OF rt] by simp_all
    have "h \<notin> fcp_targets t p'" for p' using assms(3) ni(1) by (auto simp: fcp_ok_def)
    moreover have l: "snd (tModule t) \<le> snd (tModule t')" "h < snd (tModule t')" using ni(1,5) x by (simp_all add: hext_def)
    ultimately have made: "hstub_made L c m st t' p info h"
      unfolding hstub_made_def using fs d ni(4) n1 x tg by blast
    have "hext (fcp_targets t p) (tModule t) (tModule t')"
      using ni(1,2,6) x assms(2) unfolding hext_def tg by auto
    moreover have "fcp_ok t'" using assms(3) l(1) rt unfolding fcp_ok_def tg(2) by (fastforce simp: same_rt_def)
    ultimately show ?thesis using made rt False by (simp add: table_entry_def e kv)
  qed
  then show "table_entry L c m st black t' e kv" "same_rt t t'" "fcp_ok t'" "hext (fcp_targets t (fst e)) (tModule t) (tModule t')" by simp_all
qed

lemma table_entry_mono:
  assumes "table_entry L c m st black t e kv" "hext Q (tModule t) (tModule t')" "same_rt t t'" "fcp_ok t"
    and "\<And>h. snd kv = VGlobal h \<Longrightarrow> h \<notin> Q" "fcp_targets t (fst e) \<inter> Q = {}"
  shows "table_entry L c m st black t' e kv"
  using assms hstub_made_mono [OF _ assms(2-4)] unfolding table_entry_def by auto

lemma fcp_targets_disjoint: "fcp_ok t \<Longrightarrow> p \<noteq> p' \<Longrightarrow> fcp_targets t p \<inter> fcp_targets t p' = {}"
  by (auto simp: fcp_ok_def fcp_targets_def inj_on_def dom_def)

lemma table_entry_stub:
  assumes "table_entry L c m st black t e kv" "snd kv = VGlobal h"
  shows "h < snd (tModule t) \<and> h \<notin> fcp_targets t p"
  using assms by (auto simp: table_entry_def hstub_made_def split: if_splits)

lemma gen_hstubs_spec:
  assumes "gen_hstubs L c m st black es t = Inr (kvs, t')" "fresh_from (tModule t)" "fcp_ok t" "distinct (map fst es)"
  shows "list_all2 (table_entry L c m st black t') es kvs \<and> same_rt t t' \<and> fcp_ok t' \<and>
    hext (\<Union>e \<in> set es. fcp_targets t (fst e)) (tModule t) (tModule t')"
  using assms
proof (induction es arbitrary: t kvs)
  case (Cons e es)
  from Cons.prems(1) obtain kv t1 where g1: "gen_hstub L c m st black e t = Inr (kv, t1)"
    by (cases "gen_hstub L c m st black e t") auto
  from Cons.prems(1) obtain ks where g: "gen_hstub L c m st black e t = Inr (kv, t1)" "gen_hstubs L c m st black es t1 = Inr (ks, t')"
      and kvs: "kvs = kv # ks"
    unfolding gen_hstubs.simps g1 bind_result_Inr prod.case by (cases "gen_hstubs L c m st black es t1") auto
  note s = gen_hstub_spec [OF g(1) Cons.prems(2,3)]
  have fr: "fresh_from (tModule t1)" using s(4) Cons.prems(2) by (simp add: hext_def)
  note i = Cons.IH [OF g(2) fr s(3)]
  have tg: "fcp_targets t1 p = fcp_targets t p" for p using same_rt_targets [OF s(2)] .
  let ?Q = "\<Union>e \<in> set es. fcp_targets t (fst e)"
  have x: "hext ?Q (tModule t1) (tModule t')" "same_rt t1 t'" "fcp_ok t'" "list_all2 (table_entry L c m st black t') es ks"
    using i Cons.prems(4) by (simp_all add: tg)
  have "fcp_targets t1 (fst e) \<inter> ?Q = {}" 
  proof -
    have "fcp_targets t (fst e) \<inter> fcp_targets t (fst e') = {}" if "e' \<in> set es" for e'
      by (rule fcp_targets_disjoint [OF Cons.prems(3)]) (use Cons.prems(4) that in force)
    then show ?thesis unfolding tg by blast
  qed
  moreover have "h \<notin> ?Q" if "snd kv = VGlobal h" for h using table_entry_stub [OF s(1) that] tg by simp
  ultimately have "table_entry L c m st black t' e kv" by (intro table_entry_mono [OF s(1) x(1,2) s(3)])
  moreover have "hext (\<Union>e \<in> set (e # es). fcp_targets t (fst e)) (tModule t) (tModule t')"
    by (rule hext_trans [OF hext_mono [OF s(4)] hext_mono [OF x(1)]]) simp_all
  ultimately show ?case using x same_rt_trans [OF s(2)] by (simp add: kvs)
qed simp

section \<open>The table of the host\<close>

lemma inject_decl_hext: "hext Q s (inject_decl U d s)"
proof -
  obtain n fty al where d: "d = (n, fty, al)" by (cases d)
  let ?r = "new_function U fty ExternalLinkage n s"
  have "hext Q s (snd ?r)" "snd s \<le> fst ?r" using hext_new_function by (simp_all add: new_function_def)
  then show ?thesis unfolding d inject_decl_def by (simp add: Let_def case_prod_beta hext_upd_new)
qed

lemma fold_hext: "(\<And>x s. x \<in> set xs \<Longrightarrow> hext Q (g s) (g (f x s))) \<Longrightarrow> hext Q (g s) (g (fold f xs s))"
proof (induction xs arbitrary: s)
  case (Cons x xs)
  then show ?case using hext_trans [of Q "g s" "g (f x s)"] by simp
qed simp

lemma fresh_template: "fresh_from (template_module U n)"
proof -
  have "hext {} (empty_module, n) (template_module U n)"
    unfolding template_module_def using fold_hext [where g = id and f = "inject_decl U"] inject_decl_hext by simp
  moreover have "fresh_from (empty_module, n)" by (simp add: fresh_from_def empty_module_def)
  ultimately show ?thesis by (simp add: hext_def)
qed

lemma hext_two_gvars: "hext Q s (snd (new_gvar U t2 k2 l2 i2 n2 (snd (new_gvar U t1 k1 l1 i1 n1 s))))"
  by (rule hext_trans [OF hext_new_gvar hext_new_gvar])

lemma gen_debug_spec:
  assumes "TakeOut_gen_debug L c t = Inr t'"
  shows "hext {} (tModule t) (tModule t') \<and> mFcpFuncMap t' = mFcpFuncMap t \<and> mWhiteCallees t' = mWhiteCallees t"
proof -
  from assms obtain dbg cb where "runtime_func (tModule t) ''__gyh_debug__'' = Inr dbg" "runtime_func (tModule t) ''__gyh_callback__'' = Inr cb"
    unfolding TakeOut_gen_debug_def
    by (cases "runtime_func (tModule t) ''__gyh_debug__''"; cases "runtime_func (tModule t) ''__gyh_callback__''") auto
  note r = assms [unfolded TakeOut_gen_debug_def this bind_result_Inr Let_def]
  then show ?thesis by (auto simp: case_prod_beta hext_two_gvars)
qed

lemma declare_white_spec:
  "hext {} (tModule t) (tModule (declare_white L m e t)) \<and> mFcpFuncMap (declare_white L m e t) = mFcpFuncMap t"
  by (simp add: hext_new_function declare_white_def Let_def case_prod_beta split: option.splits)

lemma gen_grt_vars_spec: "hext {} (tModule t) (tModule (gen_grt_vars L st t)) \<and> mFcpFuncMap (gen_grt_vars L st t) = mFcpFuncMap t"
  by (simp add: gen_grt_vars_def Let_def case_prod_beta hext_two_gvars)

lemma declare_hfunc_spec:
  assumes "fcp_ok t" "fresh_from (tModule t)"
  shows "fcp_ok (declare_hfunc L m black e t) \<and> fresh_from (tModule (declare_hfunc L m black e t))"
proof (cases "map_of (m_funcs m) (fst e)")
  case (Some f)
  obtain h t1 where n: "new_internal L (f_fty f) (f_name f) t = (h, t1)" by (metis prod.exhaust)
  note ni = new_internal_spec [OF n assms(2)]
  have fm: "mFcpFuncMap t1 = mFcpFuncMap t" using ni(3) by (simp add: same_rt_def)
  have lt: "map_of (mFcpFuncMap t) p = Some q \<Longrightarrow> q < h" for p q using assms(1) ni(1) by (auto simp: fcp_ok_def fcp_targets_def)
  have inj: "inj_on (map_of (mFcpFuncMap t)) (dom (map_of (mFcpFuncMap t)))" using assms(1) by (simp add: fcp_ok_def)
  have "fcp_ok (t1\<lparr>mFcpFuncMap := (fst e, h) # mFcpFuncMap t1\<rparr>)"
    unfolding fcp_ok_def
  proof (intro conjI inj_onI allI ballI)
    fix x y assume "x \<in> dom (map_of (mFcpFuncMap (t1\<lparr>mFcpFuncMap := (fst e, h) # mFcpFuncMap t1\<rparr>)))"
      "y \<in> dom (map_of (mFcpFuncMap (t1\<lparr>mFcpFuncMap := (fst e, h) # mFcpFuncMap t1\<rparr>)))"
      "map_of (mFcpFuncMap (t1\<lparr>mFcpFuncMap := (fst e, h) # mFcpFuncMap t1\<rparr>)) x = map_of (mFcpFuncMap (t1\<lparr>mFcpFuncMap := (fst e, h) # mFcpFuncMap t1\<rparr>)) y"
    then show "x = y" using inj lt [of x h] lt [of y h] unfolding fm by (auto simp: inj_on_def dom_def split: if_splits)
  next
    fix p q assume "q \<in> fcp_targets (t1\<lparr>mFcpFuncMap := (fst e, h) # mFcpFuncMap t1\<rparr>) p"
    then show "q < snd (tModule (t1\<lparr>mFcpFuncMap := (fst e, h) # mFcpFuncMap t1\<rparr>))"
      using lt [of p q] ni(5) by (auto simp: fcp_targets_def fm split: if_splits)
  qed
  then show ?thesis using Some n assms ni(6) by (simp add: declare_hfunc_def)
qed (use assms in \<open>simp add: declare_hfunc_def\<close>)

lemma fold_declare_hfunc:
  "fcp_ok t \<Longrightarrow> fresh_from (tModule t) \<Longrightarrow>
    fcp_ok (fold (declare_hfunc L m black) es t) \<and> fresh_from (tModule (fold (declare_hfunc L m black) es t))"
  by (induction es arbitrary: t) (simp_all add: declare_hfunc_spec)

lemma list_all2_keyed:
  assumes "list_all2 P es kvs" "distinct (map fst es)" "\<And>e kv. P e kv \<Longrightarrow> fst kv = u (snd e)"
  shows "\<exists>hv. kvs = map (\<lambda>(k, x). (u x, hv k)) es"
  using assms(1,2)
proof (induction es kvs rule: list_all2_induct)
  case (Cons e es kv kvs)
  then obtain hv where hv: "kvs = map (\<lambda>(k, x). (u x, hv k)) es" by auto
  have "fst e \<notin> fst ` set es" using Cons.prems by simp
  then have "map (\<lambda>(k, x). (u x, (hv(fst e := snd kv)) k)) es = map (\<lambda>(k, x). (u x, hv k)) es"
    by (intro map_cong refl) (auto simp: rev_image_eqI)
  moreover have "kv = (u (snd e), snd kv)" using assms(3) [OF Cons.hyps(1)] by (simp add: prod_eq_iff)
  ultimately show ?case by (intro exI [of _ "hv(fst e := snd kv)"]) (simp add: hv case_prod_beta)
qed simp

text \<open>A table in the module: an exported constant of pointers, one for each function by number.\<close>

definition exported_table :: "take_llvm \<Rightarrow> TakeOut \<Rightarrow> string \<Rightarrow> val list \<Rightarrow> bool" where
  "exported_table L t name vs \<longleftrightarrow> (\<exists>q g ns. (q, g) \<in> set (m_gvars (fst (tModule t))) \<and> g_name g = uniq L ns name \<and> g_const g \<and>
     g_linkage g = ExternalLinkage \<and> g_ty g = ptrArrayTy (length vs) \<and> g_init g = Some (VAggr AArray (ptrArrayTy (length vs)) vs))"

definition by_number :: "Symtbl \<Rightarrow> val list \<Rightarrow> (gvptr \<Rightarrow> FuncInfo \<Rightarrow> val \<Rightarrow> bool) \<Rightarrow> bool" where
  "by_number st vs P \<longleftrightarrow> length vs = length (mFunctbl st) \<and>
     (\<forall>(p, info) \<in> set (mFunctbl st). unat (mUid info) < length vs \<and> P p info (vs ! unat (mUid info)))"

lemma numbered_table:
  assumes "list_all2 P (mFunctbl st) kvs" "\<And>e kv. P e kv \<Longrightarrow> fst kv = unat (mUid (snd e))"
    and "numbered mUid (mFunctbl st)" "length (mFunctbl st) \<le> 2 ^ 32"
  shows "\<exists>vs. fill_table (length (mFunctbl st)) kvs = Inr vs \<and> by_number st vs (\<lambda>p info v. P (p, info) (unat (mUid info), v))"
proof -
  have d: "distinct (map fst (mFunctbl st))" using assms(3) map_sorted_distinct by (auto simp: numbered_def)
  obtain hv where kvs: "kvs = map (\<lambda>(k, x). (unat (mUid x), hv k)) (mFunctbl st)"
    using list_all2_keyed [OF assms(1) d, of "\<lambda>x. unat (mUid x)"] assms(2) by blast
  obtain vs where vs: "fill_table (length (mFunctbl st)) kvs = Inr vs" "length vs = length (mFunctbl st)"
      "\<forall>(k, x) \<in> set (mFunctbl st). unat (mUid x) < length (mFunctbl st) \<and> vs ! unat (mUid x) = hv k"
    using numbered_fill [OF assms(3,4), of hv] unfolding kvs by blast
  have "P (p, info) (unat (mUid info), hv p)" if "(p, info) \<in> set (mFunctbl st)" for p info
  proof -
    from that obtain n where "n < length (mFunctbl st)" "mFunctbl st ! n = (p, info)" by (auto simp: in_set_conv_nth)
    then show ?thesis using list_all2_nthD [OF assms(1), of n] by (simp add: kvs)
  qed
  with vs show ?thesis by (auto simp: by_number_def)
qed

lemma fcp_entries_spec:
  assumes "fcp_entries fm black es = Inr kvs"
  shows "list_all2 (\<lambda>e kv. fst kv = unat (mUid (snd e)) \<and>
    (if fst e \<in> set black then snd kv = VNull else \<exists>h. map_of fm (fst e) = Some h \<and> snd kv = VGlobal h)) es kvs"
  using assms
proof (induction fm black es arbitrary: kvs rule: fcp_entries.induct)
  case (2 fm black p info es)
  define w :: "(plug_abort, val) result" where
    "w = (if p \<in> set black then Inr VNull else case map_of fm p of None \<Rightarrow> Inl KeyMissing | Some h \<Rightarrow> Inr (VGlobal h))"
  note w = w_def [symmetric]
  from 2(2) obtain v where v: "w = Inr v" unfolding fcp_entries.simps w by (cases w) auto
  note r = 2(2) [unfolded fcp_entries.simps w v bind_result_Inr]
  then obtain ks where ks: "fcp_entries fm black es = Inr ks" "kvs = (unat (mUid info), v) # ks" by (cases "fcp_entries fm black es") auto
  have "if p \<in> set black then v = VNull else \<exists>h. map_of fm p = Some h \<and> v = VGlobal h"
    using v unfolding w_def by (cases "map_of fm p") (simp_all split: if_splits)
  then show ?case using 2(1) [OF v [unfolded w_def] ks(1)] ks(2) by simp
qed simp

lemma new_gvar_table: "\<exists>q g. (q, g) \<in> set (m_gvars (fst (snd (new_gvar U t k l i n s)))) \<and>
    g_name g = U (value_names (fst s)) n \<and> g_const g = k \<and> g_linkage g = l \<and> g_ty g = t \<and> g_init g = Some i"
  unfolding new_gvar_def
  by (intro exI [of _ "snd s"] exI [of _ "\<lparr>g_name = U (value_names (fst s)) n, g_ty = t, g_const = k, g_linkage = l, g_init = Some i,
      g_dso_local = False\<rparr>"]) simp

lemma new_gvar_keeps: "x \<in> set (m_gvars (fst s)) \<Longrightarrow> x \<in> set (m_gvars (fst (snd (new_gvar U t k l i n s))))"
  by (simp add: new_gvar_def)

lemma gen_functbl_spec:
  assumes "gen_functbl L c st black kvs t = Inr t'" "fill_table (length (mFunctbl st)) kvs = Inr vs" "length vs = length (mFunctbl st)"
    and "numbered mUid (mFunctbl st)" "length (mFunctbl st) \<le> 2 ^ 32"
  shows "hext {} (tModule t) (tModule t') \<and> same_rt t t' \<and> exported_table L t' (''__gyh_hfunctbl_'' @ module_uid_hex (hashing L) st) vs \<and>
    (toUseFCPcm c \<longrightarrow> (\<exists>fs. exported_table L t' (''__gyh_functbl_'' @ module_uid_hex (hashing L) st) fs \<and>
       by_number st fs (\<lambda>p info v. if p \<in> set black then v = VNull else \<exists>h. map_of (mFcpFuncMap t) p = Some h \<and> v = VGlobal h)))"
proof -
  let ?uid = "module_uid_hex (hashing L) st" and ?n = "length (mFunctbl st)"
  define s1 where "s1 = snd (new_gvar (uniq L) i64Ty True ExternalLinkage (VInt 64 (of_nat ?n)) (''__gyh_hfunctbl_size_'' @ ?uid) (tModule t))"
  define s2 where "s2 = snd (new_gvar (uniq L) (ptrArrayTy ?n) True ExternalLinkage (VAggr AArray (ptrArrayTy ?n) vs) (''__gyh_hfunctbl_'' @ ?uid) s1)"
  have x: "hext {} (tModule t) s2" unfolding s2_def s1_def by (rule hext_two_gvars)
  obtain q g where g: "(q, g) \<in> set (m_gvars (fst s2))" "g_name g = uniq L (value_names (fst s1)) (''__gyh_hfunctbl_'' @ ?uid)" "g_const g"
      "g_linkage g = ExternalLinkage" "g_ty g = ptrArrayTy ?n" "g_init g = Some (VAggr AArray (ptrArrayTy ?n) vs)"
    unfolding s2_def using new_gvar_table by blast
  have ex: "exported_table L t' (''__gyh_hfunctbl_'' @ ?uid) vs" if "(q, g) \<in> set (m_gvars (fst (tModule t')))" for t'
    using that g(2-6) assms(3) unfolding exported_table_def by auto
  note r = assms(1) [unfolded gen_functbl_def Let_def assms(2) bind_result_Inr case_prod_beta, folded s1_def, folded s2_def]
  show ?thesis
  proof (cases "toUseFCPcm c")
    case False
    then have "t' = t\<lparr>tModule := s2\<rparr>" using r by simp
    then show ?thesis using False x ex g(1) by (simp add: same_rt_def)
  next
    case True
    then obtain es where es: "fcp_entries (mFcpFuncMap t) black (mFunctbl st) = Inr es" using r by (cases "fcp_entries (mFcpFuncMap t) black (mFunctbl st)") auto
    have "fst kv = unat (mUid (snd e))" if "fst kv = unat (mUid (snd e)) \<and> X" for e kv X using that by simp
    from numbered_table [OF fcp_entries_spec [OF es] this assms(4,5)] obtain fs where
      fs: "fill_table ?n es = Inr fs" "by_number st fs (\<lambda>p info v. if p \<in> set black then v = VNull else \<exists>h. map_of (mFcpFuncMap t) p = Some h \<and> v = VGlobal h)"
      unfolding fst_conv snd_conv by (auto simp: by_number_def)
    define s3 where "s3 = new_gvar (uniq L) (ptrArrayTy ?n) True ExternalLinkage (VAggr AArray (ptrArrayTy ?n) fs) (''__gyh_functbl_'' @ ?uid) s2"
    have t': "t' = t\<lparr>tModule := snd s3, tGyhFunctbl := Some (fst s3)\<rparr>" using r True es fs(1) by (simp add: s3_def)
    have "exported_table L t' (''__gyh_functbl_'' @ ?uid) fs"
      using new_gvar_table [of "uniq L" "ptrArrayTy ?n" True ExternalLinkage "VAggr AArray (ptrArrayTy ?n) fs" "''__gyh_functbl_'' @ ?uid" s2] fs(2)
      unfolding exported_table_def by (auto simp: t' s3_def by_number_def)
    moreover have "hext {} (tModule t) (tModule t')" using hext_trans [OF x hext_new_gvar] by (simp add: t' s3_def)
    moreover have "(q, g) \<in> set (m_gvars (fst (tModule t')))" using new_gvar_keeps [OF g(1)] by (simp add: t' s3_def)
    moreover have "same_rt t t'" by (simp add: t' same_rt_def)
    ultimately show ?thesis using ex fs(2) by blast
  qed
qed

text \<open>The two tables of the host module: of the stubs, and of the functions of the fast path.\<close>

definition host_tables :: "take_llvm \<Rightarrow> TakeOut_Config \<Rightarrow> BwList \<Rightarrow> Symtbl \<Rightarrow> modul \<Rightarrow> TakeOut \<Rightarrow> val list \<Rightarrow> bool" where
  "host_tables L c bw st m t hfuncs \<longleftrightarrow>
     exported_table L t (''__gyh_hfunctbl_'' @ module_uid_hex (hashing L) st) hfuncs \<and>
     by_number st hfuncs (\<lambda>p info v. if p \<in> set (take_black bw) then v = VNull
       else \<exists>h. v = VGlobal h \<and> hstub_made L c m st t p info h) \<and>
     (toUseFCPcm c \<longrightarrow> (\<exists>fs. exported_table L t (''__gyh_functbl_'' @ module_uid_hex (hashing L) st) fs \<and>
       by_number st fs (\<lambda>p info v. if p \<in> set (take_black bw) then v = VNull else \<exists>h. map_of (mFcpFuncMap t) p = Some h \<and> v = VGlobal h)))"

lemma gen_hfuncs_spec:
  assumes "gen_hfuncs L c m st black t = Inr (kvs, t')" "fresh_from (tModule t)" "mFcpFuncMap t = []" "distinct (map fst (mFunctbl st))"
  shows "list_all2 (table_entry L c m st black t') (mFunctbl st) kvs" "fcp_ok t'"
proof -
  define t1 where "t1 = (if toUseGRT c then gen_grt_vars L st t else t)"
  define t2 where "t2 = (if toUseFCP c then fold (declare_hfunc L m black) (mFunctbl st) t1 else t1)"
  have g: "gen_hstubs L c m st black (mFunctbl st) t2 = Inr (kvs, t')" using assms(1) unfolding t1_def t2_def by (simp only: gen_hfuncs_def Let_def)
  have "fresh_from (tModule t1)" "mFcpFuncMap t1 = []"
    using assms(2,3) gen_grt_vars_spec [of t L st] by (simp_all add: t1_def hext_def)
  then have "fcp_ok t1" "fresh_from (tModule t1)" by (simp_all add: fcp_ok_def fcp_targets_def)
  then have "fcp_ok t2" "fresh_from (tModule t2)" using fold_declare_hfunc by (auto simp: t2_def)
  from gen_hstubs_spec [OF g this(2,1) assms(4)]
  show "list_all2 (table_entry L c m st black t') (mFunctbl st) kvs" "fcp_ok t'" by simp_all
qed

lemma fold_declare_white: "hext {} (tModule t) (tModule (fold (declare_white L m) es t)) \<and> mFcpFuncMap (fold (declare_white L m) es t) = mFcpFuncMap t"
proof (induction es arbitrary: t)
  case (Cons e es)
  show ?case using Cons [of "declare_white L m e t"] declare_white_spec [of t L m e] hext_trans by fastforce
qed simp

lemma take_out_spec:
  assumes "take_out L c bw st s = Inr (t, ds)" "numbered mUid (mFunctbl st)" "length (mFunctbl st) \<le> 2 ^ 32"
  shows "ds = take_diag bw st" "\<exists>hfuncs. host_tables L c bw st (fst s) t hfuncs" "fcp_ok t"
proof -
  obtain h n where tm: "template_module (uniq L) (snd s) = (h, n)" by (metis prod.exhaust)
  define t0 where "t0 = TakeOut_new (h\<lparr>m_id := m_id (fst s), m_layout := m_layout (fst s), m_flags := m_flags h @ m_flags (fst s)\<rparr>, n)"
  note r = assms(1) [unfolded take_out_def Let_def tm prod.case, folded t0_def]
  from r obtain t1 where t1: "TakeOut_gen_debug L c t0 = Inr t1" by (cases "TakeOut_gen_debug L c t0") auto
  define t2 where "t2 = fold (declare_white L (fst s)) (mCallees bw) t1"
  note r2 = r [unfolded t1 bind_result_Inr, folded t2_def]
  from r2 obtain kvs t3 where t3: "gen_hfuncs L c (fst s) st (take_black bw) t2 = Inr (kvs, t3)"
    by (cases "gen_hfuncs L c (fst s) st (take_black bw) t2") auto
  note r3 = r2 [unfolded t3 bind_result_Inr prod.case]
  then have t4: "gen_functbl L c st (take_black bw) kvs t3 = Inr t" and "ds = take_diag bw st"
    by (cases "gen_functbl L c st (take_black bw) kvs t3"; simp)+
  then show "ds = take_diag bw st" by simp
  have "fresh_from (h, n)" using fresh_template [of "uniq L" "snd s"] tm by simp
  then have "fresh_from (tModule t0)" "mFcpFuncMap t0 = []" by (simp_all add: t0_def TakeOut_new_def fresh_from_def)
  then have "fresh_from (tModule t2)" "mFcpFuncMap t2 = []"
    using gen_debug_spec [OF t1] fold_declare_white [of t1 L "fst s" "mCallees bw"] by (simp_all add: t2_def hext_def)
  moreover have "distinct (map fst (mFunctbl st))" using assms(2) map_sorted_distinct by (auto simp: numbered_def)
  ultimately have g: "list_all2 (table_entry L c (fst s) st (take_black bw) t3) (mFunctbl st) kvs" "fcp_ok t3"
    by (rule gen_hfuncs_spec [OF t3])+
  have "fst kv = unat (mUid (snd e))" if "table_entry L c (fst s) st (take_black bw) t3 e kv" for e kv using that by (simp add: table_entry_def)
  from numbered_table [OF g(1) this assms(2,3)] obtain vs where vs: "fill_table (length (mFunctbl st)) kvs = Inr vs"
      "by_number st vs (\<lambda>p info v. table_entry L c (fst s) st (take_black bw) t3 (p, info) (unat (mUid info), v))" by blast
  have "length vs = length (mFunctbl st)" using vs(2) by (simp add: by_number_def)
  note f = gen_functbl_spec [OF t4 vs(1) this assms(2,3)]
  have rt: "hext {} (tModule t3) (tModule t)" "same_rt t3 t" using f by simp_all
  have e: "table_entry L c (fst s) st (take_black bw) t e kv" if "table_entry L c (fst s) st (take_black bw) t3 e kv" for e kv
    by (rule table_entry_mono [OF that rt g(2)]) simp_all
  have "by_number st vs (\<lambda>p info v. if p \<in> set (take_black bw) then v = VNull else \<exists>h. v = VGlobal h \<and> hstub_made L c (fst s) st t p info h)"
    using vs(2) e unfolding by_number_def by (fastforce simp: table_entry_def)
  moreover have fm: "mFcpFuncMap t = mFcpFuncMap t3" using rt(2) by (simp add: same_rt_def)
  ultimately have "host_tables L c bw st (fst s) t vs" unfolding host_tables_def fm using f by blast
  then show "\<exists>hfuncs. host_tables L c bw st (fst s) t hfuncs" ..
  show "fcp_ok t" using g(2) rt unfolding fcp_ok_def same_rt_targets [OF rt(2)] by (fastforce simp: same_rt_def hext_def)
qed

text \<open>The stub of the fast path in the finished module.\<close>

lemma hstub_made_fcp:
  assumes "hstub_made L c m st t p info h" "toUseGRT c" "toUseFCP c" "map_of (m_funcs m) p = Some f" "map_of (mCallingStubs st) (mStubType info) = Some si"
  shows "\<exists>hfunc g f0. map_of (mFcpFuncMap t) p = Some hfunc \<and> map_of (m_funcs (fst (tModule t))) h = Some g \<and>
    f_blocks g = f_blocks (setBody (snd (fcp_stub f hfunc si (fst (hstub_args c t f si info)) (snd (hstub_args c t f si info)))) f0)"
proof -
  from assms(1,4,5) obtain t0 t1 where o: "do_hstubcvt L c m st p f h si info t0 = Inr t1" "same_rt t0 t" "map_of (m_funcs (fst (tModule t0))) h \<noteq> None"
      "h < snd (tModule t0)" "h \<notin> fcp_targets t p" "map_of (m_funcs (fst (tModule t))) h = map_of (m_funcs (fst (tModule t1))) h"
    unfolding hstub_made_def by auto
  have a: "hstub_args c t0 f si info = hstub_args c t f si info" using o(2) by (simp add: hstub_args_def same_rt_def)
  let ?a = "hstub_args c t f si info"
  from o(1) assms(2,3) obtain hfunc t3 where hf: "map_of (mFcpFuncMap t0) p = Some hfunc" and
      d: "TakeOut_do_function L c m st f hfunc info (0, []) (t0\<lparr>mHstubArgs := fst ?a, mExtRefsMap := [], mCbStubMap := [],
            tModule := upd_func h (setBody (snd (fcp_stub f hfunc si (fst ?a) (snd ?a)))) (tModule t0)\<rparr>) = Inr t3" and
      t1: "t1 = t3\<lparr>tModule := upd_func h (f_attrs_update (\<lambda>_. [[EnumAttr OptimizeNone, EnumAttr NoInline]])) (tModule t3)\<rparr>"
    unfolding do_hstubcvt_def Let_def a case_prod_beta by (auto simp: result_simps split: option.splits)
  have hm: "map_of (mFcpFuncMap t) p = Some hfunc" using hf o(2) by (simp add: same_rt_def)
  then have "h \<noteq> hfunc" using o(5) by (auto simp: fcp_targets_def)
  obtain g0 where g0: "map_of (m_funcs (fst (tModule t0))) h = Some g0" using o(3) by blast
  have "map_of (m_funcs (fst (tModule t3))) h = Some (setBody (snd (fcp_stub f hfunc si (fst ?a) (snd ?a))) g0)"
    using do_function_hext [OF d] o(4) g0 \<open>h \<noteq> hfunc\<close> by (simp add: hext_def map_of_upd_func upd_func_def [THEN arg_cong [of _ _ snd]])
  then have "map_of (m_funcs (fst (tModule t))) h = Some ((setBody (snd (fcp_stub f hfunc si (fst ?a) (snd ?a))) g0)\<lparr>f_attrs := [[EnumAttr OptimizeNone, EnumAttr NoInline]]\<rparr>)"
    unfolding o(6) t1 by (simp add: map_of_upd_func)
  then show ?thesis using hm by (intro exI [of _ hfunc] exI conjI) (assumption | simp)+
qed

lemma call_func_blocks: "f_blocks g = f_blocks f \<Longrightarrow> call_func K g = call_func K f"
  by (intro ext) (simp add: call_func_def)

section \<open>From the guest to the host\<close>

text \<open>The stack a stub of the guest builds for a call.\<close>

definition call_frame :: "StubInfo \<Rightarrow> sval list \<Rightarrow> nat \<times> smem \<Rightarrow> sval \<times> sval \<times> nat \<times> smem" where
  "call_frame si as fr =
     (let (rp, fr1) = push (map_option (\<lambda>t. (t, undef_of t)) (sRet si)) fr;
          (ap, fr2) = push (map_option (\<lambda>ts. (structTy ts, SAgg as)) (sArg si)) fr1
      in (rp, ap, fr2))"

lemma call_frame_shape:
  assumes "call_frame si as (n, m) = (rp, ap, n2, m2)" "case sArg si of None \<Rightarrow> as = [] | Some ts \<Rightarrow> length as = length ts"
  shows "n \<le> n2" "has_args si m2 ap as" "sRet si \<noteq> None \<Longrightarrow> rp = SPtr (OLoc n) 0 \<and> n < n2"
proof -
  show "n \<le> n2" using assms(1) by (auto simp: call_frame_def push_def split: option.splits)
  show "has_args si m2 ap as" using assms
    by (cases "sArg si"; cases "sRet si") (auto simp: call_frame_def push_def has_args_def load_cell_def)
  show "sRet si \<noteq> None \<Longrightarrow> rp = SPtr (OLoc n) 0 \<and> n < n2"
    using assms(1) by (cases "sRet si"; cases "sArg si") (auto simp: call_frame_def push_def)
qed

text \<open>A call of a replaced function when the runtime passes it to a stub of the host.\<close>

lemma gstub_via_host:
  assumes "coUseGRT c" "call_frame si as (n, m) = (rp, ap, n2, m2)" "case sArg si of None \<Rightarrow> as = [] | Some ts \<Rightarrow> length as = length ts"
    and "K (glob (mGyhCallGRT s)) [glob (mGyhQlibUid s), SInt (ucast (mUid info)), rp, ap] n2 m2 =
      cb_stub_spec (si\<lparr>sFunc := fty\<rparr>) Kh rp (glob hfunc) as n2 m2"
    and "sRet si = (if ret_ty fty = VoidTy then None else Some (ret_ty fty))"
    and "\<And>r m3. Kh (glob hfunc) as n2 m2 = Some (r, m3) \<Longrightarrow> sRet si \<noteq> None \<Longrightarrow> m3 (OLoc n) \<noteq> None"
  shows "gstub_spec c s si info stubs K as n m =
    map_option (\<lambda>(r, m3). (if sRet si = None then SUndef else r, pop_frame n m3)) (Kh (glob hfunc) as n2 m2)"
proof -
  note sh = call_frame_shape [OF assms(2,3)]
  have g: "gstub_spec c s si info stubs K as n m =
      (case K (glob (mGyhCallGRT s)) [glob (mGyhQlibUid s), SInt (ucast (mUid info)), rp, ap] n2 m2 of
        None \<Rightarrow> None
      | Some (r, m'') \<Rightarrow> (case sRet si of None \<Rightarrow> Some (SUndef, pop_frame n m'')
          | Some t \<Rightarrow> map_option (\<lambda>v. (v, pop_frame n m'')) (load_at t m'' rp)))"
  proof -
    obtain fr1 where "push (map_option (\<lambda>t. (t, undef_of t)) (sRet si)) (n, m) = (rp, fr1)" "push (map_option (\<lambda>ts. (structTy ts, SAgg as)) (sArg si)) fr1 = (ap, n2, m2)"
      using assms(2) unfolding call_frame_def Let_def by (cases "push (map_option (\<lambda>t. (t, undef_of t)) (sRet si)) (n, m)") (simp add: case_prod_beta prod_eq_iff)
    then show ?thesis using assms(1) by (simp add: gstub_spec_def gcall_spec_def Let_def)
  qed
  show ?thesis
  proof (cases "Kh (glob hfunc) as n2 m2")
    case None
    then show ?thesis unfolding g assms(4) by (simp add: cb_stub_spec_def)
  next
    case (Some rm)
    obtain r m3 where rm: "rm = (r, m3)" by (cases rm)
    show ?thesis
    proof (cases "sRet si")
      case None
      then show ?thesis unfolding g assms(4) using Some rm sh(1) by (simp add: cb_stub_spec_def store_ret_def pop_frame_twice)
    next
      case (Some u)
      then have u: "u = ret_ty fty" using assms(5) by (simp split: if_splits)
      have rp: "rp = SPtr (OLoc n) 0" "n < n2" using sh(3) Some by simp_all
      obtain y where "m3 (OLoc n) = Some y" using assms(6) [of r m3] \<open>Kh (glob hfunc) as n2 m2 = Some rm\<close> rm Some by auto
      then show ?thesis unfolding g assms(4)
        using \<open>Kh (glob hfunc) as n2 m2 = Some rm\<close> rm Some u rp sh(1)
        by (simp add: cb_stub_spec_def store_ret_def pop_frame_twice pop_frame_below pop_frame_upd load_cell_def)
    qed
  qed
qed

text \<open>What the runtime does with a call: it runs the stub the table of the host has for the number.\<close>

definition runs_host :: "calls \<Rightarrow> ChopOff \<Rightarrow> calls \<Rightarrow> TakeOut \<Rightarrow> val list \<Rightarrow> bool" where
  "runs_host K s Kh t hfuncs \<longleftrightarrow> (\<forall>u h g rp ap n m. unat u < length hfuncs \<longrightarrow> hfuncs ! unat u = VGlobal h \<longrightarrow>
     map_of (m_funcs (fst (tModule t))) h = Some g \<longrightarrow>
     K (glob (mGyhCallGRT s)) [glob (mGyhQlibUid s), SInt (ucast (u :: u32)), rp, ap] n m = call_func Kh g [rp, ap] n m)"

lemma host_tables_stub:
  assumes "host_tables L c bw st m t hfuncs" "(p, info) \<in> set (mFunctbl st)" "p \<notin> set (take_black bw)"
  shows "\<exists>h. unat (mUid info) < length hfuncs \<and> hfuncs ! unat (mUid info) = VGlobal h \<and> hstub_made L c m st t p info h"
proof -
  from assms(1) have "\<forall>(p, info) \<in> set (mFunctbl st). unat (mUid info) < length hfuncs \<and>
      (if p \<in> set (take_black bw) then hfuncs ! unat (mUid info) = VNull
       else \<exists>h. hfuncs ! unat (mUid info) = VGlobal h \<and> hstub_made L c m st t p info h)"
    unfolding host_tables_def by_number_def by blast
  from bspec [OF this assms(2)] assms(3) show ?thesis by auto
qed

lemma host_stub_called:
  assumes "host_tables L ct bw st m t hfuncs" "runs_host K s Kh t hfuncs" "prints Kh (tGyhDebug t)" "toUseGRT ct" "toUseFCP ct"
    and "(p, info) \<in> set (mFunctbl st)" "p \<notin> set (take_black bw)" "map_of (m_funcs m) p = Some f" "map_of (mCallingStubs st) (mStubType info) = Some si"
    and "sArg si = (if params (f_fty f) = [] then None else Some (params (f_fty f)))" "has_args si mem ap as"
    and "map_of (mFcpFuncMap t) p = Some hfunc"
  shows "K (glob (mGyhCallGRT s)) [glob (mGyhQlibUid s), SInt (ucast (mUid info)), rp, ap] n mem =
    cb_stub_spec (si\<lparr>sFunc := f_fty f\<rparr>) Kh rp (glob hfunc) as n mem"
proof -
  from host_tables_stub [OF assms(1,6,7)] obtain h where
    h: "unat (mUid info) < length hfuncs" "hfuncs ! unat (mUid info) = VGlobal h" "hstub_made L ct m st t p info h" by blast
  let ?a = "hstub_args ct t f si info"
  from hstub_made_fcp [OF h(3) assms(4,5,8,9)] assms(12) obtain g f0 where
    g: "map_of (m_funcs (fst (tModule t))) h = Some g" "f_blocks g = f_blocks (setBody (snd (fcp_stub f hfunc si (fst ?a) (snd ?a))) f0)"
    by auto
  have "K (glob (mGyhCallGRT s)) [glob (mGyhQlibUid s), SInt (ucast (mUid info)), rp, ap] n mem = call_func Kh g [rp, ap] n mem"
    using assms(2) h(1,2) g(1) by (simp add: runs_host_def)
  also have "\<dots> = cb_stub_spec (si\<lparr>sFunc := f_fty f\<rparr>) Kh rp (glob hfunc) as n mem"
    unfolding call_func_blocks [OF g(2)] by (rule fcp_stub_runs [OF assms(3,4,11) _ assms(10)]) simp
  finally show ?thesis .
qed

lemma guest_call_to_host:
  assumes "chop_ready U st m" "stubs_typed st (fst m)" "chop_off U H c bw st m = Inr (s, ds)" "coUseGRT c"
    and "take_out L ct bw st m = Inr (t, ds')" "toUseGRT ct" "toUseFCP ct"
    and "(p, info) \<in> set (mFunctbl st)" "taken c bw (fst m) p" "p \<notin> set (take_black bw)" "map_of (m_funcs (fst m)) p = Some f"
  shows "\<exists>hfuncs hfunc f' si. host_tables L ct bw st (fst m) t hfuncs \<and> map_of (mFcpFuncMap t) p = Some hfunc \<and>
    map_of (m_funcs (fst (coMod s))) p = Some f' \<and> map_of (mCallingStubs st) (mStubType info) = Some si \<and>
    (\<forall>K Kh as n mem rp ap n2 m2. prints K (mGyhDebug s) \<longrightarrow> prints Kh (tGyhDebug t) \<longrightarrow> runs_host K s Kh t hfuncs \<longrightarrow>
      length as = length (params (f_fty f)) \<longrightarrow> call_frame si as (n, mem) = (rp, ap, n2, m2) \<longrightarrow>
      (\<forall>r m3. Kh (glob hfunc) as n2 m2 = Some (r, m3) \<longrightarrow> sRet si \<noteq> None \<longrightarrow> m3 (OLoc n) \<noteq> None) \<longrightarrow>
      call_func K f' as n mem =
        map_option (\<lambda>(r, m3). (if sRet si = None then SUndef else r, pop_frame n m3)) (Kh (glob hfunc) as n2 m2))"
proof -
  have wf: "numbered mUid (mFunctbl st)" "length (mFunctbl st) \<le> 2 ^ 32" using assms(1) by (simp_all add: chop_ready_def symtbl_wf_def)
  from take_out_spec(2) [OF assms(5) wf] obtain hfuncs where ht: "host_tables L ct bw st (fst m) t hfuncs" ..
  obtain cbs where fr: "chop_frame c bw st cbs m s" using chop_off_spec [OF assms(1), of H c bw] assms(3) by auto
  from chopped_function_runs [OF assms(1,2) fr assms(8,9,11)] obtain f' si stubs where
    r: "map_of (m_funcs (fst (coMod s))) p = Some f'" "map_of (mCallingStubs st) (mStubType info) = Some si"
      "\<forall>K as n mem. prints K (mGyhDebug s) \<longrightarrow> length as = length (params (f_fty f)) \<longrightarrow> call_func K f' as n mem = gstub_spec c s si info stubs K as n mem"
    by blast
  have ty: "sArg si = (if params (f_fty f) = [] then None else Some (params (f_fty f)))"
      "sRet si = (if ret_ty (f_fty f) = VoidTy then None else Some (ret_ty (f_fty f)))"
    using assms(2,8,11) r(2) by (auto simp: stubs_typed_def)
  from host_tables_stub [OF ht assms(8,10)] obtain h where "hstub_made L ct (fst m) st t p info h" by blast
  from hstub_made_fcp [OF this assms(6,7,11) r(2)] obtain hfunc where hf: "map_of (mFcpFuncMap t) p = Some hfunc" by blast
  have "call_func K f' as n mem = map_option (\<lambda>(r, m3). (if sRet si = None then SUndef else r, pop_frame n m3)) (Kh (glob hfunc) as n2 m2)"
    if k: "prints K (mGyhDebug s)" "prints Kh (tGyhDebug t)" "runs_host K s Kh t hfuncs" "length as = length (params (f_fty f))"
      "call_frame si as (n, mem) = (rp, ap, n2, m2)" "\<forall>r m3. Kh (glob hfunc) as n2 m2 = Some (r, m3) \<longrightarrow> sRet si \<noteq> None \<longrightarrow> m3 (OLoc n) \<noteq> None"
    for K Kh as n mem rp ap n2 m2
  proof -
    have a: "case sArg si of None \<Rightarrow> as = [] | Some ts \<Rightarrow> length as = length ts"
      using ty(1) k(4) by (cases "params (f_fty f) = []") simp_all
    have "K (glob (mGyhCallGRT s)) [glob (mGyhQlibUid s), SInt (ucast (mUid info)), rp, ap] n2 m2 =
        cb_stub_spec (si\<lparr>sFunc := f_fty f\<rparr>) Kh rp (glob hfunc) as n2 m2"
      by (rule host_stub_called [OF ht k(3,2) assms(6-8,10,11) r(2) ty(1) call_frame_shape(2) [OF k(5) a] hf])
    from gstub_via_host [where K = K and Kh = Kh, OF assms(4) k(5) a this ty(2)] k(6) show ?thesis using r(3) k(1,4) by simp
  qed
  with ht hf r(1,2) show ?thesis by blast
qed

section \<open>Copies\<close>

text \<open>Copying a body: arguments become the values given for them, instructions and blocks get new numbers.\<close>

fun rename_val :: "(nat \<Rightarrow> nat) \<Rightarrow> (nat \<Rightarrow> nat) \<Rightarrow> val list \<Rightarrow> val \<Rightarrow> val"
  and rename_md :: "(nat \<Rightarrow> nat) \<Rightarrow> (nat \<Rightarrow> nat) \<Rightarrow> val list \<Rightarrow> md \<Rightarrow> md" where
  "rename_val r b vs (VArg i t) = (if i < length vs then vs ! i else VArg i t)"
| "rename_val r b vs (VInst i t) = VInst (r i) t"
| "rename_val r b vs (VBlock l) = VBlock (b l)"
| "rename_val r b vs (VMeta md) = VMeta (rename_md r b vs md)"
| "rename_val r b vs v = v"
| "rename_md r b vs (MDLocal v) = MDLocal (rename_val r b vs v)"
| "rename_md r b vs (MDArgList ws) = MDArgList (map (rename_val r b vs) ws)"
| "rename_md r b vs md = md"

definition rename_ins :: "(nat \<Rightarrow> nat) \<Rightarrow> (nat \<Rightarrow> nat) \<Rightarrow> val list \<Rightarrow> instr \<Rightarrow> instr" where
  "rename_ins r b vs i = i\<lparr>i_id := r (i_id i), i_ops := map (rename_val r b vs) (i_ops i), i_callee := rename_val r b vs (i_callee i),
     i_bundles := map (rename_val r b vs) (i_bundles i)\<rparr>"

definition rename_block :: "(nat \<Rightarrow> nat) \<Rightarrow> (nat \<Rightarrow> nat) \<Rightarrow> val list \<Rightarrow> block \<Rightarrow> block" where
  "rename_block r b vs bb = bb\<lparr>b_id := b (b_id bb), b_ins := map (rename_ins r b vs) (b_ins bb)\<rparr>"

text \<open>What LLVM documents of \<open>CloneFunctionInto\<close>.\<close>

definition clone_ok :: "clone \<Rightarrow> bool" where
  "clone_ok C \<longleftrightarrow> (\<forall>n l vs f. \<exists>r b. C n l vs f = map (rename_block r b vs) (f_blocks f) \<and> inj r \<and> inj b \<and> (\<forall>i. n \<le> r i) \<and> (\<forall>i. l \<le> b i))"

section \<open>When the rewriting succeeds\<close>

text \<open>Values whose global values are all found by looking through aggregates and constant expressions.\<close>

fun val_simple :: "val \<Rightarrow> bool" where
  "val_simple (VAggr a t vs) = (\<forall>v \<in> set vs. val_simple v)"
| "val_simple (VExpr e t vs) = (\<forall>v \<in> set vs. val_simple v)"
| "val_simple (VOtherConst t vs) = False"
| "val_simple (VMeta md) = False"
| "val_simple v = True"

definition local_val :: "val \<Rightarrow> bool" where
  "local_val v = (case v of VArg i t \<Rightarrow> True | VInst i t \<Rightarrow> True | _ \<Rightarrow> False)"

lemma local_val_simple: "local_val v \<Longrightarrow> val_simple v \<and> val_globals v = {}"
  by (cases v) (simp_all add: local_val_def)

lemma rename_simple:
  assumes "\<forall>w \<in> set vs. local_val w"
  shows "val_simple v \<Longrightarrow> val_simple (rename_val r b vs v) \<and> val_globals (rename_val r b vs v) = val_globals v"
proof (cases v)
  case (VArg i t)
  have "local_val (vs ! i)" if "i < length vs" using assms that by simp
  then show ?thesis using VArg local_val_simple by auto
qed simp_all

lemma do_operand_ok:
  "val_simple v \<Longrightarrow> val_globals v \<subseteq> fst ` set (xRefs x) \<Longrightarrow> \<exists>r. TakeOut_do_operand x k v b = Inr r"
  "\<forall>v \<in> set vs. val_simple v \<and> val_globals v \<subseteq> fst ` set (xRefs x) \<Longrightarrow> \<exists>r. TakeOut_do_operands x k vs b = Inr r"
  "(md :: md) = md"
proof (induction x k v b and x k vs b and x k md b rule: TakeOut_do_operand_TakeOut_do_operands_TakeOut_do_metadata.induct)
  case (1 x k p b)
  then have "map_of (xRefs x) p \<noteq> None" by (simp add: map_of_eq_None_iff)
  then show ?case by auto
next
  case (2 x k a t vs b)
  have "\<forall>v \<in> set vs. val_simple v \<and> val_globals v \<subseteq> fst ` set (xRefs x)" using 2(2,3) by auto
  from 2(1) [OF this] obtain ws b' where "TakeOut_do_operands x k vs b = Inr (ws, b')" by (metis prod.exhaust)
  then show ?case by (simp del: split_paired_Ex)
next
  case (3 x k e t vs b)
  have "\<forall>v \<in> set vs. val_simple v \<and> val_globals v \<subseteq> fst ` set (xRefs x)" using 3(2,3) by auto
  from 3(1) [OF this] obtain ws b' where "TakeOut_do_operands x k vs b = Inr (ws, b')" by (metis prod.exhaust)
  then show ?case by (simp del: split_paired_Ex)
next
  case (8 x k v vs b)
  have "val_simple v" "val_globals v \<subseteq> fst ` set (xRefs x)" "\<forall>v \<in> set vs. val_simple v \<and> val_globals v \<subseteq> fst ` set (xRefs x)" using 8(3) by simp_all
  from 8(1) [OF this(1,2)] 8(2) [OF this(3)] obtain w b1 ws b2 where "TakeOut_do_operand x k v b = Inr (w, b1)" "TakeOut_do_operands x k vs b1 = Inr (ws, b2)"
    by (metis prod.exhaust)
  then show ?case by simp
qed simp_all

text \<open>Under \<open>llvm.dbg.value\<close> nothing can go wrong.\<close>

lemma do_operand_dbg:
  "xDbg x \<Longrightarrow> \<exists>r. TakeOut_do_operand x k v b = Inr r"
  "xDbg x \<Longrightarrow> \<exists>r. TakeOut_do_operands x k vs b = Inr r"
  "xDbg x \<Longrightarrow> \<exists>r. TakeOut_do_metadata x k md b = Inr r"
proof (induction x k v b and x k vs b and x k md b rule: TakeOut_do_operand_TakeOut_do_operands_TakeOut_do_metadata.induct)
  case (1 x k p b)
  then show ?case by (cases "map_of (xRefs x) p") simp_all
next
  case (8 x k v vs b)
  from 8(1,3) obtain w b1 where w: "TakeOut_do_operand x k v b = Inr (w, b1)" by fastforce
  from 8(2,3) obtain ws b2 where "TakeOut_do_operands x k vs b1 = Inr (ws, b2)" by fastforce
  with w show ?case by simp
next
  case (2 x k a t vs b)
  then obtain ws b' where "TakeOut_do_operands x k vs b = Inr (ws, b')" by fastforce
  then show ?case by (simp del: split_paired_Ex)
next
  case (3 x k e t vs b)
  then obtain ws b' where "TakeOut_do_operands x k vs b = Inr (ws, b')" by fastforce
  then show ?case by (simp del: split_paired_Ex)
qed (auto simp: result_simps)

text \<open>A call that has to go back to the guest can: its callee is a local value or in the table of
  references, and there is a stub for its signature.\<close>

definition call_ready :: "take_llvm \<Rightarrow> TakeOut \<Rightarrow> instr \<Rightarrow> bool" where
  "call_ready L t i \<longleftrightarrow> val_simple (i_callee i) \<and> val_globals (i_callee i) \<subseteq> fst ` set (mExtRefsMap t) \<and>
     (\<exists>h. call_site_hash (hashing L) i = Some h \<and> h \<in> fst ` set (mCbStubMap t))"

definition ins_ready :: "take_llvm \<Rightarrow> modul \<Rightarrow> TakeOut \<Rightarrow> instr \<Rightarrow> bool" where
  "ins_ready L m t i \<longleftrightarrow>
     (is_dbg_value L m i \<or> (\<forall>v \<in> set (i_ops i). val_simple v \<and> val_globals v \<subseteq> fst ` set (mExtRefsMap t))) \<and>
     (is_call i \<longrightarrow> (\<exists>p f. getCalledFunction m i = Some (p, f) \<and> isIntrinsic f) \<or> call_ready L t i)"

lemma do_callback_ok: "call_ready L t i \<Longrightarrow> \<exists>r. do_callback L c t (i\<lparr>i_callee := v\<rparr>) b = Inr r"
proof -
  assume "call_ready L t i"
  then obtain h where h: "call_site_hash (hashing L) i = Some h" "h \<in> fst ` set (mCbStubMap t)" by (auto simp: call_ready_def)
  then obtain s where "map_of (mCbStubMap t) h = Some s" by (cases "map_of (mCbStubMap t) h") (auto simp: map_of_eq_None_iff)
  with h show ?thesis by (simp add: do_callback_def call_site_hash_def del: split_paired_Ex)
qed

lemma do_fcp_cm_ok:
  assumes "call_ready L t i"
  shows "\<exists>r. do_fcp_cm L c t (i\<lparr>i_callee := v\<rparr>) rest w = Inr r"
proof -
  let ?i = "i\<lparr>i_callee := v\<rparr>"
  obtain hf b1 where 1: "fcp_cm_check (i_callee ?i) (wLabel w + 1) (wLabel w + 2) (wNext w, []) = (hf, b1)" by (metis prod.exhaust)
  obtain lr b2 where 2: "fcp_cm_left hf ?i (wId w) (fst b1, []) = (lr, b2)" by (metis prod.exhaust)
  obtain rr b3 where 3: "do_callback L c t ?i (fst b2, []) = Inr (rr, b3)" using do_callback_ok [OF assms, of c v] by (metis prod.exhaust)
  show ?thesis unfolding do_fcp_cm_def Let_def 1 2 prod.case 3 bind_result_Inr by (cases rr) simp_all
qed

lemma do_other_call_ok:
  assumes "call_ready L t i"
  shows "\<exists>r. do_other_call L c m t i rest w = Inr r"
proof -
  let ?x = "operand_env_of L m t i"
  have "val_simple (i_callee i)" "val_globals (i_callee i) \<subseteq> fst ` set (xRefs ?x)" using assms by (simp_all add: call_ready_def operand_env_of_def)
  from do_operand_ok(1) [OF this] obtain v b where o: "TakeOut_do_operand ?x (length (all_values m)) (i_callee i) (wNext w, []) = Inr (v, b)" by (metis prod.exhaust)
  obtain rv b1 where cb: "do_callback L c t (i\<lparr>i_callee := v\<rparr>) (wNext (place i b w), []) = Inr (rv, b1)"
    using do_callback_ok [OF assms] by (metis prod.exhaust)
  show ?thesis unfolding do_other_call_def o bind_result_Inr prod.case Let_def cb using do_fcp_cm_ok [OF assms] by simp
qed

lemma getCalledFunction_cong: "i_callee i' = i_callee i \<Longrightarrow> i_fty i' = i_fty i \<Longrightarrow> getCalledFunction m i' = getCalledFunction m i"
  unfolding getCalledFunction_def by (simp only:)

lemma do_instruction_ok:
  assumes "ins_ready L m t i"
  shows "\<exists>r. do_instruction L c m t i rest w = Inr r"
proof -
  let ?x = "operand_env_of L m t i"
  have "\<exists>r. TakeOut_do_operands ?x (length (all_values m)) (i_ops i) (wNext w, []) = Inr r"
  proof (cases "is_dbg_value L m i")
    case True
    then show ?thesis using do_operand_dbg(2) [of ?x] by (simp add: operand_env_of_def)
  next
    case False
    then show ?thesis using assms do_operand_ok(2) [of "i_ops i" ?x] by (simp add: operand_env_of_def ins_ready_def)
  qed
  then obtain ops b where o: "TakeOut_do_operands ?x (length (all_values m)) (i_ops i) (wNext w, []) = Inr (ops, b)" by (metis prod.exhaust)
  have g: "getCalledFunction m (i\<lparr>i_ops := ops\<rparr>) = getCalledFunction m i" by (rule getCalledFunction_cong) simp_all
  show ?thesis
  proof (cases "is_call i")
    case call: True
    have "\<exists>r. do_other_call L c m t (i\<lparr>i_ops := ops\<rparr>) rest (place i b w) = Inr r" if "call_ready L t i"
      by (rule do_other_call_ok) (use that in \<open>simp add: call_ready_def call_site_hash_def\<close>)
    then show ?thesis unfolding do_instruction_def o bind_result_Inr prod.case Let_def g
      using assms call by (cases "getCalledFunction m i") (auto simp: ins_ready_def split: option.splits)
  qed (simp add: do_instruction_def o)
qed

definition all_ready :: "take_llvm \<Rightarrow> modul \<Rightarrow> TakeOut \<Rightarrow> instr list \<Rightarrow> block list \<Rightarrow> bool" where
  "all_ready L m t is bbs \<longleftrightarrow> (\<forall>i \<in> set is. ins_ready L m t i) \<and> (\<forall>bb \<in> set bbs. \<forall>i \<in> set (b_ins bb). ins_ready L m t i)"

lemma redirect_ready:
  assumes "ins_ready L m t i"
  shows "ins_ready L m t (redirect_ins l l' i)"
proof -
  let ?i = "redirect_ins l l' i"
  have e: "i_callee ?i = i_callee i" "i_fty ?i = i_fty i" "i_attrs ?i = i_attrs i" "i_op ?i = i_op i" by (simp_all add: redirect_ins_def)
  have g: "getCalledFunction m ?i = getCalledFunction m i" by (rule getCalledFunction_cong [OF e(1,2)])
  have d: "is_dbg_value L m ?i = is_dbg_value L m i" unfolding is_dbg_value_def g by simp
  have c: "call_ready L t ?i = call_ready L t i" unfolding call_ready_def call_site_hash_def e ..
  have "\<forall>v \<in> set (i_ops ?i). val_simple v \<and> val_globals v \<subseteq> R" if "\<forall>v \<in> set (i_ops i). val_simple v \<and> val_globals v \<subseteq> R" for R
    using that by (auto simp: redirect_ins_def)
  then show ?thesis using assms unfolding ins_ready_def g d c is_call_redirect by blast
qed

lemma all_ready_redirect:
  "all_ready L m t is bbs \<Longrightarrow> all_ready L m t (map (redirect_ins l l') is) (map (redirect_block k k') bbs)"
  by (auto simp: all_ready_def redirect_block_def redirect_ready)

lemma callback_code_local: "fst (callback_code c t s i b) = Some v \<Longrightarrow> \<exists>n ty. v = VInst n ty"
  by (auto simp: callback_code_def Let_def case_prod_beta CreateLoad_def emit_def split: if_splits)

lemma do_callback_local: "do_callback L c t i b = Inr (Some v, b') \<Longrightarrow> \<exists>n ty. v = VInst n ty"
proof -
  assume a: "do_callback L c t i b = Inr (Some v, b')"
  then obtain s where "callback_code c t s i b = (Some v, b')" by (auto simp: do_callback_def split: option.splits)
  then show ?thesis using callback_code_local [of c t s i b v] by simp
qed

lemma do_fcp_cm_ready:
  assumes "do_fcp_cm L c t i rest w = Inr (rest', w')" "all_ready L m t rest (wTodo w)"
  shows "all_ready L m t rest' (wTodo w') \<and> length (wTodo w') = length (wTodo w)"
proof -
  obtain hf b1 where 1: "fcp_cm_check (i_callee i) (wLabel w + 1) (wLabel w + 2) (wNext w, []) = (hf, b1)" by (metis prod.exhaust)
  obtain lr b2 where 2: "fcp_cm_left hf i (wId w) (fst b1, []) = (lr, b2)" by (metis prod.exhaust)
  note r = assms(1) [unfolded do_fcp_cm_def Let_def 1 2 prod.case]
  from r obtain rr b3 where 3: "do_callback L c t i (fst b2, []) = Inr (rr, b3)" by (cases "do_callback L c t i (fst b2, [])") auto
  note r1 = r [unfolded 3 bind_result_Inr prod.case]
  let ?red = "redirect_ins (wId w) (wLabel w)"
  have ready: "all_ready L m t (map ?red rest) (map (redirect_block (wId w) (wLabel w)) (wTodo w))" by (rule all_ready_redirect [OF assms(2)])
  show ?thesis
  proof (cases rr)
    case None
    then have "rest' = map ?red rest" "wTodo w' = map (redirect_block (wId w) (wLabel w)) (wTodo w)" using r1 by auto
    then show ?thesis using ready by simp
  next
    case (Some v)
    obtain n ty where v: "v = VInst n ty" using do_callback_local [OF 3 [unfolded Some]] by blast
    have lr: "\<exists>n ty. lr = VInst n ty" using 2 by (auto simp: fcp_cm_left_def Let_def case_prod_beta)
    obtain k where "rest' = new_ins k PHI (val_ty v) [lr, VBlock (wLabel w + 1), v, VBlock (wLabel w + 2)] # map ?red rest"
        "wTodo w' = map (redirect_block (wId w) (wLabel w)) (wTodo w)" using r1 Some by auto
    then show ?thesis using ready lr v by (auto simp: all_ready_def ins_ready_def new_ins_def is_call_def)
  qed
qed

lemma place_todo [simp]: "wTodo (place i b w) = wTodo w"
  by (simp add: place_def)

lemma keep_todo [simp]: "wTodo (keep i w) = wTodo w"
  by (simp add: keep_def)

lemma do_intrinsic_todo [simp]: "wTodo (do_intrinsic L f i w) = wTodo w"
  by (simp add: do_intrinsic_def Let_def case_prod_beta)

lemma do_other_call_ready:
  assumes "do_other_call L c m t i rest w = Inr (rest', w')" "all_ready L m t rest (wTodo w)"
  shows "all_ready L m t rest' (wTodo w') \<and> length (wTodo w') = length (wTodo w)"
proof -
  from assms(1) obtain callee b where o: "TakeOut_do_operand (operand_env_of L m t i) (length (all_values m)) (i_callee i) (wNext w, []) = Inr (callee, b)"
    unfolding do_other_call_def by (cases "TakeOut_do_operand (operand_env_of L m t i) (length (all_values m)) (i_callee i) (wNext w, [])") auto
  note r = assms(1) [unfolded do_other_call_def o bind_result_Inr prod.case Let_def]
  show ?thesis
  proof (cases "toUseFCPcm c")
    case True
    then have "do_fcp_cm L c t (i\<lparr>i_callee := callee\<rparr>) rest (place i b w) = Inr (rest', w')" using r by simp
    from do_fcp_cm_ready [OF this, of m] assms(2) show ?thesis by simp
  next
    case False
    then show ?thesis using r assms(2) by (cases "do_callback L c t (i\<lparr>i_callee := callee\<rparr>) (wNext (place i b w), [])") auto
  qed
qed

lemma do_instruction_ready:
  assumes "do_instruction L c m t i rest w = Inr (rest', w')" "all_ready L m t rest (wTodo w)"
  shows "all_ready L m t rest' (wTodo w') \<and> length (wTodo w') = length (wTodo w)"
  using assms(1)
proof (rule do_instruction_cases, goal_cases)
  case (1 ops b i1 w1)
  then have w: "all_ready L m t rest (wTodo w1)" "wTodo w1 = wTodo w" using assms(2) by simp_all
  from 1(4) show ?case
    by (elim disjE exE conjE) (use w do_other_call_ready [OF _ w(1)] in simp_all)
qed

lemma do_block_ok: "all_ready L m t is (wTodo w) \<Longrightarrow>
    \<exists>w'. do_block L c m t is w = Inr w' \<and> all_ready L m t [] (wTodo w') \<and> length (wTodo w') = length (wTodo w)"
proof (induction L c m t "is" w rule: do_block.induct)
  case (2 L c m t i rest w)
  then have r: "ins_ready L m t i" "all_ready L m t rest (wTodo w)" by (simp_all add: all_ready_def)
  from do_instruction_ok [OF r(1)] obtain rest' w1 where d: "do_instruction L c m t i rest w = Inr (rest', w1)" by (metis prod.exhaust)
  note n = do_instruction_ready [OF d r(2)]
  from 2(1) [OF d refl conjunct1 [OF n]] show ?case using n by (auto simp: d)
qed (auto simp: all_ready_def)

text \<open>Every block is visited.\<close>

lemma do_blocks_ok: "all_ready L m t [] (wTodo w) \<Longrightarrow> n = length (wTodo w) \<Longrightarrow> \<exists>w'. do_blocks L c m t n w = Inr w' \<and> wTodo w' = []"
proof (induction n arbitrary: w)
  case (Suc n)
  then obtain bb bbs where t: "wTodo w = bb # bbs" by (cases "wTodo w") auto
  let ?w = "w\<lparr>wId := b_id bb, wName := b_name bb, wOut := [], wTodo := bbs\<rparr>"
  have "all_ready L m t (b_ins bb) (wTodo ?w)" using Suc.prems(1) t by (simp add: all_ready_def)
  from do_block_ok [OF this, of c] obtain w1 where w1: "do_block L c m t (b_ins bb) ?w = Inr w1" "all_ready L m t [] (wTodo w1)" "length (wTodo w1) = length bbs" by auto
  let ?w1 = "w1\<lparr>wDone := wDone w1 @ [new_block (wId w1) (wName w1) (wOut w1)]\<rparr>"
  have "all_ready L m t [] (wTodo ?w1)" "n = length (wTodo ?w1)" using w1(2,3) Suc.prems(2) t by simp_all
  from Suc.IH [OF this] show ?case by (simp add: t w1(1))
qed simp

lemma store_rets_ready:
  assumes "local_val rp"
  shows "all_ready L m t (snd b) [] \<Longrightarrow> all_ready L m t is [] \<Longrightarrow> all_ready L m t (snd (store_rets rp is b)) []"
proof (induction "is" arbitrary: b)
  case (Cons i "is")
  have rest: "all_ready L m t is []" and i: "ins_ready L m t i" using Cons.prems(2) by (simp_all add: all_ready_def)
  show ?case
  proof (cases "i_op i = Ret \<and> i_ops i \<noteq> []")
    case True
    then obtain v vs where v: "i_op i = Ret" "i_ops i = v # vs" by (cases "i_ops i") auto
    have "val_simple v \<and> val_globals v \<subseteq> fst ` set (mExtRefsMap t)" using i v by (simp add: ins_ready_def is_dbg_value_def is_call_def)
    then have "all_ready L m t (snd (CreateRet None (CreateStore v rp b))) []"
      using Cons.prems(1) local_val_simple [OF assms]
      by (auto simp: all_ready_def CreateRet_def CreateStore_def emit_def new_ins_def ins_ready_def is_call_def)
    from Cons.IH [OF this rest] show ?thesis by (simp add: v)
  next
    case False
    have "all_ready L m t (snd (fst b, snd b @ [i])) []" using Cons.prems(1) i by (auto simp: all_ready_def)
    from Cons.IH [OF this rest] show ?thesis using False by (cases "i_op i"; cases "i_ops i") simp_all
  qed
qed simp

lemma store_rets_blocks_ready:
  "all_ready L m t [] bbs \<Longrightarrow> local_val rp \<Longrightarrow> all_ready L m t [] (fst (store_rets_blocks rp bbs n))"
proof (induction rp bbs n rule: store_rets_blocks.induct)
  case (2 rp bb bbs n)
  let ?b = "store_rets rp (b_ins bb) (n, [])"
  have "all_ready L m t (b_ins bb) []" "all_ready L m t [] bbs" using 2(2) by (simp_all add: all_ready_def)
  moreover have "all_ready L m t (snd (n, [])) []" by (simp add: all_ready_def)
  ultimately have "all_ready L m t (snd ?b) []" "all_ready L m t [] (fst (store_rets_blocks rp bbs (fst ?b)))"
    using store_rets_ready [OF 2(3)] 2(1) [OF refl _ 2(3)] by simp_all
  then show ?case by (simp add: Let_def case_prod_beta all_ready_def)
qed simp

lemma rewrite_body_ok:
  assumes "clone_ok (CloneFunctionInto L)" "f_blocks f \<noteq> []" "\<forall>v \<in> set vs. local_val v" "\<not> toUseFCP c \<Longrightarrow> local_val (mHstubRetPad t)"
    and "\<And>r b. \<forall>i \<in> set (all_ins f). ins_ready L m t (rename_ins r b vs i)"
  shows "\<exists>r. rewrite_body L c m t f vs b = Inr r"
proof -
  obtain r be where c: "CloneFunctionInto L (fst b) 1 vs f = map (rename_block r be vs) (f_blocks f)"
    using assms(1) unfolding clone_ok_def by meson
  let ?bs = "map (rename_block r be vs) (f_blocks f)"
  have ready: "all_ready L m t [] ?bs" using assms(5) by (auto simp: all_ready_def all_ins_def rename_block_def)
  obtain bb bbs where bs: "?bs = bb # bbs" using assms(2) by (cases ?bs) auto
  define n where "n = next_ins (bb # bbs) (fst b)"
  define bs' where "bs' = (if toUseFCP c then (bb # bbs, n) else store_rets_blocks (mHstubRetPad t) (bb # bbs) n)"
  have "all_ready L m t [] (fst bs')"
    unfolding bs'_def using ready store_rets_blocks_ready [OF _ assms(4)] unfolding bs by (simp del: store_rets_blocks.simps)
  moreover define w0 where "w0 = \<lparr>wMod = tModule t, wNext = snd bs', wLabel = next_label (fst bs') 1, wEntry = snd b,
      wTarget = b_id bb, wDone = [], wId = 0, wName = [], wOut = [], wTodo = fst bs', mToReplace = []\<rparr>"
  ultimately have "all_ready L m t [] (wTodo w0)" "length (fst bs') = length (wTodo w0)" by simp_all
  from do_blocks_ok [OF this, of c] obtain w' where "do_blocks L c m t (length (fst bs')) w0 = Inr w'" by blast
  then show ?thesis unfolding rewrite_body_def c bs list.case Let_def n_def [symmetric] bs'_def [symmetric] case_prod_beta w0_def [symmetric] by simp
qed

text \<open>Instructions the rewriting can deal with once they are analysed: no metadata and no constants of
  other kinds as operands (but under \<open>llvm.dbg.value\<close>), calls of a local value or of a global one, and
  intrinsics called with their own type.\<close>

definition plain_ins :: "take_llvm \<Rightarrow> modul \<Rightarrow> instr \<Rightarrow> bool" where
  "plain_ins L m i \<longleftrightarrow> (is_dbg_value L m i \<or> (\<forall>v \<in> set (i_ops i). val_simple v)) \<and>
     (is_call i \<longrightarrow> (case i_callee i of
        VGlobal p \<Rightarrow> (\<forall>f. map_of (m_funcs m) p = Some f \<longrightarrow> isIntrinsic f \<longrightarrow> f_fty f = i_fty i)
      | v \<Rightarrow> local_val v))"

lemma rename_callee: "\<forall>w \<in> set vs. local_val w \<Longrightarrow> getCalledFunction m (rename_ins r b vs i) = getCalledFunction m i"
proof (cases "i_callee i")
  case (VArg k t)
  assume "\<forall>w \<in> set vs. local_val w"
  then have "local_val (rename_val r b vs (i_callee i))" using VArg by (simp add: local_val_def)
  then show ?thesis using VArg by (auto simp: getCalledFunction_def rename_ins_def local_val_def split: val.splits)
qed (simp_all add: getCalledFunction_def rename_ins_def split: option.splits)

lemma covers_ready:
  assumes "covers (hashing L) bw m refs cbs i" "mCallees bw = []" "plain_ins L m i" "\<forall>w \<in> set vs. local_val w"
    and "refs \<subseteq> fst ` set (mExtRefsMap t)" "cbs \<subseteq> fst ` set (mCbStubMap t)"
  shows "ins_ready L m t (rename_ins r b vs i)"
proof -
  let ?i = "rename_ins r b vs i"
  note g = rename_callee [OF assms(4), of m r b i]
  have e: "is_call ?i = is_call i" "call_site_hash (hashing L) ?i = call_site_hash (hashing L) i" "i_ops ?i = map (rename_val r b vs) (i_ops i)"
      "i_callee ?i = rename_val r b vs (i_callee i)"
    by (simp_all add: rename_ins_def is_call_def call_site_hash_def)
  have d: "is_dbg_value L m ?i = is_dbg_value L m i" unfolding is_dbg_value_def g e(1) ..
  have "\<forall>v \<in> set (i_ops ?i). val_simple v \<and> val_globals v \<subseteq> fst ` set (mExtRefsMap t)" if "\<not> is_dbg_value L m i"
    unfolding e(3) using that assms(1,3,5) rename_simple [OF assms(4)] by (fastforce simp: plain_ins_def covers_def)
  moreover have "(\<exists>p f. getCalledFunction m i = Some (p, f) \<and> isIntrinsic f) \<or> call_ready L t ?i" if call: "is_call i"
  proof (cases "classify_callee bw m (i_callee i) = WhiteCallee")
    case True
    then obtain p f where "i_callee i = VGlobal p" "map_of (m_funcs m) p = Some f" "isIntrinsic f"
      using assms(2) by (auto simp: classify_callee_def split: val.splits option.splits if_splits)
    then show ?thesis using assms(3) call by (simp add: plain_ins_def getCalledFunction_def)
  next
    case False
    then have cb: "calls_back bw m i" using call by (simp add: calls_back_def)
    then obtain h where h: "h \<in> cbs" "call_site_hash (hashing L) i = Some h" using assms(1) by (auto simp: covers_def)
    have "val_simple (i_callee ?i) \<and> val_globals (i_callee ?i) \<subseteq> fst ` set (mExtRefsMap t)"
    proof (cases "i_callee i")
      case (VGlobal p)
      then have "classify_callee bw m (i_callee i) = RefCallee p" using False assms(2) by (auto simp: classify_callee_def split: option.splits)
      then show ?thesis using cb assms(1,5) VGlobal unfolding e(4) by (auto simp: covers_def)
    qed (use assms(3,4) call rename_simple [OF assms(4), of "i_callee i" r b] in \<open>auto simp: plain_ins_def local_val_def e(4)\<close>)
    then show ?thesis using h assms(6) by (auto simp: call_ready_def e(2))
  qed
  ultimately show ?thesis unfolding ins_ready_def g e(1) d by blast
qed

section \<open>When a function is converted\<close>

lemma table_loads_ok:
  "\<forall>k \<in> set ks. uid k \<noteq> None \<Longrightarrow> \<exists>kvs b'. table_loads tbl uid ks b = Inr (kvs, b') \<and> map fst kvs = ks"
proof (induction ks arbitrary: b)
  case (Cons k ks)
  then obtain u where u: "uid k = Some u" by auto
  obtain v b1 where v: "table_load tbl u b = (v, b1)" by (metis prod.exhaust)
  from Cons.IH [of b1] Cons.prems obtain kvs b' where "table_loads tbl uid ks b1 = Inr (kvs, b')" "map fst kvs = ks" by auto
  then show ?case by (simp add: u v)
qed simp

lemma grt_loads_ok:
  "\<forall>k \<in> set ks. uid k \<noteq> None \<Longrightarrow> \<exists>kvs b'. grt_loads g uid ks b = Inr (kvs, b') \<and> map fst kvs = ks"
proof (induction ks arbitrary: b)
  case (Cons k ks)
  then obtain u where u: "uid k = Some u" by auto
  obtain tbl b0 where l: "CreateLoad ptrTy (VGlobal g) b = (tbl, b0)" by (metis prod.exhaust)
  obtain v b1 where v: "table_load tbl u b0 = (v, b1)" by (metis prod.exhaust)
  from Cons.IH [of b1] Cons.prems obtain kvs b' where "grt_loads g uid ks b1 = Inr (kvs, b')" "map fst kvs = ks" by auto
  then show ?case by (simp add: u v l)
qed simp

lemma pad_loads_keys: "map fst (fst (pad_loads ks pad b)) = ks"
proof (cases "ks = []")
  case False
  obtain v b1 where l: "CreateLoad (ptrArrayTy (length ks)) pad b = (v, b1)" by (metis prod.exhaust)
  obtain vs b2 where e: "extract_values v 0 (length ks) b1 = (vs, b2)" by (metis prod.exhaust)
  show ?thesis using False extract_values_length [OF e] by (simp add: pad_loads_def l e)
qed (simp add: pad_loads_def)

text \<open>The entries of a function in the table: the stub fits, the references and the callback stubs are numbered.\<close>

definition entry_ready :: "take_llvm \<Rightarrow> BwList \<Rightarrow> Symtbl \<Rightarrow> modul \<Rightarrow> gvptr \<Rightarrow> FuncInfo \<Rightarrow> func \<Rightarrow> bool" where
  "entry_ready L bw st m p info f \<longleftrightarrow> map_of (m_funcs m) p = Some f \<and> f_blocks f \<noteq> [] \<and> analysed (hashing L) bw m f info \<and>
     (\<forall>i \<in> set (all_ins f). plain_ins L m i) \<and> entry_ok st info \<and>
     (\<forall>si. map_of (mCallingStubs st) (mStubType info) = Some si \<longrightarrow> sArg si = (if params (f_fty f) = [] then None else Some (params (f_fty f))))"

lemma entry_uids:
  assumes "entry_ok st info"
  shows "\<forall>k \<in> set (mExtRefArgs info). gref_uid st k \<noteq> None" "\<forall>k \<in> set (mCbStubArgs info). cbstub_uid st k \<noteq> None"
  using assms by (auto simp: entry_ok_def gref_uid_def cbstub_uid_def map_of_eq_None_iff)

lemma body_ok:
  assumes "entry_ready L bw st m p info f" "clone_ok (CloneFunctionInto L)" "mCallees bw = []" "\<forall>v \<in> set vs. local_val v"
    and "\<not> toUseFCP c \<Longrightarrow> local_val (mHstubRetPad t)" "set (mExtRefArgs info) \<subseteq> fst ` set (mExtRefsMap t)" "set (mCbStubArgs info) \<subseteq> fst ` set (mCbStubMap t)"
  shows "\<exists>r. rewrite_body L c m t f vs b = Inr r"
proof (rule rewrite_body_ok [OF assms(2)])
  show "\<forall>i \<in> set (all_ins f). ins_ready L m t (rename_ins r b vs i)" for r b
    using assms(1) covers_ready [OF _ assms(3) _ assms(4,6,7)] by (auto simp: entry_ready_def analysed_def)
qed (use assms in \<open>auto simp: entry_ready_def\<close>)

lemma extract_values_local: "\<forall>v \<in> set (fst (extract_values a k n b)). local_val v"
  by (induction a k n b rule: extract_values.induct) (simp_all add: Let_def local_val_def CreateExtractValue_def)

lemma hstub_args_local:
  assumes "sArg si = (if params (f_fty f) = [] then None else Some (params (f_fty f)))"
  shows "length (fst (hstub_args c t f si info)) = length (params (f_fty f))" "\<forall>v \<in> set (fst (hstub_args c t f si info)). local_val v"
proof -
  have l: "length (fst (extract_values a k n b)) = n" for a k n b using extract_values_length by (metis prod.collapse)
  show "length (fst (hstub_args c t f si info)) = length (params (f_fty f))"
    using assms l by (simp add: hstub_args_def Let_def case_prod_beta split: if_splits)
  show "\<forall>v \<in> set (fst (hstub_args c t f si info)). local_val v"
    using assms extract_values_local by (auto simp: hstub_args_def Let_def case_prod_beta split: if_splits)
qed

lemma func_args_local: "\<forall>v \<in> set (func_args f). local_val v"
  by (auto simp: func_args_def local_val_def)

text \<open>The global tables are there when they are used.\<close>

definition grt_vars :: "TakeOut_Config \<Rightarrow> TakeOut \<Rightarrow> bool" where
  "grt_vars c t \<longleftrightarrow> (toUseGRT c \<longrightarrow> tGyhExtreftbl t \<noteq> None \<and> tGyhCbstubtbl t \<noteq> None)"

lemma function_entry_ok:
  assumes "toUseFCP c" "length (params (f_fty f)) = length (params (f_fty hf))" "entry_ok st info" "tGyhExtreftbl t \<noteq> None" "tGyhCbstubtbl t \<noteq> None"
  shows "\<exists>b1 t1. function_entry c st f hf info b t = Inr (func_args hf, b1, t1) \<and>
    set (mExtRefArgs info) \<subseteq> fst ` set (mExtRefsMap t1) \<and> set (mCbStubArgs info) \<subseteq> fst ` set (mCbStubMap t1)"
proof -
  obtain e g where eg: "tGyhExtreftbl t = Some e" "tGyhCbstubtbl t = Some g" using assms(4,5) by blast
  obtain etbl b1 where l1: "CreateLoad ptrTy (VGlobal e) (0, []) = (etbl, b1)" by (metis prod.exhaust)
  obtain refs b2 where r: "table_loads etbl (gref_uid st) (mExtRefArgs info) b1 = Inr (refs, b2)" "map fst refs = mExtRefArgs info"
    using table_loads_ok [OF entry_uids(1) [OF assms(3)]] by blast
  obtain ctbl b3 where l2: "CreateLoad ptrTy (VGlobal g) b2 = (ctbl, b3)" by (metis prod.exhaust)
  obtain cbs b4 where s: "table_loads ctbl (cbstub_uid st) (mCbStubArgs info) b3 = Inr (cbs, b4)" "map fst cbs = mCbStubArgs info"
    using table_loads_ok [OF entry_uids(2) [OF assms(3)]] by blast
  have "function_entry c st f hf info b t = Inr (func_args hf, b4, t\<lparr>mExtRefsMap := refs @ mExtRefsMap t, mCbStubMap := cbs @ mCbStubMap t\<rparr>)"
    using assms(1,2) by (simp add: function_entry_def eg non_null_def l1 r(1) l2 s(1))
  moreover have "set (mExtRefArgs info) = fst ` set refs" "set (mCbStubArgs info) = fst ` set cbs"
    using arg_cong [OF r(2), of set] arg_cong [OF s(2), of set] by simp_all
  ultimately show ?thesis by auto
qed

lemma hstub_refs_ok:
  assumes "entry_ok st info" "grt_vars c t"
  shows "\<exists>refs cbs b1. hstub_refs c t st info b = Inr (refs, cbs, b1) \<and> set (mExtRefArgs info) \<subseteq> fst ` set refs \<and> set (mCbStubArgs info) \<subseteq> fst ` set cbs"
proof (cases "toUseGRT c")
  case False
  obtain refs b1 where r: "pad_loads (mExtRefArgs info) (VArg 2 ptrTy) b = (refs, b1)" by (metis prod.exhaust)
  obtain cbs b2 where s: "pad_loads (mCbStubArgs info) (VArg 3 ptrTy) b1 = (cbs, b2)" by (metis prod.exhaust)
  have "map fst refs = mExtRefArgs info" "map fst cbs = mCbStubArgs info"
    using pad_loads_keys [of "mExtRefArgs info" "VArg 2 ptrTy" b] pad_loads_keys [of "mCbStubArgs info" "VArg 3 ptrTy" b1] r s by simp_all
  then have "set (mExtRefArgs info) = fst ` set refs" "set (mCbStubArgs info) = fst ` set cbs" by (metis set_map)+
  then show ?thesis using False by (simp add: hstub_refs_def r s)
next
  case True
  then obtain e g where eg: "tGyhExtreftbl t = Some e" "tGyhCbstubtbl t = Some g" using assms(2) by (auto simp: grt_vars_def)
  obtain refs b1 where r: "grt_loads e (gref_uid st) (mExtRefArgs info) b = Inr (refs, b1)" "map fst refs = mExtRefArgs info"
    using grt_loads_ok [OF entry_uids(1) [OF assms(1)]] by blast
  obtain cbs b2 where s: "grt_loads g (cbstub_uid st) (mCbStubArgs info) b1 = Inr (cbs, b2)" "map fst cbs = mCbStubArgs info"
    using grt_loads_ok [OF entry_uids(2) [OF assms(1)]] by blast
  have "set (mExtRefArgs info) = fst ` set refs" "set (mCbStubArgs info) = fst ` set cbs" using r(2) s(2) by (metis set_map)+
  then show ?thesis using True by (simp add: hstub_refs_def eg non_null_def r(1) s(1))
qed

text \<open>The function behind a stub of the fast path is declared, with the type of the function it copies.\<close>

definition fcp_decl :: "modul \<Rightarrow> TakeOut \<Rightarrow> gvptr \<Rightarrow> bool" where
  "fcp_decl m t p \<longleftrightarrow> (\<exists>f h hf. map_of (m_funcs m) p = Some f \<and> map_of (mFcpFuncMap t) p = Some h \<and>
     map_of (m_funcs (fst (tModule t))) h = Some hf \<and> f_fty hf = f_fty f)"

lemma do_hstubcvt_ok:
  assumes "entry_ready L bw st m p info f" "map_of (mCallingStubs st) (mStubType info) = Some si" "clone_ok (CloneFunctionInto L)" "mCallees bw = []"
    and "grt_vars c t" "toUseFCP c \<Longrightarrow> toUseGRT c \<and> fcp_decl m t p \<and> h \<notin> fcp_targets t p" "map_of (m_funcs (fst (tModule t))) h \<noteq> None"
  shows "\<exists>t'. do_hstubcvt L c m st p f h si info t = Inr t'"
proof (cases "toUseFCP c")
  case True
  let ?a = "hstub_args c t f si info"
  from assms(1) True assms(6) obtain hfunc hf where hf: "map_of (mFcpFuncMap t) p = Some hfunc" "map_of (m_funcs (fst (tModule t))) hfunc = Some hf" "f_fty hf = f_fty f"
    by (auto simp: fcp_decl_def entry_ready_def)
  have ne: "h \<noteq> hfunc" using True assms(6) hf(1) by (auto simp: fcp_targets_def)
  define t2 where "t2 = t\<lparr>mHstubArgs := fst ?a, mExtRefsMap := [], mCbStubMap := [],
      tModule := upd_func h (setBody (snd (fcp_stub f hfunc si (fst ?a) (snd ?a)))) (tModule t)\<rparr>"
  have "map_of (m_funcs (fst (tModule t2))) hfunc = Some hf" using hf(2) ne by (simp add: t2_def map_of_upd_func)
  moreover obtain b1 t1 where e: "function_entry c st f hf info (0, []) t2 = Inr (func_args hf, b1, t1)"
      "set (mExtRefArgs info) \<subseteq> fst ` set (mExtRefsMap t1)" "set (mCbStubArgs info) \<subseteq> fst ` set (mCbStubMap t1)"
    using function_entry_ok [of c f hf st info t2 "(0, [])"] True assms(1,5,6) hf(3) by (auto simp: entry_ready_def grt_vars_def t2_def)
  moreover obtain bs s where "rewrite_body L c m t1 f (func_args hf) b1 = Inr (bs, s)"
    using body_ok [OF assms(1,3,4) func_args_local _ e(2,3), of c hf b1] True by auto
  ultimately have "\<exists>t3. TakeOut_do_function L c m st f hfunc info (0, []) t2 = Inr t3" by (simp add: TakeOut_do_function_def)
  then show ?thesis using True assms(6) unfolding do_hstubcvt_def Let_def case_prod_beta hf(1) by (auto simp: t2_def)
next
  case False
  let ?a = "hstub_args c t f si info"
  have sa: "sArg si = (if params (f_fty f) = [] then None else Some (params (f_fty f)))" using assms(1,2) by (simp add: entry_ready_def)
  define t1 where "t1 = t\<lparr>mHstubArgs := fst ?a, mExtRefsMap := [], mCbStubMap := []\<rparr>"
  obtain refs cbs b1 where r: "hstub_refs c t1 st info (snd ?a) = Inr (refs, cbs, b1)" "set (mExtRefArgs info) \<subseteq> fst ` set refs" "set (mCbStubArgs info) \<subseteq> fst ` set cbs"
    using hstub_refs_ok [of st info c t1 "snd ?a"] assms(1,5) by (auto simp: entry_ready_def grt_vars_def t1_def)
  define t2 where "t2 = t1\<lparr>mExtRefsMap := refs, mCbStubMap := cbs, mHstubRetPad := VArg 0 ptrTy\<rparr>"
  obtain hf where hf: "map_of (m_funcs (fst (tModule t2))) h = Some hf" using assms(7) by (auto simp: t2_def t1_def)
  have "function_entry c st f hf info b1 t2 = Inr (fst ?a, b1, t2)" using False hstub_args_local(1) [OF sa] by (simp add: function_entry_def t2_def t1_def)
  moreover obtain bs s where "rewrite_body L c m t2 f (fst ?a) b1 = Inr (bs, s)"
    using body_ok [OF assms(1,3,4) hstub_args_local(2) [OF sa], of c t2 c t info b1] r(2,3) by (auto simp: t2_def t1_def local_val_def)
  ultimately have "\<exists>t3. TakeOut_do_function L c m st f h info b1 t2 = Inr t3" by (simp add: TakeOut_do_function_def hf)
  then obtain t3 where "TakeOut_do_function L c m st f h info b1 t2 = Inr t3" ..
  then show ?thesis using False r(1) unfolding do_hstubcvt_def Let_def case_prod_beta t1_def [symmetric] t2_def by simp
qed

lemma fcp_decl_hext:
  assumes "fcp_decl m t p" "hext Q (tModule t) (tModule t')" "same_rt t t'" "fcp_ok t" "fcp_targets t p \<inter> Q = {}"
  shows "fcp_decl m t' p"
proof -
  from assms(1) obtain f h hf where h: "map_of (m_funcs m) p = Some f" "map_of (mFcpFuncMap t) p = Some h"
      "map_of (m_funcs (fst (tModule t))) h = Some hf" "f_fty hf = f_fty f" by (auto simp: fcp_decl_def)
  have "h \<in> fcp_targets t p" using h(2) by (simp add: fcp_targets_def)
  then have "h < snd (tModule t)" "h \<notin> Q" using assms(4,5) by (auto simp: fcp_ok_def)
  then have "map_of (m_funcs (fst (tModule t'))) h = Some hf" using h(3) assms(2) by (simp add: hext_def)
  then show ?thesis using h assms(3) by (auto simp: fcp_decl_def same_rt_def)
qed

lemma declare_hfunc_decl:
  assumes "fcp_ok t" "fresh_from (tModule t)" "mWhiteCallees t = []"
  shows "mWhiteCallees (declare_hfunc L m black e t) = [] \<and>
    (\<forall>p. fcp_decl m t p \<longrightarrow> fcp_decl m (declare_hfunc L m black e t) p) \<and>
    (fst e \<notin> set black \<longrightarrow> map_of (m_funcs m) (fst e) \<noteq> None \<longrightarrow> fcp_decl m (declare_hfunc L m black e t) (fst e)) \<and>
    tGyhExtreftbl (declare_hfunc L m black e t) = tGyhExtreftbl t \<and> tGyhCbstubtbl (declare_hfunc L m black e t) = tGyhCbstubtbl t"
proof (cases "map_of (m_funcs m) (fst e) = None \<or> fst e \<in> set black")
  case True
  then show ?thesis using assms(3) by (auto simp: declare_hfunc_def split: option.splits)
next
  case False
  then obtain f where f: "map_of (m_funcs m) (fst e) = Some f" by auto
  obtain h t1 where n: "new_internal L (f_fty f) (f_name f) t = (h, t1)" by (metis prod.exhaust)
  note ni = new_internal_spec [OF n assms(2)]
  let ?t = "t1\<lparr>mFcpFuncMap := (fst e, h) # mFcpFuncMap t1\<rparr>"
  have d: "declare_hfunc L m black e t = ?t" using f False assms(3) n by (simp add: declare_hfunc_def)
  obtain hf where hf: "map_of (m_funcs (fst (tModule t1))) h = Some hf" using ni(4) by blast
  have e: "fcp_decl m ?t (fst e)" using f hf ni(7) by (auto simp: fcp_decl_def)
  have "fcp_decl m ?t p" if "fcp_decl m t p" "p \<noteq> fst e" for p
    using fcp_decl_hext [OF that(1) ni(2,3) assms(1)] that(2) by (auto simp: fcp_decl_def)
  then show ?thesis unfolding d using e ni(3) assms(3) by (auto simp: same_rt_def)
qed

lemma fold_declare_decl:
  assumes "fcp_ok t" "fresh_from (tModule t)" "mWhiteCallees t = []"
  shows "(\<forall>p. fcp_decl m t p \<longrightarrow> fcp_decl m (fold (declare_hfunc L m black) es t) p) \<and>
    (\<forall>e \<in> set es. fst e \<notin> set black \<longrightarrow> map_of (m_funcs m) (fst e) \<noteq> None \<longrightarrow> fcp_decl m (fold (declare_hfunc L m black) es t) (fst e)) \<and>
    tGyhExtreftbl (fold (declare_hfunc L m black) es t) = tGyhExtreftbl t \<and> tGyhCbstubtbl (fold (declare_hfunc L m black) es t) = tGyhCbstubtbl t"
  using assms
proof (induction es arbitrary: t)
  case (Cons e es)
  note d = declare_hfunc_decl [OF Cons.prems, of L m black e]
  note o = declare_hfunc_spec [OF Cons.prems(1,2), of L m black e]
  from Cons.IH [OF conjunct1 [OF o] conjunct2 [OF o] conjunct1 [OF d]] d show ?case by auto
qed simp

text \<open>What the host stage needs: the tables fit the module, the options go together, and there are no
  annotated callees.\<close>

definition take_ready :: "take_llvm \<Rightarrow> TakeOut_Config \<Rightarrow> BwList \<Rightarrow> Symtbl \<Rightarrow> modul \<Rightarrow> bool" where
  "take_ready L c bw st m \<longleftrightarrow> clone_ok (CloneFunctionInto L) \<and> uniq_ok (uniq L) \<and> mCallees bw = [] \<and>
     (toUseFCP c \<longrightarrow> toUseGRT c) \<and> (toUseFCPcm c \<longrightarrow> toUseFCP c) \<and> symtbl_wf st \<and> length (mFunctbl st) \<le> 2 ^ 32 \<and>
     (\<forall>(p, info) \<in> set (mFunctbl st). p \<notin> set (take_black bw) \<longrightarrow> (\<exists>f. entry_ready L bw st m p info f))"

lemma gen_hstub_ok:
  assumes "take_ready L c bw st m" "(p, info) \<in> set (mFunctbl st)" "fresh_from (tModule t)" "fcp_ok t" "grt_vars c t"
    and "toUseFCP c \<Longrightarrow> p \<notin> set (take_black bw) \<Longrightarrow> fcp_decl m t p"
  shows "\<exists>r. gen_hstub L c m st (take_black bw) (p, info) t = Inr r"
proof (cases "p \<in> set (take_black bw)")
  case True
  then show ?thesis by (simp add: gen_hstub_def)
next
  case False
  have e: "\<forall>(p, info) \<in> set (mFunctbl st). p \<notin> set (take_black bw) \<longrightarrow> (\<exists>f. entry_ready L bw st m p info f)" using assms(1) by (simp add: take_ready_def)
  obtain f where f: "entry_ready L bw st m p info f" using bspec [OF e assms(2)] False by auto
  have "mStubType info \<in> fst ` set (mCallingStubs st)" using f by (simp add: entry_ready_def entry_ok_def)
  then obtain si where si: "map_of (mCallingStubs st) (mStubType info) = Some si" by (cases "map_of (mCallingStubs st) (mStubType info)") (simp_all add: map_of_eq_None_iff)
  have mf: "map_of (m_funcs m) p = Some f" using f by (simp add: entry_ready_def)
  obtain h t1 where n: "new_internal L (hstubTy c) (''__gyh_call_'' @ nat_digits (unat (mUid info))) t = (h, t1)" by (metis prod.exhaust)
  note ni = new_internal_spec [OF n assms(3)]
  have "grt_vars c t1" using assms(5) ni(3) by (simp add: grt_vars_def same_rt_def)
  moreover have "toUseGRT c \<and> fcp_decl m t1 p \<and> h \<notin> fcp_targets t1 p" if "toUseFCP c"
  proof -
    have "fcp_decl m t1 p" using fcp_decl_hext [OF assms(6) [OF that False] ni(2,3) assms(4)] by simp
    moreover have "h \<notin> fcp_targets t1 p" using assms(4) ni(1) unfolding same_rt_targets [OF ni(3)] by (auto simp: fcp_ok_def)
    ultimately show ?thesis using assms(1) that by (simp add: take_ready_def)
  qed
  ultimately obtain t2 where "do_hstubcvt L c m st p f h si info t1 = Inr t2"
    using do_hstubcvt_ok [OF f si _ _ _ _ ni(4)] assms(1) by (auto simp: take_ready_def)
  then show ?thesis using False mf si n by (simp add: gen_hstub_def)
qed

lemma gen_hstubs_ok:
  assumes "take_ready L c bw st m"
  shows "set es \<subseteq> set (mFunctbl st) \<Longrightarrow> distinct (map fst es) \<Longrightarrow> fresh_from (tModule t) \<Longrightarrow> fcp_ok t \<Longrightarrow> grt_vars c t \<Longrightarrow>
    (toUseFCP c \<Longrightarrow> \<forall>e \<in> set es. fst e \<notin> set (take_black bw) \<longrightarrow> fcp_decl m t (fst e)) \<Longrightarrow>
    \<exists>kvs t'. gen_hstubs L c m st (take_black bw) es t = Inr (kvs, t')"
proof (induction es arbitrary: t)
  case (Cons e es)
  obtain p info where e: "e = (p, info)" by (cases e)
  have "\<exists>r. gen_hstub L c m st (take_black bw) (p, info) t = Inr r"
    by (rule gen_hstub_ok [OF assms]) (use Cons.prems e in auto)
  then obtain kv t1 where g: "gen_hstub L c m st (take_black bw) e t = Inr (kv, t1)" unfolding e by (metis prod.exhaust)
  note s = gen_hstub_spec [OF g Cons.prems(3,4)]
  have d: "fcp_decl m t1 (fst e')" if "toUseFCP c" "e' \<in> set es" "fst e' \<notin> set (take_black bw)" for e'
  proof -
    have "fcp_targets t (fst e) \<inter> fcp_targets t (fst e') = {}"
      by (rule fcp_targets_disjoint [OF Cons.prems(4)]) (use Cons.prems(2) that(2) in force)
    then have "fcp_targets t (fst e') \<inter> fcp_targets t (fst e) = {}" by blast
    then show ?thesis using fcp_decl_hext [OF _ s(4,2) Cons.prems(4)] Cons.prems(6) that by simp
  qed
  have "\<exists>kvs t'. gen_hstubs L c m st (take_black bw) es t1 = Inr (kvs, t')"
    by (rule Cons.IH) (use Cons.prems s d in \<open>auto simp: hext_def grt_vars_def same_rt_def\<close>)
  then show ?case by (auto simp: g)
qed simp

lemma fcp_entries_ok:
  "\<forall>e \<in> set es. fst e \<notin> set black \<longrightarrow> map_of fm (fst e) \<noteq> None \<Longrightarrow> \<exists>kvs. fcp_entries fm black es = Inr kvs"
proof (induction fm black es rule: fcp_entries.induct)
  case (2 fm black p info es)
  have "\<exists>v. (if p \<in> set black then Inr VNull else case map_of fm p of None \<Rightarrow> Inl KeyMissing | Some h \<Rightarrow> Inr (VGlobal h)) = Inr v"
    using 2(2) by (cases "map_of fm p") simp_all
  then obtain v where v: "(if p \<in> set black then Inr VNull else case map_of fm p of None \<Rightarrow> Inl KeyMissing | Some h \<Rightarrow> Inr (VGlobal h)) = Inr v" ..
  from 2(1) [OF v] 2(2) obtain kvs where "fcp_entries fm black es = Inr kvs" by auto
  then show ?case unfolding fcp_entries.simps v by simp
qed simp

lemma runtime_func_cong:
  assumes "m_funcs m' = m_funcs m" "m_gvars m' = m_gvars m" "m_aliases m' = m_aliases m"
  shows "runtime_func (m', n') x = runtime_func (m, n) x"
  unfolding runtime_func_def getFunction_def getNamedValue_def named_values_def all_values_def fst_conv assms ..

lemma take_debug_ok:
  assumes "uniq_ok (uniq L)" "template_module (uniq L) k = (h, n)"
  shows "\<exists>t1. TakeOut_gen_debug L c (TakeOut_new (h\<lparr>m_id := i, m_layout := l, m_flags := fl\<rparr>, n)) = Inr t1 \<and> mWhiteCallees t1 = []"
proof -
  have "ms_ok (empty_module, k)" by (simp add: ms_ok_def mod_wf_def addrs_def all_values_def named_values_def empty_module_def)
  moreover have "distinct (map fst host_ll)" "\<forall>n \<in> set (map fst host_ll). n \<notin> set (value_names (fst (empty_module, k))) \<and> n \<noteq> []"
    by (simp_all add: host_ll_def value_names_def named_values_def all_values_def empty_module_def)
  ultimately have "\<forall>n \<in> set (map fst host_ll). getFunction (fst (template_module (uniq L) k)) n \<noteq> None"
    unfolding template_module_def using inject_decls_ok [of "(empty_module, k)" "uniq L" host_ll] assms(1) by blast
  then have r: "\<exists>p. runtime_func (h, n) x = Inr p" if "x \<in> set (map fst host_ll)" for x
    using that assms(2) by (cases "getFunction h x") (auto simp: runtime_func_def)
  have c: "runtime_func (h\<lparr>m_id := i, m_layout := l, m_flags := fl\<rparr>, n) x = runtime_func (h, n) x" for x by (rule runtime_func_cong) simp_all
  obtain d b where "runtime_func (h, n) ''__gyh_debug__'' = Inr d" "runtime_func (h, n) ''__gyh_callback__'' = Inr b"
    using r [of "''__gyh_debug__''"] r [of "''__gyh_callback__''"] by (auto simp: host_ll_def)
  then show ?thesis unfolding TakeOut_gen_debug_def by (simp add: TakeOut_new_def c Let_def case_prod_beta)
qed

lemma take_out_ok:
  assumes "take_ready L c bw st (fst s)"
  shows "\<exists>t. take_out L c bw st s = Inr (t, take_diag bw st)"
proof -
  have wf: "numbered mUid (mFunctbl st)" "length (mFunctbl st) \<le> 2 ^ 32" "mCallees bw = []" using assms by (simp_all add: take_ready_def symtbl_wf_def)
  obtain h n where tm: "template_module (uniq L) (snd s) = (h, n)" by (metis prod.exhaust)
  define t0 where "t0 = TakeOut_new (h\<lparr>m_id := m_id (fst s), m_layout := m_layout (fst s), m_flags := m_flags h @ m_flags (fst s)\<rparr>, n)"
  obtain t1 where t1: "TakeOut_gen_debug L c t0 = Inr t1" "mWhiteCallees t1 = []"
    using take_debug_ok [OF _ tm] assms unfolding t0_def take_ready_def by blast
  have "fresh_from (h, n)" using fresh_template [of "uniq L" "snd s"] tm by simp
  then have "fresh_from (tModule t0)" "mFcpFuncMap t0 = []" by (simp_all add: t0_def TakeOut_new_def fresh_from_def)
  then have f1: "fresh_from (tModule t1)" "mFcpFuncMap t1 = []" using gen_debug_spec [OF t1(1)] by (simp_all add: hext_def)
  have d: "distinct (map fst (mFunctbl st))" using wf(1) map_sorted_distinct by (auto simp: numbered_def)
  define t2 where "t2 = (if toUseGRT c then gen_grt_vars L st t1 else t1)"
  define t3 where "t3 = (if toUseFCP c then fold (declare_hfunc L (fst s) (take_black bw)) (mFunctbl st) t2 else t2)"
  have f2: "fresh_from (tModule t2)" "fcp_ok t2" "mWhiteCallees t2 = []" "grt_vars c t2"
    using f1 t1(2) gen_grt_vars_spec [of t1 L st] by (auto simp: t2_def hext_def fcp_ok_def fcp_targets_def grt_vars_def gen_grt_vars_def Let_def case_prod_beta)
  note fd = fold_declare_decl [OF f2(2,1,3), of "fst s" L "take_black bw" "mFunctbl st"]
  have f3: "fresh_from (tModule t3)" "fcp_ok t3" "grt_vars c t3"
    using f2 fold_declare_hfunc [OF f2(2,1)] fd by (auto simp: t3_def grt_vars_def)
  have e: "\<forall>(p, info) \<in> set (mFunctbl st). p \<notin> set (take_black bw) \<longrightarrow> (\<exists>f. entry_ready L bw st (fst s) p info f)"
    using assms by (simp add: take_ready_def)
  have dc: "\<forall>e \<in> set (mFunctbl st). fst e \<notin> set (take_black bw) \<longrightarrow> fcp_decl (fst s) t3 (fst e)" if "toUseFCP c"
    using e fd that by (fastforce simp: t3_def entry_ready_def)
  obtain kvs t4 where g: "gen_hstubs L c (fst s) st (take_black bw) (mFunctbl st) t3 = Inr (kvs, t4)"
    using gen_hstubs_ok [OF assms subset_refl d f3 dc] by blast
  then have gh: "gen_hfuncs L c (fst s) st (take_black bw) t1 = Inr (kvs, t4)" unfolding gen_hfuncs_def Let_def t2_def [symmetric] t3_def [symmetric] .
  note sp = gen_hstubs_spec [OF g f3(1,2) d]
  have "fst kv = unat (mUid (snd e))" if "table_entry L c (fst s) st (take_black bw) t4 e kv" for e kv using that by (simp add: table_entry_def)
  from numbered_table [OF conjunct1 [OF sp] this wf(1,2)] obtain vs where vs: "fill_table (length (mFunctbl st)) kvs = Inr vs" by blast
  have fm: "mFcpFuncMap t4 = mFcpFuncMap t3" using sp by (simp add: same_rt_def)
  have "\<exists>t. gen_functbl L c st (take_black bw) kvs t4 = Inr t"
  proof (cases "toUseFCPcm c")
    case True
    then have "\<forall>e \<in> set (mFunctbl st). fst e \<notin> set (take_black bw) \<longrightarrow> map_of (mFcpFuncMap t4) (fst e) \<noteq> None"
      using dc assms unfolding fm by (fastforce simp: fcp_decl_def take_ready_def)
    from fcp_entries_ok [OF this] obtain es where es: "fcp_entries (mFcpFuncMap t4) (take_black bw) (mFunctbl st) = Inr es" ..
    have "fst kv = unat (mUid (snd e))" if "fst kv = unat (mUid (snd e)) \<and> X" for e kv X using that by simp
    from numbered_table [OF fcp_entries_spec [OF es] this wf(1,2)] obtain fs where "fill_table (length (mFunctbl st)) es = Inr fs" by blast
    then show ?thesis by (simp add: gen_functbl_def Let_def vs es case_prod_beta)
  qed (simp add: gen_functbl_def Let_def vs case_prod_beta)
  then obtain t where "gen_functbl L c st (take_black bw) kvs t4 = Inr t" ..
  with gh t1(1) wf(3) show ?thesis by (simp add: take_out_def Let_def tm t0_def)
qed

end
