(* ===== verification/Plug_TakeSpec.thy ===== *)
theory Plug_TakeSpec
  imports Plug_TakeRun
begin

text \<open>
  The guest stage and the host stage together: calls from the guest to the host and back.
\<close>

text \<open>The function that prints is not the one that calls the host.\<close>

definition rt_pair :: "ChopOff \<Rightarrow> gvptr \<times> gvptr" where
  "rt_pair s = (mGyhDebug s, mGyhCallGRT s)"

lemma gen_cb_stubs_ptrs: "rt_pair (fst (fold (gen_cb_stub U H c) hs (s, cbs))) = rt_pair s"
  by (induction hs arbitrary: s cbs) (auto simp: gen_cb_stub_def Let_def case_prod_beta rt_pair_def)

lemma chop_stubs_ptrs: "chop_stubs U H c st s = Inr (s', cbs) \<Longrightarrow> rt_pair s' = rt_pair s"
  using gen_cb_stubs_ptrs [of U H c "mCallbackStubs st" s "[]"]
  by (auto simp: chop_stubs_def gen_cb_stubs_def gen_grt_def Let_def case_prod_beta result_simps rt_pair_def split: if_splits)

lemma getFunction_inj:
  assumes "ms_ok s" "runtime_func s n = Inr p" "runtime_func s n' = Inr p"
  shows "n = n'"
proof -
  have wf: "mod_wf (fst s)" using assms(1) by (simp add: ms_ok_def)
  from assms(2,3) have "getFunction (fst s) n = Some p" "getFunction (fst s) n' = Some p" by (auto simp: runtime_func_def split: option.splits)
  then obtain f g where "(p, f) \<in> set (m_funcs (fst s))" "f_name f = n" "(p, g) \<in> set (m_funcs (fst s))" "f_name g = n'"
    unfolding getFunction_iff [OF wf] by blast
  then show ?thesis using mod_wf_funcs [OF wf] by (auto dest: eq_key_imp_eq_value)
qed

lemma chop_gfuncs_ptrs: "chop_gfuncs c st cbs es s = Inr s' \<Longrightarrow> rt_pair s' = rt_pair s"
proof (induction es arbitrary: s)
  case (Cons e es)
  from Cons.prems obtain s1 where s1: "chop_gfunc c st cbs e s = Inr s1" "chop_gfuncs c st cbs es s1 = Inr s'"
    by (cases "chop_gfunc c st cbs e s") auto
  have "rt_pair s1 = rt_pair s" using s1(1) by (auto simp: chop_gfunc_def result_simps rt_pair_def split: prod.splits option.splits)
  with Cons.IH [OF s1(2)] show ?case by simp
qed simp

lemma tor_body_ptrs: "rt_pair (snd (tor_body U c fmt fty target vs s)) = rt_pair s"
  by (simp add: tor_body_def Let_def case_prod_beta rt_pair_def)

lemma ctor_body_ptrs: "ctor_body U c st s = Inr (b, s') \<Longrightarrow> rt_pair s' = rt_pair s"
  unfolding ctor_body_def Let_def
  by (auto simp: result_simps gen_gfunctbl_def Let_def tor_body_def case_prod_beta rt_pair_def split: if_splits)

lemma gen_ctor_dtor_ptrs: "gen_ctor_dtor U H c st s = Inr s' \<Longrightarrow> rt_pair s' = rt_pair s"
proof -
  assume "gen_ctor_dtor U H c st s = Inr s'"
  then obtain s1 where s1: "gen_ctor U H c st s = Inr s1" "gen_dtor U H c st s1 = Inr s'"
    unfolding gen_ctor_dtor_def by (cases "gen_ctor U H c st s") auto
  have "rt_pair s1 = rt_pair s"
    using s1(1) by (auto simp: gen_ctor_def Let_def case_prod_beta result_simps rt_pair_def dest!: ctor_body_ptrs)
  moreover have "rt_pair s' = rt_pair s1"
    using s1(2) by (auto simp: gen_dtor_def Let_def case_prod_beta result_simps rt_pair_def tor_body_def)
  ultimately show ?thesis by simp
qed

lemma chop_init_ptrs:
  assumes "ms_ok m" "uniq_ok U" "runtime_names \<inter> set (value_names (fst m)) = {}" "coUseGRT c" "chop_init U H c st m = Inr s"
  shows "mGyhDebug s \<noteq> mGyhCallGRT s"
proof
  assume eq: "mGyhDebug s = mGyhCallGRT s"
  let ?s0 = "ChopOff_new (inject_module U m)"
  note o0 = inject_module_ok [OF assms(1-3)]
  have co: "coMod ?s0 = inject_module U m" by (simp add: ChopOff_new_def)
  obtain dbg where dbg: "runtime_func (coMod ?s0) ''__gyh_debug__'' = Inr dbg" using o0(3) [of "''__gyh_debug__''"] co by (auto simp: runtime_names_def guest_ll_def)
  obtain f1 f2 m1 where d: "gen_debug U c ?s0 = Inr (?s0\<lparr>coMod := m1, mGyhDebug := dbg, mGyhCallDebugFmt := f1, mGyhCallbackDebugFmt := f2\<rparr>)"
      "ms_ok m1" "grows (coMod ?s0) m1"
    using gen_debug_ok [OF _ assms(2) dbg, of c] o0(1) co by (metis (no_types))
  define s1 where "s1 = ?s0\<lparr>coMod := m1, mGyhDebug := dbg, mGyhCallDebugFmt := f1, mGyhCallbackDebugFmt := f2\<rparr>"
  have s1: "m1 = coMod s1" by (simp add: s1_def)
  obtain u m2 where u: "gen_uid U H st s1 = s1\<lparr>coMod := m2, mGyhQlibUid := u\<rparr>" "ms_ok m2" "grows m1 m2"
    using gen_uid_ok [of s1 U H st, folded s1, OF d(2) assms(2)] by (elim exE conjE) (rule that)
  have "runtime_func m2 ''__gyh_debug__'' = Inr dbg"
    using runtime_func_grows [OF grows_trans [OF d(3) u(3)]] o0(1) dbg unfolding co by blast
  moreover have "runtime_func m2 ''__gyh_call_grt__'' = Inr (mGyhCallGRT s)" "mGyhDebug s = dbg"
    using assms(4,5) unfolding chop_init_def d(1) bind_result_Inr s1_def [symmetric] Let_def u(1)
    by (auto simp: result_simps s1_def)
  ultimately have "''__gyh_debug__'' = ''__gyh_call_grt__''" using getFunction_inj [OF u(2), of "''__gyh_debug__''" dbg "''__gyh_call_grt__''"] eq by simp
  then show False by simp
qed

lemma chop_off_ptrs:
  assumes "chop_ready U st m" "chop_off U H c bw st m = Inr (s, ds)" "coUseGRT c"
  shows "mGyhDebug s \<noteq> mGyhCallGRT s"
proof -
  have r: "ms_ok m" "uniq_ok U" "runtime_names \<inter> set (value_names (fst m)) = {}" using assms(1) by (simp_all add: chop_ready_def)
  from assms(2) obtain s1 where s1: "chop_init U H c st m = Inr s1" unfolding chop_off_def by (cases "chop_init U H c st m") auto
  note a1 = assms(2) [unfolded chop_off_def s1 bind_result_Inr]
  then obtain s2 cbs where s2: "chop_stubs U H c st s1 = Inr (s2, cbs)" by (cases "chop_stubs U H c st s1") auto
  note a2 = a1 [unfolded s2 bind_result_Inr prod.case]
  obtain m' bs es where cb: "calc_benefits c bw st (coMod s2) = (m', bs, es)" by (metis prod.exhaust)
  note a3 = a2 [unfolded cb Let_def prod.case]
  then obtain s3 where s3: "chop_gfuncs c st cbs bs (s2\<lparr>coMod := m'\<rparr>) = Inr s3" by (cases "chop_gfuncs c st cbs bs (s2\<lparr>coMod := m'\<rparr>)") auto
  note a4 = a3 [unfolded s3 bind_result_Inr]
  then have s4: "gen_ctor_dtor U H c st s3 = Inr s" by (cases "gen_ctor_dtor U H c st s3") auto
  have "rt_pair s = rt_pair s1"
    using gen_ctor_dtor_ptrs [OF s4] chop_gfuncs_ptrs [OF s3] chop_stubs_ptrs [OF s2] by (simp add: rt_pair_def)
  then show ?thesis using chop_init_ptrs [OF r assms(3) s1] by (simp add: rt_pair_def)
qed

section \<open>An example\<close>

text \<open>A module with a function that calls another one with its argument and returns the result.\<close>

definition work_ty :: ty where
  "work_ty = FunctionTy i64Ty [i64Ty] False"

definition work_call :: instr where
  "work_call = (new_ins 0 Call i64Ty [VArg 0 i64Ty])\<lparr>i_callee := VGlobal 2, i_fty := work_ty\<rparr>"

definition work :: func where
  "work = \<lparr>f_name = ''work'', f_fty = work_ty, f_linkage = ExternalLinkage, f_attrs = [],
     f_blocks = [\<lparr>b_id = 0, b_name = ''entry'', b_ins = [work_call, new_ins 1 Ret VoidTy [VInst 0 i64Ty]]\<rparr>],
     f_intrinsic = 0, f_prefix = None, f_dso_local = False\<rparr>"

definition work_module :: modul where
  "work_module = \<lparr>m_id = ''w'', m_funcs = [(1, work), (2, work\<lparr>f_name := ''ext'', f_blocks := []\<rparr>)], m_gvars = [], m_aliases = [],
     m_layout = [], m_flags = []\<rparr>"

definition work_hash :: u64 where
  "work_hash = the (signature_hash sample_llvm work_ty [])"

definition work_stub :: StubInfo where
  "work_stub = (StubInfo_new work_ty [])\<lparr>sUid := 0\<rparr>"

definition work_info :: FuncInfo where
  "work_info = \<lparr>mUid = 0, mStubType = work_hash, mExtRefArgs = [2], mCbStubArgs = [work_hash]\<rparr>"

definition work_symtbl :: Symtbl where
  "work_symtbl = Symtbl_new\<lparr>mCallingStubs := [(work_hash, work_stub)], mCallbackStubs := [(work_hash, work_stub)],
     mFunctbl := [(1, work_info)], mGreftbl := [(2, 0)]\<rparr>"

definition sample_clone :: clone where
  "sample_clone n l vs f = map (rename_block (\<lambda>i. n + i) (\<lambda>b. l + b) vs) (f_blocks f)"

definition sample_take_llvm :: take_llvm where
  "sample_take_llvm = \<lparr>hashing = sample_llvm, uniq = sample_uniq, CloneFunctionInto = sample_clone, gv_operands = (\<lambda>_. []), dbg_value = 1\<rparr>"

definition sample_take :: "bool \<Rightarrow> TakeOut_Config" where
  "sample_take cm = \<lparr>toDebug = True, toUseGRT = True, toUseFCP = True, toUseFCPcm = cm\<rparr>"

lemmas work_simps = work_module_def work_def work_call_def work_symtbl_def work_info_def work_stub_def new_ins_def

lemma sample_clone_ok: "clone_ok sample_clone"
  unfolding clone_ok_def
proof (intro allI exI conjI)
  fix n l vs f
  show "sample_clone n l vs f = map (rename_block ((+) n) ((+) l) vs) (f_blocks f)" by (simp add: sample_clone_def)
qed simp_all

lemma work_signature: "signature_hash sample_llvm work_ty [] = Some work_hash"
proof -
  have "signature_hash sample_llvm work_ty [] \<noteq> None"
    by (simp add: signature_hash_def type_hash_Function_def type_hash_Integer_def attribute_list_hash_def work_ty_def i64Ty_def)
  then show ?thesis by (simp add: work_hash_def)
qed

lemma work_entry: "entry_ready sample_take_llvm kNULL work_symtbl work_module 1 work_info work"
proof -
  have "analysed sample_llvm kNULL work_module work work_info"
    using work_signature
    by (auto simp: analysed_def function_hash_def all_ins_def covers_def calls_back_def is_call_def call_site_hash_def classify_callee_def
        isIntrinsic_def kNULL_def work_simps)
  moreover have "\<forall>i \<in> set (all_ins work). plain_ins sample_take_llvm work_module i"
    by (simp add: all_ins_def plain_ins_def is_call_def isIntrinsic_def work_simps)
  moreover have "entry_ok work_symtbl work_info" by (simp add: entry_ok_def work_simps)
  ultimately show ?thesis by (simp add: entry_ready_def sample_take_llvm_def) (simp add: work_simps work_ty_def StubInfo_new_def)
qed

lemma work_symtbl_wf: "symtbl_wf work_symtbl"
proof -
  have "entry_ok work_symtbl work_info" using work_entry by (simp add: entry_ready_def)
  moreover have "mFunctbl work_symtbl = [(1, work_info)]" by (simp add: work_symtbl_def)
  moreover have "numbered sUid (mCallingStubs work_symtbl)" "numbered sUid (mCallbackStubs work_symtbl)"
      "numbered mUid (mFunctbl work_symtbl)" "numbered id (mGreftbl work_symtbl)"
    by (simp_all add: numbered_def map_sorted_def work_symtbl_def work_stub_def work_info_def lessThan_Suc)
  ultimately show ?thesis by (simp add: symtbl_wf_def)
qed

lemma work_take_ready: "take_ready sample_take_llvm (sample_take cm) kNULL work_symtbl work_module"
  using work_entry work_symtbl_wf
  by (auto simp: take_ready_def sample_take_llvm_def sample_clone_ok sample_uniq_ok sample_take_def kNULL_def work_symtbl_def Symtbl_new_def)

lemma work_chop_ready: "chop_ready sample_uniq work_symtbl (work_module, 3)"
  using work_symtbl_wf
  by (auto simp: chop_ready_def sample_uniq_ok ms_ok_def mod_wf_def addrs_def all_values_def named_values_def value_names_def
      runtime_names_def guest_ll_def work_simps Symtbl_new_def)

lemma work_stubs_typed: "stubs_typed work_symtbl work_module"
  by (simp add: stubs_typed_def work_simps StubInfo_new_def work_ty_def)

lemma work_taken: "taken (sample_chop True) kNULL work_module 1"
  by (simp add: taken_def chop_bw_def kNULL_def work_simps worth_chopping_def sample_chop_def instructionCount_def all_ins_def)

section \<open>Properties\<close>

text \<open>A runtime that passes calls to the stubs of the host.\<close>

definition dispatch_calls :: "ChopOff \<Rightarrow> calls \<Rightarrow> TakeOut \<Rightarrow> val list \<Rightarrow> calls" where
  "dispatch_calls s Kh t hfuncs g xs n m =
     (if g = glob (mGyhCallGRT s) then
        (case xs of
          [_, SInt u, rp, ap] \<Rightarrow> (case hfuncs ! unat u of
             VGlobal h \<Rightarrow> (case map_of (m_funcs (fst (tModule t))) h of Some f \<Rightarrow> call_func Kh f [rp, ap] n m | None \<Rightarrow> None)
           | _ \<Rightarrow> None)
        | _ \<Rightarrow> None)
      else Some (SUndef, m))"

lemma unat_u32_u64: "unat (ucast (u :: u32) :: u64) = unat u"
proof -
  have "unat u < 2 ^ 64" using unsigned_less [of u, where ?'a = nat] by simp
  then show ?thesis by (simp add: unsigned_ucast_eq take_bit_nat_eq_self)
qed

lemma dispatch_calls_ok:
  assumes "mGyhDebug s \<noteq> mGyhCallGRT s"
  shows "prints (dispatch_calls s Kh t hfuncs) (mGyhDebug s)" "runs_host (dispatch_calls s Kh t hfuncs) s Kh t hfuncs"
  using assms by (simp_all add: prints_def runs_host_def dispatch_calls_def unat_u32_u64)

text \<open>C32. Calling a function that was moved is calling the function of the host made for it: with the
  guest module and the host module generated from one symbol table, with global tables and the fast
  path, and a runtime that hands a call to the stub the table of the host has for its number, the
  replaced function returns what the host function returns on the same arguments, its stack cells
  freed, and does not return when that does not.\<close>

theorem guest_call_runs_host_function:
  assumes "chop_ready U st m" "stubs_typed st (fst m)" "chop_off U H c bw st m = Inr (s, ds)" "coUseGRT c"
    and "take_out L ct bw st m = Inr (t, ds')" "toUseGRT ct" "toUseFCP ct"
    and "(p, info) \<in> set (mFunctbl st)" "taken c bw (fst m) p" "p \<notin> set (take_black bw)" "map_of (m_funcs (fst m)) p = Some f"
  shows "\<exists>hfuncs hfunc f' si. host_tables L ct bw st (fst m) t hfuncs \<and> map_of (mFcpFuncMap t) p = Some hfunc \<and>
    map_of (m_funcs (fst (coMod s))) p = Some f' \<and> map_of (mCallingStubs st) (mStubType info) = Some si \<and>
    (\<forall>K Kh as n mem rp ap n2 m2. prints K (mGyhDebug s) \<longrightarrow> prints Kh (tGyhDebug t) \<longrightarrow> runs_host K s Kh t hfuncs \<longrightarrow>
      length as = length (params (f_fty f)) \<longrightarrow> call_frame si as (n, mem) = (rp, ap, n2, m2) \<longrightarrow>
      (\<forall>r m3. Kh (glob hfunc) as n2 m2 = Some (r, m3) \<longrightarrow> sRet si \<noteq> None \<longrightarrow> m3 (OLoc n) \<noteq> None) \<longrightarrow>
      call_func K f' as n mem =
        map_option (\<lambda>(r, m3). (if sRet si = None then SUndef else r, pop_frame n m3)) (Kh (glob hfunc) as n2 m2))"
  by (rule guest_call_to_host [OF assms])

theorem guest_call_runs_host_function_witness:
  "\<exists>(s :: ChopOff) ds f' K. chop_off sample_uniq sample_llvm (sample_chop True) kNULL work_symtbl (work_module, 3) = Inr (s, ds) \<and>
     map_of (m_funcs (fst (coMod s))) 1 = Some f' \<and> map_option fst (call_func K f' [SInt 1] 0 (\<lambda>_. None)) = Some (SInt 42)"
proof -
  let ?Kh = "\<lambda>g xs n m. Some (SInt 42, m)"
  obtain s ds where s: "chop_off sample_uniq sample_llvm (sample_chop True) kNULL work_symtbl (work_module, 3) = Inr (s, ds)"
    using chop_off_spec [OF work_chop_ready, of sample_llvm "sample_chop True" kNULL] by blast
  obtain t ds' where t: "take_out sample_take_llvm (sample_take False) kNULL work_symtbl (work_module, 3) = Inr (t, ds')"
    using take_out_ok [of sample_take_llvm "sample_take False" kNULL work_symtbl "(work_module, 3)"] work_take_ready by auto
  have c: "stubs_typed work_symtbl (fst (work_module, 3 :: gvptr))" "coUseGRT (sample_chop True)" "toUseGRT (sample_take False)" "toUseFCP (sample_take False)"
    "(1, work_info) \<in> set (mFunctbl work_symtbl)" "taken (sample_chop True) kNULL (fst (work_module, 3 :: gvptr)) 1" "1 \<notin> set (take_black kNULL)"
    "map_of (m_funcs (fst (work_module, 3 :: gvptr))) 1 = Some work"
    using work_stubs_typed work_taken by (simp_all add: sample_chop_def sample_take_def take_black_def kNULL_def) (simp_all add: work_symtbl_def work_module_def)
  from guest_call_runs_host_function [OF work_chop_ready c(1) s c(2) t c(3-8)] obtain hfuncs hfunc f' si where
    r: "map_of (m_funcs (fst (coMod s))) 1 = Some f'" "map_of (mCallingStubs work_symtbl) (mStubType work_info) = Some si"
      "\<forall>K Kh as n mem rp ap n2 m2. prints K (mGyhDebug s) \<longrightarrow> prints Kh (tGyhDebug t) \<longrightarrow> runs_host K s Kh t hfuncs \<longrightarrow>
      length as = length (params (f_fty work)) \<longrightarrow> call_frame si as (n, mem) = (rp, ap, n2, m2) \<longrightarrow>
      (\<forall>r m3. Kh (glob hfunc) as n2 m2 = Some (r, m3) \<longrightarrow> sRet si \<noteq> None \<longrightarrow> m3 (OLoc n) \<noteq> None) \<longrightarrow>
      call_func K f' as n mem =
        map_option (\<lambda>(r, m3). (if sRet si = None then SUndef else r, pop_frame n m3)) (Kh (glob hfunc) as n2 m2)" by blast
  have si: "si = work_stub" using r(2) by (simp add: work_symtbl_def work_info_def)
  have f: "sRet work_stub = Some i64Ty" "sArg work_stub = Some [i64Ty]" by (simp_all add: work_stub_def StubInfo_new_def work_ty_def i64Ty_def)
  let ?m2 = "(\<lambda>_. None)(OLoc 0 \<mapsto> (i64Ty, undef_of i64Ty), OLoc 1 \<mapsto> (structTy [i64Ty], SAgg [SInt 1]))"
  have cf: "call_frame si [SInt 1] (0, \<lambda>_. None) = (SPtr (OLoc 0) 0, SPtr (OLoc 1) 0, 2, ?m2)"
    by (simp add: call_frame_def si f push_def numeral_2_eq_2)
  have p: "prints ?Kh (tGyhDebug t)" "length [SInt 1] = length (params (f_fty work))" by (simp_all add: prints_def work_def work_ty_def)
  let ?K = "dispatch_calls s ?Kh t hfuncs"
  note d = dispatch_calls_ok [OF chop_off_ptrs [OF work_chop_ready s c(2)], of ?Kh t hfuncs]
  have "call_func ?K f' [SInt 1] 0 (\<lambda>_. None) = map_option (\<lambda>(r, m3). (if sRet si = None then SUndef else r, pop_frame 0 m3)) (?Kh (glob hfunc) [SInt 1] 2 ?m2)"
    using r(3) [rule_format, OF d(1) p(1) d(2) p(2) cf] by simp
  then have "map_option fst (call_func ?K f' [SInt 1] 0 (\<lambda>_. None)) = Some (SInt 42)" using si f by simp
  with s r(1) show ?thesis by blast
qed

text \<open>C33. What the host module exports: a constant table that has, for the number of each function, the
  stub made for that function, still with the code it was given, or a null pointer when the function
  is on the black list; with the fast path across modules a second one has the functions themselves.
  The functions reported are those that were required and are not in the table.\<close>

theorem take_out_exports_tables:
  assumes "take_out L c bw st s = Inr (t, ds)" "numbered mUid (mFunctbl st)" "length (mFunctbl st) \<le> 2 ^ 32"
  shows "ds = take_diag bw st \<and> (\<exists>hfuncs. host_tables L c bw st (fst s) t hfuncs)"
  using take_out_spec [OF assms] by simp

theorem take_out_exports_tables_witness:
  "\<exists>t hfuncs h. host_tables sample_take_llvm (sample_take True) kNULL work_symtbl work_module t hfuncs \<and> hfuncs = [VGlobal h] \<and>
     hstub_made sample_take_llvm (sample_take True) work_module work_symtbl t 1 work_info h"
proof -
  have n: "numbered mUid (mFunctbl work_symtbl)" "length (mFunctbl work_symtbl) \<le> 2 ^ 32" "(1, work_info) \<in> set (mFunctbl work_symtbl)"
    using work_symtbl_wf by (simp_all add: symtbl_wf_def work_symtbl_def)
  obtain t ds where "take_out sample_take_llvm (sample_take True) kNULL work_symtbl (work_module, 3) = Inr (t, ds)"
    using take_out_ok [of sample_take_llvm "sample_take True" kNULL work_symtbl "(work_module, 3)"] work_take_ready by auto
  from take_out_exports_tables [OF this n(1,2)] obtain hfuncs where t: "host_tables sample_take_llvm (sample_take True) kNULL work_symtbl work_module t hfuncs" by auto
  obtain h where h: "hfuncs ! 0 = VGlobal h" "hstub_made sample_take_llvm (sample_take True) work_module work_symtbl t 1 work_info h"
    using host_tables_stub [OF t n(3)] by (auto simp: take_black_def kNULL_def work_info_def)
  have "length hfuncs = 1" using t by (simp add: host_tables_def by_number_def work_symtbl_def)
  then have "hfuncs = [VGlobal h]" using h(1) by (cases hfuncs) auto
  with t h(2) show ?thesis by blast
qed



text \<open>C35. The call across modules.  The block up to the call becomes three: the first reads the two words in
  front of the called function and goes left exactly when they are the address of a host function and
  that address combined with the magic number; the left one calls that address with the arguments,
  the right one is the call back into the guest; both go on behind the call, where a \<open>phi\<close> has the
  result of the side the control came from.\<close>

theorem fcp_cm_chooses_side:
  assumes "do_fcp_cm L c t i rest w = Inr (rest', w')" "i_op i = Call" "exec_list K as (wOut w) st0 = Cont st"
    and "eval as (locals st) (i_callee i) = Some (glob p)" "below (wNext w) (i_callee i)"
    and "map (eval as (locals st)) (i_ops i) = map Some xs" "\<forall>v \<in> set (i_ops i). below (wNext w) v"
    and "prefix_words (smem st) p magic addr"
  shows "\<exists>top left right st1 rr b3. wDone w' = map (redirect_block (wId w) (b_id top)) (wDone w) @ [top, left, right] \<and>
    distinct [b_id top, b_id left, b_id right] \<and>
    exec_list K as (b_ins top) st0 = Jump (if magic = Symtbl_kFCPcmMagic XOR addr then b_id left else b_id right) st1 \<and>
    smem st1 = smem st \<and> nloc st1 = nloc st \<and> (\<forall>i < wNext w. locals st1 i = locals st i) \<and>
    do_callback L c t i (fst b3, []) = Inr rr \<and> b_ins right = snd (snd rr) @ i # snd (CreateBr (wId w) (fst (snd rr), [])) \<and>
    (i_ty i \<noteq> VoidTy \<longrightarrow> (\<exists>phi. rest' = phi # map (redirect_ins (wId w) (b_id top)) rest \<and> is_phi phi \<and>
       phi_operand (b_id right) (i_ops phi) = fst rr)) \<and>
    (\<forall>r m. K (SAddr addr) xs (nloc st) (smem st) = Some (r, m) \<longrightarrow>
       (\<exists>st2. exec_list K as (b_ins left) st1 = Jump (wId w) st2 \<and> smem st2 = m \<and> nloc st2 = nloc st \<and>
          (i_ty i \<noteq> VoidTy \<longrightarrow> Option.bind (phi_operand (b_id left) (i_ops (hd rest'))) (eval as (locals st2)) = Some r)))"
proof -
  obtain hf b1 where 1: "fcp_cm_check (i_callee i) (wLabel w + 1) (wLabel w + 2) (wNext w, []) = (hf, b1)" by (metis prod.exhaust)
  obtain lr b2 where 2: "fcp_cm_left hf i (wId w) (fst b1, []) = (lr, b2)" by (metis prod.exhaust)
  note r = assms(1) [unfolded do_fcp_cm_def Let_def 1 2 prod.case]
  from r obtain rr b3 where 3: "do_callback L c t i (fst b2, []) = Inr (rr, b3)" by (cases "do_callback L c t i (fst b2, [])") auto
  note r1 = r [unfolded 3 bind_result_Inr prod.case]
  let ?top = "new_block (wLabel w) ''gyh_fcp_cm.top'' (wOut w @ snd b1)" and ?left = "new_block (wLabel w + 1) ''gyh_fcp_cm.left'' (snd b2)"
  let ?right = "new_block (wLabel w + 2) ''gyh_fcp_cm.right'' (snd b3 @ [i] @ snd (CreateBr (wId w) (fst b3, [])))"
  from fcp_cm_check_runs [OF assms(4,5,8) 1, of K] obtain st1 where
    s1: "exec_list K as (snd b1) st = Jump (if magic = Symtbl_kFCPcmMagic XOR addr then wLabel w + 1 else wLabel w + 2) st1"
      "smem st1 = smem st" "nloc st1 = nloc st" "\<forall>i < wNext w. locals st1 i = locals st i" "eval as (locals st1) hf = Some (SInt addr)"
      "below (fst b1) hf" "wNext w \<le> fst b1" by blast
  have dn: "wDone w' = map (redirect_block (wId w) (wLabel w)) (wDone w) @ [?top, ?left, ?right]" using r1 by (cases rr) auto
  have top: "exec_list K as (b_ins ?top) st0 = Jump (if magic = Symtbl_kFCPcmMagic XOR addr then b_id ?left else b_id ?right) st1"
    using assms(3) s1(1) by (simp add: new_block_def exec_list_append)
  have ty: "rr \<noteq> None \<longleftrightarrow> i_ty i \<noteq> VoidTy"
    using 3 by (auto simp: do_callback_def callback_code_def Let_def case_prod_beta split: option.splits if_splits)
  have phi: "\<exists>n u v. rr = Some v \<and> rest' = new_ins n PHI u [lr, VBlock (wLabel w + 1), v, VBlock (wLabel w + 2)] # map (redirect_ins (wId w) (wLabel w)) rest"
    if "i_ty i \<noteq> VoidTy" using that ty r1 by (cases rr) auto
  have left: "\<exists>st2. exec_list K as (b_ins ?left) st1 = Jump (wId w) st2 \<and> smem st2 = m \<and> nloc st2 = nloc st \<and>
      (i_ty i \<noteq> VoidTy \<longrightarrow> Option.bind (phi_operand (b_id ?left) (i_ops (hd rest'))) (eval as (locals st2)) = Some r)"
    if k: "K (SAddr addr) xs (nloc st) (smem st) = Some (r, m)" for r m
  proof -
    have "map (eval as (locals st1)) (i_ops i) = map (eval as (locals st)) (i_ops i)"
      using assms(7) s1(4) by (auto intro!: eval_cong)
    from fcp_cm_left_runs [OF s1(5,6) trans [OF this assms(6)] _ assms(2) _ 2, of K r m] obtain st2 where
      "exec_list K as (snd b2) st1 = Jump (wId w) st2" "smem st2 = m" "nloc st2 = nloc st1" "eval as (locals st2) lr = Some r"
      using k s1(2,3,7) assms(7) by (auto intro: below_mono)
    then show ?thesis using s1(3) phi by (intro exI [of _ st2]) (auto simp: new_block_def new_ins_def)
  qed
  show ?thesis
    by (intro exI [of _ ?top] exI [of _ ?left] exI [of _ ?right] exI [of _ st1] exI [of _ "(rr, b3)"] exI [of _ b2] conjI)
      (use dn top s1(2-4) 3 phi left in \<open>auto simp: new_block_def new_ins_def is_phi_def\<close>)
qed

text \<open>The state of the stage and of a body in the example, and a memory with patched prefix data.\<close>

definition work_take :: TakeOut where
  "work_take = (TakeOut_new (empty_module, 20))\<lparr>tGyhDebug := 10, tGyhCallback := 11, mCbStubMap := [(work_hash, VGlobal 12)],
     mExtRefsMap := [(2, VGlobal 2)]\<rparr>"

definition work_rewriting :: rewriting where
  "work_rewriting = \<lparr>wMod = (empty_module, 20), wNext = 2, wLabel = 1, wEntry = [], wTarget = 0, wDone = [], wId = 0, wName = [],
     wOut = [], wTodo = [], mToReplace = []\<rparr>"

definition patched_mem :: smem where
  "patched_mem = (\<lambda>_. None)(OPre 2 \<mapsto> (structTy [i64Ty, i64Ty], SAgg [SInt (Symtbl_kFCPcmMagic XOR 5), SInt 5]))"

lemma work_call_ready: "call_ready sample_take_llvm work_take work_call"
  using work_signature by (simp add: call_ready_def sample_take_llvm_def work_take_def work_call_def new_ins_def call_site_hash_def)

lemma patched_prefix: "prefix_words patched_mem 2 (Symtbl_kFCPcmMagic XOR 5) 5"
  by (simp add: prefix_words_def patched_mem_def load_cell_def structTy_def i64Ty_def numeral_2_eq_2)

theorem fcp_cm_chooses_side_witness:
  "\<exists>rest w' top left right st1. do_fcp_cm sample_take_llvm (sample_take True) work_take work_call [] work_rewriting = Inr (rest, w') \<and>
     wDone w' = [top, left, right] \<and>
     exec_list (\<lambda>g xs n m. Some (SInt 42, m)) [SInt 1] (b_ins top) \<lparr>locals = (\<lambda>_. None), nloc = 0, smem = patched_mem\<rparr> = Jump (b_id left) st1"
proof -
  let ?st = "\<lparr>locals = (\<lambda>_. None), nloc = 0, smem = patched_mem\<rparr>" and ?K = "\<lambda>g xs n m. Some (SInt 42, m)"
  have "work_call\<lparr>i_callee := i_callee work_call\<rparr> = work_call" by simp
  then obtain rest w' where d: "do_fcp_cm sample_take_llvm (sample_take True) work_take work_call [] work_rewriting = Inr (rest, w')"
    using do_fcp_cm_ok [OF work_call_ready, of "sample_take True" "i_callee work_call" "[]" work_rewriting] by (metis prod.exhaust)
  have h: "i_op work_call = Call" "exec_list ?K [SInt 1] (wOut work_rewriting) ?st = Cont ?st" "eval [SInt 1] (locals ?st) (i_callee work_call) = Some (glob 2)"
      "below (wNext work_rewriting) (i_callee work_call)" "map (eval [SInt 1] (locals ?st)) (i_ops work_call) = map Some [SInt 1]"
      "\<forall>v \<in> set (i_ops work_call). below (wNext work_rewriting) v" "prefix_words (smem ?st) 2 (Symtbl_kFCPcmMagic XOR 5) 5"
    using patched_prefix by (simp_all add: work_call_def new_ins_def work_rewriting_def)
  from fcp_cm_chooses_side [OF d h] obtain top left right st1 where
    "wDone w' = map (redirect_block (wId work_rewriting) (b_id top)) (wDone work_rewriting) @ [top, left, right]"
    "exec_list ?K [SInt 1] (b_ins top) ?st = Jump (b_id left) st1" by auto
  then have "wDone w' = [top, left, right]" "exec_list ?K [SInt 1] (b_ins top) ?st = Jump (b_id left) st1" by (simp_all add: work_rewriting_def)
  with d show ?thesis by blast
qed

text \<open>C36. A call back into the guest: the code the host stage puts in the place of a call, the runtime and
  the callback stub the guest stage made for the signature together do what the call did: the guest
  function is called once, on the same arguments and on a stack with two more cells, its result comes
  back as the value that replaces the call, and the two cells are freed.\<close>

theorem callback_reaches_guest_function:
  assumes "do_callback L c t i b = Inr (ret, b')" "call_site_hash (hashing L) i = Some h" "map_of (mCbStubMap t) h = Some v"
    and "eval as (locals st) v = Some (glob q)" "map_of (m_funcs gm) q = Some (setBody (snd (cb_stub_body cc s h si)) f0)" "stub_fits si i"
    and "prints K (tGyhDebug t)" "runs_callback K (tGyhCallback t) Kg gm" "prints Kg (mGyhDebug s)"
    and "eval as (locals st) (i_callee i) = Some gf" "map (eval as (locals st)) (i_ops i) = map Some xs"
    and "below (fst b) v" "below (fst b) (i_callee i)" "\<forall>v \<in> set (i_ops i). below (fst b) v"
    and "callback_frame i xs (nloc st, smem st) = (rp, ap, n2, m2)" "Kg gf xs n2 m2 = Some (r, m3)" "i_ty i \<noteq> VoidTy \<Longrightarrow> m3 (OLoc (nloc st)) \<noteq> None"
  shows "\<exists>st'. emits K as b st b' st' \<and> nloc st' = nloc st \<and> smem st' = pop_frame (nloc st) m3 \<and>
    (if i_ty i = VoidTy then ret = None else \<exists>w. ret = Some w \<and> val_ty w = i_ty i \<and> eval as (locals st') w = Some r)"
proof -
  have cc: "callback_code c t v i b = (ret, b')" using assms(1-3) by (simp add: do_callback_def)
  show ?thesis using host_callback [OF assms(7-9,5,6,4,10-17), of c, unfolded cc] by (auto split: if_splits)
qed

text \<open>A runtime that runs the callback stubs of a guest module.\<close>

definition callback_calls :: "gvptr \<Rightarrow> calls \<Rightarrow> modul \<Rightarrow> calls" where
  "callback_calls cbk Kg gm g xs n m =
     (if g = glob cbk then
        (case xs of
          [SPtr (OGlob q) _, gf, rp, ap] \<Rightarrow> (case map_of (m_funcs gm) q of Some f \<Rightarrow> call_func Kg f [rp, ap, gf] n m | None \<Rightarrow> None)
        | _ \<Rightarrow> None)
      else Some (SUndef, m))"

lemma callback_calls_ok: "runs_callback (callback_calls cbk Kg gm) cbk Kg gm" "dbg \<noteq> cbk \<Longrightarrow> prints (callback_calls cbk Kg gm) dbg"
  by (simp_all add: runs_callback_def prints_def callback_calls_def)

theorem callback_reaches_guest_function_witness:
  "\<exists>K ret b' st' w. do_callback sample_take_llvm (sample_take False) work_take work_call (2, []) = Inr (ret, b') \<and> ret = Some w \<and>
     emits K [SInt 1] (2, []) \<lparr>locals = (\<lambda>_. None), nloc = 0, smem = (\<lambda>_. None)\<rparr> b' st' \<and> eval [SInt 1] (locals st') w = Some (SInt 42)"
proof -
  let ?st = "\<lparr>locals = (\<lambda>_. None), nloc = 0, smem = (\<lambda>_. None)\<rparr>" and ?Kg = "\<lambda>g xs n m. Some (SInt 42, m)"
  let ?s = "ChopOff_new (empty_module, 20)"
  let ?f = "setBody (snd (cb_stub_body (sample_chop True) ?s work_hash work_stub)) work"
  let ?gm = "empty_module\<lparr>m_funcs := [(12, ?f)]\<rparr>" and ?K = "callback_calls 11 ?Kg (empty_module\<lparr>m_funcs := [(12, ?f)]\<rparr>)"
  obtain b' w where d: "do_callback sample_take_llvm (sample_take False) work_take work_call (2, []) = Inr (w, b')"
    using do_callback_ok [OF work_call_ready, of "sample_take False" "i_callee work_call" "(2, [])"] by (metis prod.exhaust instr.surjective instr.update_convs(6))
  have e: "call_site_hash (hashing sample_take_llvm) work_call = Some work_hash" "map_of (mCbStubMap work_take) work_hash = Some (VGlobal 12)"
    "eval [SInt 1] (locals ?st) (VGlobal 12) = Some (glob 12)" "map_of (m_funcs ?gm) 12 = Some ?f"
    using work_signature by (simp_all add: sample_take_llvm_def work_take_def work_call_def new_ins_def call_site_hash_def)
  have fits: "stub_fits work_stub work_call" by (simp add: stub_fits_def work_stub_def StubInfo_new_def work_ty_def work_call_def new_ins_def i64Ty_def)
  have k: "prints ?K (tGyhDebug work_take)" "runs_callback ?K (tGyhCallback work_take) ?Kg ?gm" "prints ?Kg (mGyhDebug ?s)"
    by (simp_all add: work_take_def callback_calls_ok) (simp add: prints_def)
  have o: "eval [SInt 1] (locals ?st) (i_callee work_call) = Some (glob 2)" "map (eval [SInt 1] (locals ?st)) (i_ops work_call) = map Some [SInt 1]"
    "below (fst (2, [])) (VGlobal 12)" "below (fst (2, [])) (i_callee work_call)" "\<forall>v \<in> set (i_ops work_call). below (fst (2, [])) v"
    by (simp_all add: work_call_def new_ins_def)
  let ?m2 = "(\<lambda>_. None)(OLoc 0 \<mapsto> (i64Ty, undef_of i64Ty), OLoc 1 \<mapsto> (structTy [i64Ty], SAgg [SInt 1]))"
  have fr: "callback_frame work_call [SInt 1] (nloc ?st, smem ?st) = (SPtr (OLoc 0) 0, SPtr (OLoc 1) 0, 2, ?m2)" "i_ty work_call = i64Ty" "i64Ty \<noteq> VoidTy"
    by (simp_all add: callback_frame_def work_call_def new_ins_def push_def numeral_2_eq_2 i64Ty_def)
  from callback_reaches_guest_function [OF d e(1-4) fits k o(1-5) fr(1), of "SInt 42" ?m2] fr(2,3)
  show ?thesis using d by (intro exI [of _ ?K]) auto
qed

end
