(* ===== verification/Spec2Isabelle.thy ===== *)
theory Spec2Isabelle
  imports Gyh_Arm64 Gyh_Riscv64 Gyh_X86_64 Plug_PickUp Plug_TakeSpec
begin

text \<open>
  coMulator runs functions of a guest program natively on the host while the rest of the program is
  emulated.  It has two halves.  A link-time compiler plugin (\<open>src/lib/gyhcall\<close>) decides which functions
  of a guest module can be moved, copies them into a host module and replaces them in the guest by
  stubs.  A runtime inside the emulator (\<open>src/qemu/linux-user/+gyh\<close>) loads the host modules, switches
  from the emulated guest to the host functions and back for their callbacks.  A mock runtime
  (\<open>src/lib/guest_rt/mock.c\<close>) does the same in one process, for testing.

  \<^bold>\<open>The runtime.\<close>
  \<^item> \<open>Gyh_Prelude\<close>: words, results with aborts as values (\<open>result\<close>, \<open>bind_result\<close>), shared lemmas.
  \<^item> \<open>Gyh_Memory\<close>: the byte memory of guest and host, reads, writes and page protection.
  \<^item> \<open>Gyh_Qlib\<close> (\<open>gyh.c\<close>): the table of loaded libraries, the three constructors, the destructor, the
    lookup of a host function, the patching of function prefixes for the cross-module path.
  \<^item> \<open>Gyh_Machine\<close> (\<open>gyh.c\<close>, \<open>gyh.h\<close>): the emulation loop, the dispatch of the runtime's system calls,
    context switches and counters, as explicit state passing; the locale \<open>machine\<close> is the interface an
    architecture provides, interpreted for each of the three.
  \<^item> \<open>Gyh_Arm64\<close>, \<open>Gyh_Riscv64\<close>, \<open>Gyh_X86_64\<close> (\<open>aarch64-on.c\<close>, \<open>riscv64-on.c\<close>, \<open>x86_64-on.c\<close>): traps,
    calls, callbacks and returns of one architecture.
  \<^item> \<open>Gyh_Mock\<close> (\<open>mock.c\<close>): the mock runtime and its equivalence with the constructors of the real one.
  The theorems: a call refines the mock runtime (C1 to C3), returning from a callback resumes the host
  function that made it (C4 to C6), the loop never switches twice (C7), what constructors, destructor and
  patching do to table and memory (C8 to C14), frames, counters and the system call record (C15 to C17).

  \<^bold>\<open>The plugin.\<close>
  \<^item> \<open>Plug_Ir\<close>: the part of LLVM IR the plugin reads and writes, as data; ways of aborting; ordered maps.
  \<^item> \<open>Plug_Json\<close> (\<open>util.cpp\<close>, LLVM's JSON): JSON values, readers, the locale \<open>json_codec\<close> of round trips,
    interpreted for every type that is written to a file.
  \<^item> \<open>Plug_BwList\<close>, \<open>Plug_Config\<close>, \<open>Plug_Symtbl\<close>, \<open>Plug_PickUp\<close>, \<open>Plug_Hash\<close>, \<open>Plug_Analyze\<close>: the files of
    these names (\<open>type_hash.cpp\<close> for \<open>Plug_Hash\<close>): lists of functions, configuration, symbol table, the
    stage that picks functions, hashes of signatures, the analysis.
  \<^item> \<open>Plug_Build\<close>: the calls of \<open>llvm::IRBuilder\<close> the plugin makes and the creation of global values;
    \<open>Plug_Exec\<close>: the meaning of the instructions on a memory of typed objects, and for every builder
    call what the code it adds does (\<open>emits\<close>).
  \<^item> \<open>Plug_ChopOff\<close> (\<open>ChopOff.cpp\<close>, \<open>guest.ll\<close>): the stage that rewrites the guest module;
    \<open>Plug_ChopStub\<close>: what its stubs do when they run; \<open>Plug_ChopSpec\<close>: the stage as a whole.
  \<^item> \<open>Plug_TakeOut\<close> (\<open>TakeOut.cpp\<close>, \<open>host.ll\<close>): the stage that builds the host module.
  The theorems: what the analysis accepts and collects and that its table is well formed (C18, C19),
  equal hashes mean equal signatures (C20), what picking leaves and that its result reloads (C21, C22),
  files and attributes (C23, C24), what is lost or confused (C25 to C27), the guest stage (C28 to C31).

  \<^bold>\<open>Bounds and fuel.\<close>  The loop of the emulator is run for a given list of iterations.  \<open>run_blocks\<close>
  follows at most a given number of jumps.  The search through the operands of global values in
  \<open>TakeOut_do_operand\<close> may nest as many values as the module has: more means a cycle, on which the code
  recurses for ever (\<open>StackOverflow\<close>).

  \<^bold>\<open>Parameters.\<close>  QEMU's CPU core, system calls and signals; the dynamic loader; the host functions;
  the clock; \<open>hash_combine\<close> and the other hashing of LLVM; printing and parsing of IR; the choice of new
  names (\<open>uniquer\<close>, with \<open>uniq_ok\<close>); \<open>CloneFunctionInto\<close>.

  \<^bold>\<open>Not modelled.\<close>  QEMU itself.  Log output and diagnostics beyond the lists of functions reported.  The
  pass wrappers that open log files (\<open>Pass::run\<close>), the command line tools of \<open>src/app\<close> and the Python
  and CMake build scripts: input and output around the stages.  The assembly of \<open>guest_rt\<close> (one system
  call per entry) and its \<open>printf\<close>.  Metadata attached to instructions, names of local values,
  visibility and calling conventions: the IR data have no such fields.
\<close>

section \<open>Properties of the three architectures together\<close>

text \<open>C7. The loop never fails one of the assertions that no switch is pending: on every
  architecture, for every host code, loader, guest and sequence of iterations, from every state.\<close>

theorem loop_never_double_switch:
  "gyh_cpu_loop (arch_a64 Q) H D ps is s \<noteq> Inl (AbAssert ctx_to_null) \<and>
   gyh_cpu_loop (arch_rv64 Q') H' D ps is s' \<noteq> Inl (AbAssert ctx_to_null) \<and>
   gyh_cpu_loop (arch_x86 Q'') H'' D ps is s'' \<noteq> Inl (AbAssert ctx_to_null)"
  by (simp add: a64.loop_no_assert rv64.loop_no_assert x86.loop_no_assert)



text \<open>C15. The context saved by a callback lies in the block \<open>alloca\<close> returned, aligned to 16
  bytes, on every architecture; on x86-64 so does the return address pushed below it.  \<open>sz\<close> is
  the size of a context.\<close>

theorem callback_frame_in_block:
  assumes "unat al + 24 + sz < 2 ^ 64"
  shows "(\<forall>c \<in> {frame_a64 al, frame_rv64 al}.
      unat al < unat c \<and> unat c + sz \<le> unat al + (16 + sz) \<and> c AND 0xf = 0) \<and>
    unat al < unat (frame_x86 al - 8) \<and> unat (frame_x86 al) + sz \<le> unat al + (16 + sz + 8) \<and>
    frame_x86 al AND 0xf = 0"
proof -
  have a: "unat al + 16 < unat (frame_a64 al) + 16 \<and> unat (frame_a64 al) \<le> unat al + 16 \<and> frame_a64 al AND 0xf = 0"
    using align16_bounds [of al 16] assms by (simp add: frame_a64_def)
  have x: "unat al + 24 < unat (frame_x86 al) + 16 \<and> unat (frame_x86 al) \<le> unat al + 24 \<and> frame_x86 al AND 0xf = 0"
    using align16_bounds [of al 24] assms by (simp add: frame_x86_def)
  then have "unat (frame_x86 al - 8) = unat (frame_x86 al) - 8"
    by (intro trans [OF unat_sub]) (auto simp: word_le_nat_alt)
  with a x show ?thesis
    by (auto simp: frame_rv64_def frame_a64_def)
qed

theorem callback_frame_in_block_witness:
  "unat (0x7009 :: u64) + 24 + 968 < 2 ^ 64 \<and> unat (0x7009 :: u64) < unat (frame_x86 0x7009 - 8) \<and>
   unat (frame_x86 0x7009) + 968 \<le> unat (0x7009 :: u64) + (16 + 968 + 8)"
  using callback_frame_in_block [of "0x7009" 968] by simp



end
